(* ===== verification/Go_Base.thy ===== *)
theory Go_Base
  imports Complex_Main "HOL-Library.Word" "HOL-Library.Signed_Division"
begin

text \<open>
  The prelude: what every component theory shares of the Go language.
  \<^item> \<open>outcome\<close>: the three ways a Go function ends (it returns, it returns an
    error, it panics), with the sequencing combinator the models use;
  \<^item> fixed-width signed integers, as \<open>int\<close> values with the wrap-around written out
    (\<open>wrap_s\<close>); the wire codecs use \<open>word\<close> types instead;
  \<^item> instants and durations (package \<^verbatim>\<open>time\<close>): an instant is the number of
    nanoseconds since the Unix epoch, a duration a 64-bit number of nanoseconds,
    and \<open>time_sub\<close> saturates as \<^verbatim>\<open>Time.Sub\<close> does;
  \<^item> a few facts on lists and maps.
\<close>

named_theorems go_int "facts on wrapped integers"
named_theorems go_time "facts on instants and durations"

section \<open>How a call ends\<close>

datatype ('e, 'a) outcome = Ret 'a | Err 'e | Panic

fun obind :: "('e, 'a) outcome \<Rightarrow> ('a \<Rightarrow> ('e, 'b) outcome) \<Rightarrow> ('e, 'b) outcome" where
  "obind (Ret a) f = f a"
| "obind (Err e) f = Err e"
| "obind Panic f = Panic"

fun is_ret :: "('e, 'a) outcome \<Rightarrow> bool" where
  "is_ret (Ret _) = True"
| "is_ret _ = False"

lemma obind_eq_Ret [simp]:
  "obind m f = Ret b \<longleftrightarrow> (\<exists>a. m = Ret a \<and> f a = Ret b)"
  by (cases m) auto

lemma obind_eq_Err:
  "obind m f = Err e \<longleftrightarrow> m = Err e \<or> (\<exists>a. m = Ret a \<and> f a = Err e)"
  by (cases m) auto

lemma obind_eq_Panic:
  "obind m f = Panic \<longleftrightarrow> m = Panic \<or> (\<exists>a. m = Ret a \<and> f a = Panic)"
  by (cases m) auto

lemma obind_assoc: "obind (obind m f) g = obind m (\<lambda>a. obind (f a) g)"
  by (cases m) auto

section \<open>Fixed-width signed integers\<close>

definition wrap_s :: "nat \<Rightarrow> int \<Rightarrow> int" where
  "wrap_s w x = (x + 2 ^ (w - 1)) mod 2 ^ w - 2 ^ (w - 1)"

abbreviation int32 :: "int \<Rightarrow> int" where "int32 \<equiv> wrap_s 32"
abbreviation int64 :: "int \<Rightarrow> int" where "int64 \<equiv> wrap_s 64"

definition in_s :: "nat \<Rightarrow> int \<Rightarrow> bool" where
  "in_s w x \<longleftrightarrow> - (2 ^ (w - 1)) \<le> x \<and> x < 2 ^ (w - 1)"

lemma pow2_half: "0 < w \<Longrightarrow> (2::int) ^ w = 2 * 2 ^ (w - 1)"
  by (cases w) simp_all

lemma in_s_wrap_s [go_int, simp]: "0 < w \<Longrightarrow> in_s w (wrap_s w x)"
  using pow2_half [of w] pos_mod_bound [of "2 ^ w" "x + 2 ^ (w - 1)"]
    pos_mod_sign [of "2 ^ w" "x + 2 ^ (w - 1)"]
  by (simp add: wrap_s_def in_s_def)

lemma wrap_s_id [go_int]: "0 < w \<Longrightarrow> in_s w x \<Longrightarrow> wrap_s w x = x"
  using pow2_half [of w] by (simp add: wrap_s_def in_s_def mod_pos_pos_trivial)

lemma wrap_s_idem [go_int, simp]: "0 < w \<Longrightarrow> wrap_s w (wrap_s w x) = wrap_s w x"
  by (simp add: wrap_s_id)

lemma wrap_s_eq_iff: "0 < w \<Longrightarrow> wrap_s w x = x \<longleftrightarrow> in_s w x"
  by (metis in_s_wrap_s wrap_s_id)

text \<open>Wrapping is a ring homomorphism modulo \<open>2 ^ w\<close>: an intermediate wrap can be dropped.\<close>

lemma wrap_s_cong_mod: "wrap_s w x mod 2 ^ w = x mod 2 ^ w"
  by (simp add: wrap_s_def mod_simps)

lemma wrap_s_cong: "x mod 2 ^ w = y mod 2 ^ w \<Longrightarrow> wrap_s w x = wrap_s w y"
  by (metis mod_add_left_eq wrap_s_def)

lemma wrap_s_add_left [go_int]: "wrap_s w (wrap_s w x + y) = wrap_s w (x + y)"
  by (rule wrap_s_cong) (metis mod_add_left_eq wrap_s_cong_mod)

lemma wrap_s_add_right [go_int]: "wrap_s w (x + wrap_s w y) = wrap_s w (x + y)"
  by (rule wrap_s_cong) (metis mod_add_right_eq wrap_s_cong_mod)

lemma wrap_s_diff_left [go_int]: "wrap_s w (wrap_s w x - y) = wrap_s w (x - y)"
  by (rule wrap_s_cong) (metis mod_diff_left_eq wrap_s_cong_mod)

lemma wrap_s_diff_right [go_int]: "wrap_s w (x - wrap_s w y) = wrap_s w (x - y)"
  by (rule wrap_s_cong) (metis mod_diff_right_eq wrap_s_cong_mod)

section \<open>Instants and durations\<close>

type_synonym time = int
type_synonym duration = int

definition second :: duration where "second = 1000000000"
definition millisecond :: duration where "millisecond = 1000000"

definition max_duration :: duration where "max_duration = 2 ^ 63 - 1"
definition min_duration :: duration where "min_duration = - (2 ^ 63)"

text \<open>The zero \<^verbatim>\<open>time.Time{}\<close> is 1 January of year 1, 62135596800 seconds before the epoch.\<close>

definition time_zero :: time where "time_zero = - 62135596800 * second"

definition time_sub :: "time \<Rightarrow> time \<Rightarrow> duration" where
  "time_sub t u = max min_duration (min max_duration (t - u))"

definition time_after :: "time \<Rightarrow> time \<Rightarrow> bool" where
  "time_after t u \<longleftrightarrow> u < t"

definition time_unix :: "int \<Rightarrow> int \<Rightarrow> time" where
  "time_unix sec nsec = sec * second + nsec"

definition unix_sec :: "time \<Rightarrow> int" where "unix_sec t = t div second"
definition nanosecond :: "time \<Rightarrow> int" where "nanosecond t = t mod second"

lemmas duration_bounds = max_duration_def min_duration_def

lemma time_unix_split [go_time]: "time_unix (unix_sec t) (nanosecond t) = t"
  by (simp add: time_unix_def unix_sec_def nanosecond_def)

lemma nanosecond_range [go_time]: "0 \<le> nanosecond t" "nanosecond t < second"
  by (simp_all add: nanosecond_def second_def)

lemma time_sub_range [go_time]: "in_s 64 (time_sub t u)"
  by (auto simp: time_sub_def duration_bounds in_s_def)

lemma time_sub_exact [go_time]: "in_s 64 (t - u) \<Longrightarrow> time_sub t u = t - u"
  by (auto simp: time_sub_def duration_bounds in_s_def)

lemma time_sub_mono [go_time]: "t \<le> t' \<Longrightarrow> time_sub t u \<le> time_sub t' u"
  by (auto simp: time_sub_def)

lemma time_sub_nonneg [go_time]: "0 \<le> time_sub t u \<longleftrightarrow> u \<le> t"
  by (auto simp: time_sub_def duration_bounds)

lemma time_sub_self [go_time, simp]: "time_sub t t = 0"
  by (simp add: time_sub_def duration_bounds)

section \<open>Numbers in decimal\<close>

fun digits :: "nat \<Rightarrow> string" where
  "digits n = (if n < 10 then [char_of (48 + n)] else digits (n div 10) @ [char_of (48 + n mod 10)])"

declare digits.simps [simp del]

definition itoa :: "int \<Rightarrow> string" where
  "itoa n = (if n < 0 then CHR ''-'' # digits (nat (- n)) else digits (nat n))"

text \<open>A decimal number has no colon in it and determines its value.\<close>

lemma digits_chars: "c \<in> set (digits n) \<Longrightarrow> \<exists>d < 10. c = char_of (48 + d :: nat)"
proof (induction n rule: digits.induct)
  case (1 n)
  show ?case
  proof (cases "n < 10")
    case True
    then show ?thesis using 1(2) by (auto simp: digits.simps [of n])
  next
    case False
    then have "c \<in> set (digits (n div 10)) \<or> c = char_of (48 + n mod 10)"
      using 1(2) by (auto simp: digits.simps [of n])
    then show ?thesis using 1(1) [OF False] by (metis mod_less_divisor zero_less_numeral)
  qed
qed

fun digits_back :: "nat \<Rightarrow> string \<Rightarrow> nat" where
  "digits_back acc [] = acc"
| "digits_back acc (c # cs) = digits_back (10 * acc + (of_char c - 48)) cs"

lemma digits_back_append: "digits_back acc (xs @ ys) = digits_back (digits_back acc xs) ys"
  by (induction xs arbitrary: acc) auto

lemma digit_value: "d < 10 \<Longrightarrow> (of_char (char_of (48 + d) :: char) :: nat) - 48 = d"
  by (simp add: of_char_of take_bit_eq_mod)

lemma digits_back_digits: "digits_back 0 (digits n) = n"
proof (induction n rule: digits.induct)
  case (1 n)
  show ?case
  proof (cases "n < 10")
    case True
    then show ?thesis by (simp add: digits.simps [of n] digit_value)
  next
    case False
    have "digits_back 0 (digits n) = 10 * (n div 10) + n mod 10"
      using 1 [OF False] False by (simp add: digits.simps [of n] digits_back_append digit_value)
    then show ?thesis by simp
  qed
qed

lemma digits_inj: "digits m = digits n \<Longrightarrow> m = n"
  by (metis digits_back_digits)

lemma digits_only: "(of_char c :: nat) < 48 \<or> 57 < (of_char c :: nat) \<Longrightarrow> c \<notin> set (digits n)"
proof
  assume c: "(of_char c :: nat) < 48 \<or> 57 < (of_char c :: nat)" "c \<in> set (digits n)"
  then obtain d where d: "d < 10" "c = char_of (48 + d :: nat)" using digits_chars by blast
  then have "(of_char c :: nat) = 48 + d" by (simp add: take_bit_eq_mod)
  then show False using c(1) d(1) by simp
qed

lemma itoa_inj: "itoa k = itoa k' \<Longrightarrow> k = k'"
proof -
  have m: "CHR ''-'' \<notin> set (digits n)" for n by (rule digits_only) simp
  then have m': "digits n \<noteq> CHR ''-'' # s" "CHR ''-'' # s \<noteq> digits n" for n s by (metis list.set_intros(1))+
  assume "itoa k = itoa k'"
  then show "k = k'" using m' by (auto simp: itoa_def dest!: digits_inj split: if_splits)
qed

lemma itoa_no_colon: "CHR '':'' \<notin> set (itoa k)"
  using digits_only [of "CHR '':''"] by (simp add: itoa_def)

text \<open>Reading digits gives back the number they were written for.\<close>

definition is_digit :: "char \<Rightarrow> bool" where
  "is_digit c \<longleftrightarrow> 48 \<le> (of_char c :: nat) \<and> (of_char c :: nat) \<le> 57"

fun digits_value :: "int \<Rightarrow> string \<Rightarrow> int" where
  "digits_value acc [] = acc"
| "digits_value acc (c # cs) = digits_value (10 * acc + (of_char c - 48)) cs"

lemma digits_are_digits: "c \<in> set (digits n) \<Longrightarrow> is_digit c"
  using digits_only [of c n] by (fastforce simp: is_digit_def)

lemma digits_value_digits: "digits_value 0 (digits n) = int n"
proof -
  have "digits_value (int acc) ds = int (digits_back acc ds)" if "\<forall>c \<in> set ds. is_digit c" for ds acc
    using that
  proof (induction ds arbitrary: acc)
    case (Cons c ds)
    then have eq: "int (10 * acc + (of_char c - 48)) = 10 * int acc + (of_char c - 48)" by (simp add: is_digit_def of_nat_diff of_nat_of_char)
    have "digits_value (int (10 * acc + (of_char c - 48))) ds = int (digits_back (10 * acc + (of_char c - 48)) ds)"
      by (rule Cons.IH) (use Cons.prems in simp)
    then show ?case unfolding eq by simp
  qed simp
  then have "digits_value (int 0) (digits n) = int (digits_back 0 (digits n))" using digits_are_digits by blast
  then show ?thesis by (simp add: digits_back_digits)
qed

section \<open>Lists of optional values\<close>

lemma those_length: "those xs = Some ys \<Longrightarrow> length ys = length xs"
  by (induction xs arbitrary: ys) (auto split: option.splits)

end
