(* ===== verification/Go_Float.thy ===== *)
theory Go_Float
  imports Go_Base
begin

text \<open>
  IEEE 754 binary64, the \<^verbatim>\<open>float64\<close> of the Go code, on finite values, the two
  infinities and NaN. \<open>rnd\<close> rounds a real number to 53 significant bits (fewer below
  \<open>2 ^ -1022\<close>), to nearest and ties to even; \<open>fl\<close> adds the overflow to infinity.
  Every arithmetic operation is the exact operation followed by \<open>fl\<close>. The facts the
  components use: \<open>rnd\<close> is monotone, odd, idempotent, exact on integers up to
  \<open>2 ^ 53\<close>, and off by at most half a unit in the last place.
  The two zeros are one value here: the code never divides by a negative zero and
  compares zeros only with \<open><\<close>, \<open>\<le>\<close> and their like, which do not tell them apart.
  Fused multiply-add, which the Go specification allows on some architectures and the
  amd64 compiler does not use, is not modelled.
\<close>

named_theorems fl_simps "evaluation of float operations"

section \<open>Rounding a real number to 53 bits\<close>

text \<open>
  The binary exponent of a positive number, found by halving or doubling; the number of
  steps is bounded by the exponent range, so that the exponent stays at \<open>-1022\<close> for
  subnormal numbers and at 1024 for numbers that overflow.
\<close>

fun lg_up :: "nat \<Rightarrow> real \<Rightarrow> nat" where
  "lg_up 0 x = 0"
| "lg_up (Suc n) x = (if x < 2 then 0 else Suc (lg_up n (x / 2)))"

fun lg_down :: "nat \<Rightarrow> real \<Rightarrow> nat" where
  "lg_down 0 x = 0"
| "lg_down (Suc n) x = (if 1 \<le> x then 0 else Suc (lg_down n (2 * x)))"

definition expo :: "real \<Rightarrow> int" where
  "expo x = (if 1 \<le> \<bar>x\<bar> then int (lg_up 1024 \<bar>x\<bar>) else - int (lg_down 1022 \<bar>x\<bar>))"

text \<open>Round to the nearest integer, ties to even.\<close>

definition rhe :: "real \<Rightarrow> int" where
  "rhe y = (let f = \<lfloor>y\<rfloor>; d = y - of_int f in
     if d < 1 / 2 then f else if 1 / 2 < d then f + 1 else if even f then f else f + 1)"

definition ulp :: "real \<Rightarrow> real" where
  "ulp x = 2 powi (expo x - 52)"

definition rnd :: "real \<Rightarrow> real" where
  "rnd x = of_int (rhe (x / ulp x)) * ulp x"

lemma lg_up_le: "lg_up n x \<le> n"
  by (induction n x rule: lg_up.induct) auto

lemma lg_up_lower: "1 \<le> x \<Longrightarrow> 2 ^ lg_up n x \<le> x"
proof (induction n x rule: lg_up.induct)
  case (2 n x)
  then show ?case by (cases "x < 2") (auto simp: field_simps)
qed simp

lemma lg_up_upper: "lg_up n x < n \<Longrightarrow> x < 2 ^ (lg_up n x + 1)"
proof (induction n x rule: lg_up.induct)
  case (2 n x)
  then show ?case by (cases "x < 2") (auto simp: field_simps)
qed simp

lemma lg_down_le: "lg_down n x \<le> n"
  by (induction n x rule: lg_down.induct) auto

lemma lg_down_upper: "x < 2 \<Longrightarrow> x * 2 ^ lg_down n x < 2"
proof (induction n x rule: lg_down.induct)
  case (2 n x)
  then show ?case by (cases "1 \<le> x") (auto simp: mult_ac)
qed simp

lemma lg_down_lower: "lg_down n x < n \<Longrightarrow> 1 \<le> x * 2 ^ lg_down n x"
proof (induction n x rule: lg_down.induct)
  case (2 n x)
  then show ?case by (cases "1 \<le> x") (auto simp: mult_ac)
qed simp

lemma two_powi_pos [simp]: "0 < (2::real) powi e"
  by simp

lemma two_powi_mono: "e \<le> f \<Longrightarrow> (2::real) powi e \<le> 2 powi f"
  by (simp add: power_int_increasing)

lemma two_powi_le_iff: "(2::real) powi e \<le> 2 powi f \<longleftrightarrow> e \<le> f"
  by (metis linorder_not_less order_less_imp_le power_int_strict_increasing two_powi_mono
      one_less_numeral_iff semiring_norm(76) not_le)

lemma two_powi_add: "(2::real) powi (e + f) = 2 powi e * 2 powi f"
  by (simp add: power_int_add)

lemma expo_range: "-1022 \<le> expo x" "expo x \<le> 1024"
  using lg_up_le [of 1024 "\<bar>x\<bar>"] lg_down_le [of 1022 "\<bar>x\<bar>"] by (auto simp: expo_def)

lemma expo_upper:
  assumes "expo x < 1024"
  shows "\<bar>x\<bar> < 2 powi (expo x + 1)"
proof (cases "1 \<le> \<bar>x\<bar>")
  case True
  with assms have "lg_up 1024 \<bar>x\<bar> < 1024" by (simp add: expo_def)
  from lg_up_upper [OF this] True show ?thesis
    by (simp add: expo_def power_int_def nat_add_distrib)
next
  case False
  have "\<bar>x\<bar> * 2 ^ lg_down 1022 \<bar>x\<bar> < 2"
    using False by (intro lg_down_upper) simp
  moreover have "(2::real) powi (expo x + 1) * 2 ^ lg_down 1022 \<bar>x\<bar> = 2"
    using False by (simp add: expo_def power_int_diff)
  ultimately have "\<bar>x\<bar> * 2 ^ lg_down 1022 \<bar>x\<bar> < 2 powi (expo x + 1) * 2 ^ lg_down 1022 \<bar>x\<bar>"
    by simp
  then show ?thesis by (simp only: mult_less_cancel_right) auto
qed

lemma expo_lower:
  assumes "-1022 < expo x"
  shows "2 powi expo x \<le> \<bar>x\<bar>"
proof (cases "1 \<le> \<bar>x\<bar>")
  case True
  then show ?thesis using lg_up_lower [OF True, of 1024] by (simp add: expo_def)
next
  case False
  with assms have "1 \<le> \<bar>x\<bar> * 2 ^ lg_down 1022 \<bar>x\<bar>"
    by (intro lg_down_lower) (simp add: expo_def)
  moreover have "(2::real) powi expo x * 2 ^ lg_down 1022 \<bar>x\<bar> = 1"
    using False by (simp add: expo_def power_int_minus)
  ultimately have "2 powi expo x * 2 ^ lg_down 1022 \<bar>x\<bar> \<le> \<bar>x\<bar> * 2 ^ lg_down 1022 \<bar>x\<bar>"
    by simp
  then show ?thesis by (simp only: mult_le_cancel_right) auto
qed

lemma expo_minus [simp]: "expo (- x) = expo x"
  by (simp add: expo_def)

lemma expo_abs [simp]: "expo \<bar>x\<bar> = expo x"
  by (simp add: expo_def)

lemma expo_mono:
  assumes "\<bar>x\<bar> \<le> \<bar>y\<bar>"
  shows "expo x \<le> expo y"
proof (rule ccontr)
  assume "\<not> ?thesis"
  then have lt: "expo y < expo x" by simp
  then have "expo y < 1024" "-1022 < expo x"
    using expo_range [of x] expo_range [of y] by auto
  then have "\<bar>y\<bar> < 2 powi (expo y + 1)" "2 powi expo x \<le> \<bar>x\<bar>"
    by (auto intro: expo_upper expo_lower)
  moreover have "(2::real) powi (expo y + 1) \<le> 2 powi expo x"
    using lt by (intro two_powi_mono) simp
  ultimately show False using assms by simp
qed

lemma expo_eqI:
  assumes "2 powi e \<le> \<bar>x\<bar>" "\<bar>x\<bar> < 2 powi (e + 1)" "-1022 \<le> e" "e < 1024"
  shows "expo x = e"
proof -
  have "e \<le> expo x"
  proof (rule ccontr)
    assume "\<not> ?thesis"
    then have "expo x + 1 \<le> e" by simp
    then have "\<bar>x\<bar> < 2 powi e"
      using expo_upper [of x] assms(4) two_powi_mono [of "expo x + 1" e] by fastforce
    with assms(1) show False by simp
  qed
  moreover have "expo x \<le> e"
  proof (rule ccontr)
    assume "\<not> ?thesis"
    then have "e + 1 \<le> expo x" by simp
    then have "2 powi (e + 1) \<le> \<bar>x\<bar>"
      using expo_lower [of x] assms(3) two_powi_mono [of "e + 1" "expo x"] by fastforce
    with assms(2) show False by simp
  qed
  ultimately show ?thesis by simp
qed

lemma ulp_pos [simp]: "0 < ulp x"
  by (simp add: ulp_def)

lemma ulp_neq_0 [simp]: "ulp x \<noteq> 0"
  using ulp_pos [of x] by linarith

lemma ulp_minus [simp]: "ulp (- x) = ulp x"
  by (simp add: ulp_def)


lemma rhe_bounds: "y - 1 / 2 \<le> of_int (rhe y)" "of_int (rhe y) \<le> y + 1 / 2"
  by (auto simp: rhe_def Let_def split: if_splits; linarith)+

lemma rhe_of_int [simp]: "rhe (of_int n) = n"
  by (simp add: rhe_def)

lemma rhe_mono:
  assumes "x \<le> y"
  shows "rhe x \<le> rhe y"
proof -
  have "\<lfloor>x\<rfloor> \<le> \<lfloor>y\<rfloor>" using assms by (rule floor_mono)
  then consider "\<lfloor>x\<rfloor> = \<lfloor>y\<rfloor>" | "\<lfloor>x\<rfloor> + 1 \<le> \<lfloor>y\<rfloor>" by linarith
  then show ?thesis
  proof cases
    case 1
    then show ?thesis using assms by (auto simp: rhe_def Let_def)
  next
    case 2
    have "rhe x \<le> \<lfloor>x\<rfloor> + 1" "\<lfloor>y\<rfloor> \<le> rhe y" by (auto simp: rhe_def Let_def)
    with 2 show ?thesis by linarith
  qed
qed

lemma rhe_minus: "rhe (- y) = - rhe y"
proof (cases "y = of_int \<lfloor>y\<rfloor>")
  case True
  then show ?thesis by (metis of_int_minus rhe_of_int)
next
  case False
  then have "\<lfloor>- y\<rfloor> = - \<lfloor>y\<rfloor> - 1"
    by (simp add: floor_minus ceiling_altdef)
  then show ?thesis by (auto simp: rhe_def Let_def)
qed

lemma rnd_minus [simp]: "rnd (- x) = - rnd x"
  by (simp add: rnd_def rhe_minus)

lemma rnd_0 [simp]: "rnd 0 = 0"
  by (simp add: rnd_def rhe_def)

lemma rnd_error: "\<bar>rnd x - x\<bar> \<le> ulp x / 2"
proof -
  have "\<bar>of_int (rhe (x / ulp x)) - x / ulp x\<bar> \<le> 1 / 2"
    using rhe_bounds [of "x / ulp x"] by linarith
  then have "\<bar>of_int (rhe (x / ulp x)) - x / ulp x\<bar> * ulp x \<le> 1 / 2 * ulp x"
    by (rule mult_right_mono) (simp add: less_imp_le)
  moreover have "\<bar>of_int (rhe (x / ulp x)) - x / ulp x\<bar> * ulp x = \<bar>rnd x - x\<bar>"
    using ulp_pos [of x] abs_mult_pos [of "ulp x" "of_int (rhe (x / ulp x)) - x / ulp x"]
    by (simp add: rnd_def left_diff_distrib less_imp_le)
  ultimately show ?thesis by simp
qed

text \<open>What 53 bits can hold.\<close>

definition representable :: "real \<Rightarrow> bool" where
  "representable x \<longleftrightarrow> (\<exists>m q. x = of_int m * 2 powi q \<and> \<bar>m\<bar> \<le> 2 ^ 53 \<and> -1074 \<le> q)"

lemma rnd_exact_int_ratio: "x / ulp x = of_int n \<Longrightarrow> rnd x = x"
  using ulp_pos [of x] rhe_of_int [of n] by (simp add: rnd_def) (metis nonzero_divide_eq_eq ulp_neq_0)

lemma rnd_representable_id:
  assumes "representable x"
  shows "rnd x = x"
proof -
  obtain m q where x: "x = of_int m * 2 powi q" and m: "\<bar>m\<bar> \<le> 2 ^ 53" and q: "-1074 \<le> q"
    using assms by (auto simp: representable_def)
  show ?thesis
  proof (cases "expo x - 52 \<le> q")
    case True
    then have "2 powi (q - (expo x - 52)) = (of_int (2 ^ nat (q - (expo x - 52))) :: real)"
      by (simp add: power_int_def)
    moreover have "x / ulp x = of_int m * 2 powi (q - (expo x - 52))"
      by (subst (1) x) (simp add: ulp_def power_int_diff)
    ultimately have "x / ulp x = of_int (m * 2 ^ nat (q - (expo x - 52)))"
      by simp
    then show ?thesis by (rule rnd_exact_int_ratio)
  next
    case False
    then have e: "q + 53 \<le> expo x" by simp
    with q have "2 powi expo x \<le> \<bar>x\<bar>" by (intro expo_lower) simp
    also have "\<bar>x\<bar> = of_int \<bar>m\<bar> * 2 powi q" by (simp add: x abs_mult)
    also have "\<dots> \<le> 2 ^ 53 * 2 powi q" using m
      by (intro mult_right_mono) (auto simp flip: of_int_abs)
    also have "\<dots> = 2 powi (q + 53)" by (simp add: power_int_add)
    finally have "expo x \<le> q + 53" by (simp add: two_powi_le_iff)
    with e have eq: "expo x = q + 53" by simp
    have "2 powi (q + 53) \<le> of_int \<bar>m\<bar> * (2::real) powi q"
      using \<open>2 powi expo x \<le> \<bar>x\<bar>\<close> eq by (simp add: x abs_mult)
    then have "(2::real) ^ 53 * 2 powi q \<le> of_int \<bar>m\<bar> * 2 powi q"
      by (simp add: power_int_add)
    then have "(2::real) ^ 53 \<le> of_int \<bar>m\<bar>" by (simp only: mult_le_cancel_right) auto
    then have "2 ^ 53 \<le> \<bar>m\<bar>" by (metis of_int_le_iff of_int_numeral of_int_power)
    with m have "\<bar>m\<bar> = 2 ^ 53" by simp
    then have "m = 2 ^ 53 \<or> m = - (2 ^ 53)" by linarith
    then have "even m" by auto
    then obtain k where k: "m = 2 * k" by (rule evenE)
    have "x / ulp x = of_int k"
      by (subst (1) x) (simp add: ulp_def eq power_int_add k)
    then show ?thesis by (rule rnd_exact_int_ratio)
  qed
qed


lemma rhe_le_of_int: "y \<le> of_int n \<Longrightarrow> rhe y \<le> n"
  using rhe_mono [of y "of_int n"] by simp

lemma rhe_ge_of_int: "of_int n \<le> y \<Longrightarrow> n \<le> rhe y"
  using rhe_mono [of "of_int n" y] by simp

lemma ratio_upper:
  assumes "expo x < 1024"
  shows "\<bar>x\<bar> / ulp x < 2 ^ 53"
proof -
  have "2 powi (expo x + 1) = 2 ^ 53 * ulp x"
    by (simp add: ulp_def power_int_diff power_int_add)
  with expo_upper [OF assms] show ?thesis by (simp add: pos_divide_less_eq)
qed

lemma ratio_lower:
  assumes "-1022 < expo x"
  shows "2 ^ 52 \<le> \<bar>x\<bar> / ulp x"
proof -
  have "2 powi expo x = 2 ^ 52 * ulp x"
    by (simp add: ulp_def power_int_diff)
  with expo_lower [OF assms] show ?thesis by (simp add: pos_le_divide_eq)
qed

lemma rnd_mono_nonneg:
  assumes "0 \<le> x" "x \<le> y"
  shows "rnd x \<le> rnd y"
proof -
  have le: "expo x \<le> expo y" using assms by (intro expo_mono) simp
  show ?thesis
  proof (cases "expo x = expo y")
    case True
    then have "ulp x = ulp y" by (simp add: ulp_def)
    moreover have "rhe (x / ulp y) \<le> rhe (y / ulp y)"
      using assms by (intro rhe_mono divide_right_mono) (auto simp: less_imp_le)
    ultimately show ?thesis by (simp add: rnd_def mult_right_mono less_imp_le)
  next
    case False
    with le have lt: "expo x < expo y" by simp
    then have "expo x < 1024" "-1022 < expo y"
      using expo_range [of x] expo_range [of y] by auto
    then have "rhe (x / ulp x) \<le> 2 ^ 53" "2 ^ 52 \<le> rhe (y / ulp y)"
      using ratio_upper [of x] ratio_lower [of y] assms
      by (auto intro!: rhe_le_of_int rhe_ge_of_int)
    then have "(of_int (rhe (x / ulp x)) :: real) \<le> 2 ^ 53"
        "(2::real) ^ 52 \<le> of_int (rhe (y / ulp y))"
      by (metis of_int_le_iff of_int_numeral of_int_power)+
    then have "rnd x \<le> 2 ^ 53 * ulp x" "2 ^ 52 * ulp y \<le> rnd y"
      by (auto simp: rnd_def less_imp_le intro!: mult_right_mono)
    moreover have "2 ^ 53 * ulp x = 2 powi (expo x + 1)" "2 ^ 52 * ulp y = 2 powi expo y"
      by (simp_all add: ulp_def power_int_diff power_int_add)
    moreover have "(2::real) powi (expo x + 1) \<le> 2 powi expo y"
      using lt by (intro two_powi_mono) simp
    ultimately show ?thesis by linarith
  qed
qed

lemma rnd_nonneg: "0 \<le> x \<Longrightarrow> 0 \<le> rnd x"
  using rnd_mono_nonneg [of 0 x] by simp

lemma rnd_mono: "x \<le> y \<Longrightarrow> rnd x \<le> rnd y"
  using rnd_mono_nonneg [of x y] rnd_mono_nonneg [of "- y" "- x"]
    rnd_nonneg [of y] rnd_nonneg [of "- x"] by (cases "0 \<le> x"; cases "0 \<le> y") auto

lemma representable_rnd_bounded:
  assumes "expo x < 1024"
  shows "representable (rnd x)"
proof -
  have "- (2 ^ 53) \<le> x / ulp x" "x / ulp x \<le> 2 ^ 53"
    using ratio_upper [OF assms] abs_divide [of x "ulp x"] ulp_pos [of x] by linarith+
  then have "\<bar>rhe (x / ulp x)\<bar> \<le> 2 ^ 53"
    using rhe_le_of_int [of "x / ulp x" "2 ^ 53"] rhe_ge_of_int [of "- (2 ^ 53)" "x / ulp x"]
    by auto
  moreover have "-1074 \<le> expo x - 52" using expo_range(1) [of x] by simp
  ultimately show ?thesis unfolding representable_def rnd_def ulp_def by blast
qed

lemma representable_of_int: "\<bar>n\<bar> \<le> 2 ^ 53 \<Longrightarrow> representable (of_int n)"
  unfolding representable_def by (rule exI [of _ n], rule exI [of _ 0]) simp

lemma rnd_of_int [fl_simps]: "\<bar>n\<bar> \<le> 2 ^ 53 \<Longrightarrow> rnd (of_int n) = of_int n"
  by (simp add: representable_of_int rnd_representable_id)

lemma rnd_numeral [fl_simps]: "numeral k \<le> (2::int) ^ 53 \<Longrightarrow> rnd (numeral k) = numeral k"
  using rnd_of_int [of "numeral k"] by simp

lemma rnd_1 [fl_simps, simp]: "rnd 1 = 1"
  using rnd_of_int [of 1] by simp

text \<open>Evaluating \<open>rnd\<close> on a concrete number: name the nearest 53-bit number.\<close>

lemma rnd_eqI:
  assumes "2 powi e \<le> \<bar>x\<bar>" "\<bar>x\<bar> < 2 powi (e + 1)" "-1022 \<le> e" "e < 1024"
    and "\<bar>x - of_int m * 2 powi (e - 52)\<bar> < 2 powi (e - 52) / 2"
  shows "rnd x = of_int m * 2 powi (e - 52)"
proof -
  have u: "ulp x = 2 powi (e - 52)"
    using expo_eqI [OF assms(1-4)] by (simp add: ulp_def)
  have "x - of_int m * ulp x = (x / ulp x - of_int m) * ulp x"
    using ulp_pos [of x] by (simp add: left_diff_distrib)
  with assms(5) u have "\<bar>x / ulp x - of_int m\<bar> * ulp x < 1 / 2 * ulp x"
    using ulp_pos [of x] by (simp add: abs_mult)
  then have "\<bar>x / ulp x - of_int m\<bar> < 1 / 2"
    using ulp_pos [of x] by (simp only: mult_less_cancel_right)
  then have "rhe (x / ulp x) = m"
    using rhe_bounds [of "x / ulp x"] by linarith
  then show ?thesis by (simp add: rnd_def u)
qed


section \<open>The type float64\<close>

datatype float64 = Fin real | PInf | NInf | NaN

abbreviation two1024 :: real where "two1024 \<equiv> 2 ^ 1024"

definition fl :: "real \<Rightarrow> float64" where
  "fl x = (let r = rnd x in if two1024 \<le> r then PInf else if r \<le> - two1024 then NInf else Fin r)"

text \<open>A value a variable can hold: a finite value has at most 53 significant bits.\<close>

fun wf64 :: "float64 \<Rightarrow> bool" where
  "wf64 (Fin r) \<longleftrightarrow> rnd r = r \<and> \<bar>r\<bar> < two1024"
| "wf64 _ \<longleftrightarrow> True"

fun f_neg :: "float64 \<Rightarrow> float64" where
  "f_neg (Fin r) = Fin (- r)"
| "f_neg PInf = NInf"
| "f_neg NInf = PInf"
| "f_neg NaN = NaN"

fun f_abs :: "float64 \<Rightarrow> float64" where
  "f_abs (Fin r) = Fin \<bar>r\<bar>"
| "f_abs NInf = PInf"
| "f_abs x = x"

fun f_add :: "float64 \<Rightarrow> float64 \<Rightarrow> float64" where
  "f_add (Fin a) (Fin b) = fl (a + b)"
| "f_add NaN _ = NaN"
| "f_add _ NaN = NaN"
| "f_add PInf NInf = NaN"
| "f_add NInf PInf = NaN"
| "f_add PInf _ = PInf"
| "f_add _ PInf = PInf"
| "f_add NInf _ = NInf"
| "f_add _ NInf = NInf"

definition f_sub :: "float64 \<Rightarrow> float64 \<Rightarrow> float64" where
  "f_sub a b = f_add a (f_neg b)"

text \<open>The infinity with the sign of a nonzero real; a zero factor gives NaN.\<close>

definition signed_inf :: "real \<Rightarrow> float64" where
  "signed_inf s = (if 0 < s then PInf else if s < 0 then NInf else NaN)"

fun f_sgn :: "float64 \<Rightarrow> real" where
  "f_sgn (Fin r) = sgn r"
| "f_sgn PInf = 1"
| "f_sgn NInf = - 1"
| "f_sgn NaN = 0"

fun f_mul :: "float64 \<Rightarrow> float64 \<Rightarrow> float64" where
  "f_mul (Fin a) (Fin b) = fl (a * b)"
| "f_mul NaN _ = NaN"
| "f_mul _ NaN = NaN"
| "f_mul a b = signed_inf (f_sgn a * f_sgn b)"

fun f_div :: "float64 \<Rightarrow> float64 \<Rightarrow> float64" where
  "f_div (Fin a) (Fin b) = (if b = 0 then signed_inf a else fl (a / b))"
| "f_div NaN _ = NaN"
| "f_div _ NaN = NaN"
| "f_div (Fin a) _ = Fin 0"
| "f_div a (Fin b) = (if b = 0 then a else signed_inf (f_sgn a * sgn b))"
| "f_div _ _ = NaN"

text \<open>The comparisons are false as soon as one side is NaN.\<close>

fun f_le :: "float64 \<Rightarrow> float64 \<Rightarrow> bool" where
  "f_le NaN _ = False"
| "f_le _ NaN = False"
| "f_le NInf _ = True"
| "f_le _ PInf = True"
| "f_le (Fin a) (Fin b) = (a \<le> b)"
| "f_le _ _ = False"

fun f_lt :: "float64 \<Rightarrow> float64 \<Rightarrow> bool" where
  "f_lt NaN _ = False"
| "f_lt _ NaN = False"
| "f_lt (Fin a) (Fin b) = (a < b)"
| "f_lt NInf b = (b \<noteq> NInf)"
| "f_lt a PInf = (a \<noteq> PInf)"
| "f_lt _ _ = False"

text \<open>\<^verbatim>\<open>math.Max\<close> and \<^verbatim>\<open>math.Min\<close>: the infinity first, then NaN.\<close>

definition f_max :: "float64 \<Rightarrow> float64 \<Rightarrow> float64" where
  "f_max a b = (if a = PInf \<or> b = PInf then PInf else if a = NaN \<or> b = NaN then NaN
     else if f_lt b a then a else b)"

definition f_min :: "float64 \<Rightarrow> float64 \<Rightarrow> float64" where
  "f_min a b = (if a = NInf \<or> b = NInf then NInf else if a = NaN \<or> b = NaN then NaN
     else if f_lt a b then a else b)"

fun f_sqrt :: "float64 \<Rightarrow> float64" where
  "f_sqrt (Fin a) = (if a < 0 then NaN else fl (sqrt a))"
| "f_sqrt PInf = PInf"
| "f_sqrt _ = NaN"

text \<open>
  Conversions. An integer converts by rounding; a float converts to an integer by
  dropping the fraction. Outside the range of the integer type the Go specification
  leaves the result to the implementation: this is the amd64 one.
\<close>

definition f_of_int :: "int \<Rightarrow> float64" where
  "f_of_int n = fl (of_int n)"

definition trunc :: "real \<Rightarrow> int" where
  "trunc r = (if 0 \<le> r then \<lfloor>r\<rfloor> else \<lceil>r\<rceil>)"

fun f_to_i64 :: "float64 \<Rightarrow> int" where
  "f_to_i64 (Fin r) = (if in_s 64 (trunc r) then trunc r else - (2 ^ 63))"
| "f_to_i64 _ = - (2 ^ 63)"

definition is_nan :: "float64 \<Rightarrow> bool" where "is_nan x \<longleftrightarrow> x = NaN"

fun is_fin :: "float64 \<Rightarrow> bool" where
  "is_fin (Fin _) = True"
| "is_fin _ = False"

text \<open>\<^verbatim>\<open>Duration.Seconds\<close>: whole seconds and the fraction are converted apart.\<close>

definition dur_seconds :: "duration \<Rightarrow> float64" where
  "dur_seconds d = f_add (f_of_int (d sdiv second)) (f_div (f_of_int (d smod second)) (f_of_int second))"


subsection \<open>Every operation yields a representable value\<close>

lemma rnd_overflow:
  assumes "expo x = 1024"
  shows "two1024 \<le> \<bar>rnd x\<bar>"
proof -
  have "2 ^ 52 \<le> \<bar>x\<bar> / ulp x" using assms by (intro ratio_lower) simp
  then have "2 ^ 52 \<le> rhe (\<bar>x\<bar> / ulp x)" by (intro rhe_ge_of_int) simp
  then have "(2::real) ^ 52 \<le> of_int (rhe (\<bar>x\<bar> / ulp x))"
    by (metis of_int_le_iff of_int_numeral of_int_power)
  moreover have "ulp \<bar>x\<bar> = ulp x" by (simp add: ulp_def)
  ultimately have "2 ^ 52 * ulp x \<le> rnd \<bar>x\<bar>"
    by (simp add: rnd_def mult_right_mono less_imp_le)
  moreover have "2 ^ 52 * ulp x = two1024" by (simp add: ulp_def assms flip: power_add)
  moreover have "rnd \<bar>x\<bar> \<le> \<bar>rnd x\<bar>" by (simp add: abs_if)
  ultimately show ?thesis by linarith
qed

lemma rnd_idem: "\<bar>rnd x\<bar> < two1024 \<Longrightarrow> rnd (rnd x) = rnd x"
  using rnd_overflow [of x] expo_range(2) [of x]
  by (intro rnd_representable_id representable_rnd_bounded) linarith

lemma wf64_fl [simp]: "wf64 (fl x)"
  by (auto simp: fl_def Let_def abs_less_iff intro!: rnd_idem)

lemma wf64_signed_inf [simp]: "wf64 (signed_inf s)"
  by (simp add: signed_inf_def)

lemma wf64_neg [simp]: "wf64 (f_neg a) \<longleftrightarrow> wf64 a"
  by (cases a) auto

lemma wf64_abs [simp]: "wf64 a \<Longrightarrow> wf64 (f_abs a)"
  by (cases a) (auto simp: abs_if)

lemma wf64_add [simp]: "wf64 (f_add a b)"
  by (cases a; cases b) auto

lemma wf64_sub [simp]: "wf64 (f_sub a b)"
  by (simp add: f_sub_def)

lemma wf64_mul [simp]: "wf64 (f_mul a b)"
  by (cases a; cases b) auto

lemma wf64_div [simp]: "wf64 (f_div a b)"
  by (cases a; cases b) auto

lemma wf64_max [simp]: "wf64 a \<Longrightarrow> wf64 b \<Longrightarrow> wf64 (f_max a b)"
  by (simp add: f_max_def)

lemma wf64_min [simp]: "wf64 a \<Longrightarrow> wf64 b \<Longrightarrow> wf64 (f_min a b)"
  by (simp add: f_min_def)

lemma wf64_sqrt [simp]: "wf64 (f_sqrt a)"
  by (cases a) auto

lemma wf64_of_int [simp]: "wf64 (f_of_int n)"
  by (simp add: f_of_int_def)

lemma wf64_0 [simp]: "wf64 (Fin 0)" and wf64_1 [simp]: "wf64 (Fin 1)"
  by simp_all

lemma fl_id: "wf64 (Fin r) \<Longrightarrow> fl r = Fin r"
  by (auto simp: fl_def abs_less_iff)

lemma fl_of_int [fl_simps]: "\<bar>n\<bar> \<le> 2 ^ 53 \<Longrightarrow> fl (of_int n) = Fin (of_int n)"
proof -
  assume n: "\<bar>n\<bar> \<le> 2 ^ 53"
  then have "\<bar>of_int n :: real\<bar> \<le> 2 ^ 53"
    by (metis of_int_abs of_int_le_iff of_int_numeral of_int_power)
  also have "(2::real) ^ 53 < two1024" by (rule power_strict_increasing) auto
  finally show "fl (of_int n) = Fin (of_int n)" using n by (intro fl_id) (simp add: rnd_of_int)
qed

lemma f_of_int_exact [fl_simps]: "\<bar>n\<bar> \<le> 2 ^ 53 \<Longrightarrow> f_of_int n = Fin (of_int n)"
  by (simp add: f_of_int_def fl_of_int)

lemma fl_numeral [fl_simps]: "numeral k \<le> (2::int) ^ 53 \<Longrightarrow> fl (numeral k) = Fin (numeral k)"
  using fl_of_int [of "numeral k"] by simp

lemma fl_0 [fl_simps, simp]: "fl 0 = Fin 0" and fl_1 [fl_simps, simp]: "fl 1 = Fin 1"
  using fl_of_int [of 0] fl_of_int [of 1] by simp_all

text \<open>A bounded real does not overflow.\<close>

lemma fl_fin:
  assumes "\<bar>x\<bar> \<le> 2 ^ 1000"
  shows "fl x = Fin (rnd x)"
proof -
  have "representable (2 ^ 1000)"
    unfolding representable_def by (rule exI [of _ 1], rule exI [of _ 1000]) (simp add: power_int_def)
  then have r: "rnd (2 ^ 1000) = 2 ^ 1000" by (rule rnd_representable_id)
  have "rnd x \<le> 2 ^ 1000" "- (2 ^ 1000) \<le> rnd x"
    using assms rnd_mono [of x "2 ^ 1000"] rnd_mono [of "- (2 ^ 1000)" x] r by auto
  moreover have "(2::real) ^ 1000 < two1024" by (rule power_strict_increasing) auto
  ultimately show ?thesis by (auto simp: fl_def Let_def)
qed

lemma rnd_abs_le: "\<bar>x\<bar> \<le> b \<Longrightarrow> rnd b = b \<Longrightarrow> \<bar>rnd x\<bar> \<le> b"
  using rnd_mono [of x b] rnd_mono [of "- b" x] by (auto simp: abs_le_iff)

subsection \<open>Order\<close>

lemma f_le_refl [simp]: "f_le a a \<longleftrightarrow> a \<noteq> NaN"
  by (cases a) auto

lemma f_le_trans [trans]: "f_le a b \<Longrightarrow> f_le b c \<Longrightarrow> f_le a c"
  by (cases a; cases b; cases c) auto

lemma f_le_antisym: "f_le a b \<Longrightarrow> f_le b a \<Longrightarrow> a = b"
  by (cases a; cases b) auto

lemma f_lt_iff: "f_lt a b \<longleftrightarrow> f_le a b \<and> a \<noteq> b"
  by (cases a; cases b) auto

lemma f_lt_not_le: "a \<noteq> NaN \<Longrightarrow> b \<noteq> NaN \<Longrightarrow> f_lt a b \<longleftrightarrow> \<not> f_le b a"
  by (cases a; cases b) auto

lemma f_le_not_lt: "f_le a b \<Longrightarrow> \<not> f_lt b a"
  by (cases a; cases b) auto

lemma f_lt_le_trans [trans]: "f_lt a b \<Longrightarrow> f_le b c \<Longrightarrow> f_lt a c"
  by (cases a; cases b; cases c) auto

lemma f_le_lt_trans [trans]: "f_le a b \<Longrightarrow> f_lt b c \<Longrightarrow> f_lt a c"
  by (cases a; cases b; cases c) auto

lemma f_le_nan [simp]: "\<not> f_le a NaN" "\<not> f_le NaN a" "\<not> f_lt a NaN" "\<not> f_lt NaN a"
  by (cases a; simp)+

lemma fl_mono: "x \<le> y \<Longrightarrow> f_le (fl x) (fl y)"
  using rnd_mono [of x y] by (auto simp: fl_def Let_def)

lemma fl_not_nan [simp]: "fl x \<noteq> NaN"
  by (simp add: fl_def Let_def)

lemma f_max_ge: "a \<noteq> NaN \<Longrightarrow> b \<noteq> NaN \<Longrightarrow> f_le a (f_max a b) \<and> f_le b (f_max a b)"
  by (cases a; cases b) (auto simp: f_max_def)

lemma f_max_le: "f_le a c \<Longrightarrow> f_le b c \<Longrightarrow> f_le (f_max a b) c"
  by (cases a; cases b; cases c) (auto simp: f_max_def)

lemma f_max_not_nan: "a \<noteq> NaN \<Longrightarrow> b \<noteq> NaN \<Longrightarrow> f_max a b \<noteq> NaN"
  by (cases a; cases b) (auto simp: f_max_def)

lemma f_min_le: "a \<noteq> NaN \<Longrightarrow> b \<noteq> NaN \<Longrightarrow> f_le (f_min a b) a \<and> f_le (f_min a b) b"
  by (cases a; cases b) (auto simp: f_min_def)

lemma f_min_ge: "f_le c a \<Longrightarrow> f_le c b \<Longrightarrow> f_le c (f_min a b)"
  by (cases a; cases b; cases c) (auto simp: f_min_def)

lemma f_abs_nonneg: "a \<noteq> NaN \<Longrightarrow> f_le (Fin 0) (f_abs a)"
  by (cases a) auto


subsection \<open>Monotonicity of the arithmetic\<close>

lemma f_add_0 [simp]: "wf64 a \<Longrightarrow> f_add a (Fin 0) = a"
  by (cases a) (auto intro!: fl_id simp: abs_less_iff)

lemma f_0_add [simp]: "wf64 a \<Longrightarrow> f_add (Fin 0) a = a"
  by (cases a) (auto intro!: fl_id simp: abs_less_iff)

lemma f_le_fl_Inf [simp]: "f_le (fl x) PInf" "f_le NInf (fl x)"
  by (cases "fl x"; simp)+

lemma f_add_mono:
  assumes "f_le a a'" "f_le b b'" "f_add a b \<noteq> NaN" "f_add a' b' \<noteq> NaN"
  shows "f_le (f_add a b) (f_add a' b')"
  using assms by (cases a; cases a'; cases b; cases b') (auto intro: fl_mono)

lemma f_add_ge_left:
  assumes "wf64 a" "f_le (Fin 0) b" "f_add a b \<noteq> NaN"
  shows "f_le a (f_add a b)"
proof -
  have "a \<noteq> NaN" using assms(3) by (cases a) auto
  with assms f_add_mono [of a a "Fin 0" b] show ?thesis by simp
qed

lemma f_add_ge_right:
  assumes "wf64 b" "f_le (Fin 0) a" "f_add a b \<noteq> NaN"
  shows "f_le b (f_add a b)"
proof -
  have "b \<noteq> NaN" using assms(3) by (cases a; cases b) auto
  with assms f_add_mono [of "Fin 0" a b b] show ?thesis by simp
qed

lemma f_neg_le: "f_le (Fin 0) b \<Longrightarrow> f_le (f_neg b) (Fin 0)"
  by (cases b) auto

lemma f_sub_le_left:
  assumes "wf64 a" "f_le (Fin 0) b" "f_sub a b \<noteq> NaN"
  shows "f_le (f_sub a b) a"
proof -
  have "a \<noteq> NaN" using assms(3) by (cases a) (auto simp: f_sub_def)
  with assms f_add_mono [of a a "f_neg b" "Fin 0"] show ?thesis
    by (simp add: f_sub_def f_neg_le)
qed

lemma f_neg_antimono: "f_le a b \<Longrightarrow> f_le (f_neg b) (f_neg a)"
  by (cases a; cases b) auto

lemma f_sub_antimono:
  assumes "f_le b b'" "f_sub a b \<noteq> NaN" "f_sub a b' \<noteq> NaN"
  shows "f_le (f_sub a b') (f_sub a b)"
proof -
  have "a \<noteq> NaN" using assms(2) by (cases a) (auto simp: f_sub_def)
  with assms show ?thesis
    by (auto simp: f_sub_def intro!: f_add_mono f_neg_antimono)
qed

lemma f_add_Fin_not_nan [simp]:
  "f_add (Fin a) b = NaN \<longleftrightarrow> b = NaN" "f_add b (Fin a) = NaN \<longleftrightarrow> b = NaN"
  by (cases b; simp)+

lemma f_sub_Fin_not_nan [simp]:
  "f_sub (Fin a) b = NaN \<longleftrightarrow> b = NaN" "f_sub b (Fin a) = NaN \<longleftrightarrow> b = NaN"
  by (cases b; simp add: f_sub_def)+

lemma f_mul_Fin_nonneg: "0 \<le> a \<Longrightarrow> 0 \<le> b \<Longrightarrow> f_le (Fin 0) (f_mul (Fin a) (Fin b))"
  using fl_mono [of 0 "a * b"] by simp

lemma f_mul_Fin_mono:
  "0 \<le> a \<Longrightarrow> b \<le> b' \<Longrightarrow> f_le (f_mul (Fin a) (Fin b)) (f_mul (Fin a) (Fin b'))"
  by (simp add: fl_mono mult_left_mono)

subsection \<open>Durations in seconds\<close>

lemma sec_parts:
  assumes "in_s 64 d"
  shows "\<bar>d sdiv second\<bar> \<le> 9223372036" "\<bar>d smod second\<bar> < second"
    "0 \<le> d \<Longrightarrow> d sdiv second = d div second" "0 \<le> d \<Longrightarrow> d smod second = d mod second"
  using assms
  by (auto simp: signed_divide_int_def signed_modulo_int_def second_def in_s_def sgn_if)

lemma dur_seconds_Fin:
  assumes "in_s 64 d"
  shows "dur_seconds d =
    Fin (rnd (of_int (d sdiv second) + rnd (of_int (d smod second) / of_int second)))"
proof -
  define s r where "s = d sdiv second" and "r = d smod second"
  have s: "\<bar>s\<bar> \<le> 9223372036" and r: "\<bar>r\<bar> < second"
    using sec_parts [OF assms] by (auto simp: s_def r_def)
  have fs: "f_of_int s = Fin (of_int s)" "f_of_int r = Fin (of_int r)"
      "f_of_int second = Fin (of_int second)"
    using s r f_of_int_exact [of 1000000000] by (auto intro!: f_of_int_exact simp: second_def)
  have "\<bar>of_int r / of_int second :: real\<bar> \<le> 1"
    using r by (simp add: second_def flip: of_int_abs)
  then have q: "\<bar>rnd (of_int r / of_int second)\<bar> \<le> 1" by (rule rnd_abs_le) simp
  have "(1::real) \<le> 2 ^ 1000" "(9223372037::real) \<le> 2 ^ 1000" by simp_all
  then have "fl (of_int r / of_int second) = Fin (rnd (of_int r / of_int second))"
    using \<open>\<bar>of_int r / of_int second\<bar> \<le> 1\<close> by (intro fl_fin) linarith
  moreover have "fl (of_int s + rnd (of_int r / of_int second))
      = Fin (rnd (of_int s + rnd (of_int r / of_int second)))"
  proof (rule fl_fin)
    have "\<bar>of_int s :: real\<bar> \<le> 9223372036" using s by linarith
    with q show "\<bar>of_int s + rnd (of_int r / of_int second)\<bar> \<le> 2 ^ 1000"
      using \<open>(9223372037::real) \<le> 2 ^ 1000\<close> by linarith
  qed
  moreover have "second \<noteq> 0" by (simp add: second_def)
  ultimately show ?thesis by (simp add: dur_seconds_def fs flip: s_def r_def)
qed

lemma dur_seconds_mono:
  assumes "0 \<le> d" "d \<le> d'" "in_s 64 d'"
  shows "f_le (dur_seconds d) (dur_seconds d')"
proof -
  have d: "in_s 64 d" "0 \<le> d'" using assms by (auto simp: in_s_def)
  define q where "q = (\<lambda>e. rnd (of_int (e mod second) / of_int second))"
  have q01: "0 \<le> q e" "q e \<le> 1" for e
    unfolding q_def using rnd_mono [of "of_int (e mod second) / of_int second" 1]
    by (auto intro!: rnd_nonneg simp: second_def)
  have "of_int (d div second) + q d \<le> of_int (d' div second) + q d'"
  proof (cases "d div second = d' div second")
    case True
    then have "d mod second \<le> d' mod second"
      using assms(2) by (metis div_mult_mod_eq add_le_cancel_left)
    then have "q d \<le> q d'" unfolding q_def
      by (intro rnd_mono divide_right_mono) (auto simp: second_def)
    with True show ?thesis by simp
  next
    case False
    moreover have "d div second \<le> d' div second"
      using assms(2) by (intro zdiv_mono1) (auto simp: second_def)
    ultimately have "d div second + 1 \<le> d' div second" by simp
    then have "of_int (d div second) + 1 \<le> (of_int (d' div second) :: real)"
      by (metis of_int_1 of_int_add of_int_le_iff)
    with q01 [of d] q01 [of d'] show ?thesis by linarith
  qed
  then have "rnd (of_int (d div second) + q d) \<le> rnd (of_int (d' div second) + q d')"
    by (rule rnd_mono)
  then show ?thesis
    using sec_parts(3,4) [OF d(1) assms(1)] sec_parts(3,4) [OF assms(3) d(2)]
    by (simp add: dur_seconds_Fin [OF d(1)] dur_seconds_Fin [OF assms(3)] q_def)
qed

lemma dur_seconds_0 [simp]: "dur_seconds 0 = Fin 0"
  using dur_seconds_Fin [of 0] by (simp add: in_s_def signed_divide_int_def signed_modulo_int_def)

lemma dur_seconds_nonneg: "0 \<le> d \<Longrightarrow> in_s 64 d \<Longrightarrow> f_le (Fin 0) (dur_seconds d)"
  using dur_seconds_mono [of 0 d] by simp

lemma dur_seconds_whole [fl_simps]:
  assumes "\<bar>n\<bar> \<le> 9223372036"
  shows "dur_seconds (n * second) = Fin (of_int n)"
proof -
  have "in_s 64 (n * second)" using assms by (auto simp: in_s_def second_def)
  moreover have "n * second sdiv second = n" "n * second smod second = 0"
    by (auto simp: signed_divide_int_def signed_modulo_int_def second_def sgn_if abs_mult)
  ultimately show ?thesis using assms by (simp add: dur_seconds_Fin rnd_of_int)
qed

subsection \<open>Sign and size of rounded results\<close>

lemma rhe_le_twice: "0 \<le> y \<Longrightarrow> of_int (rhe y) \<le> 2 * y"
proof (cases "y \<le> 1 / 2")
  case True
  assume "0 \<le> y"
  with True have "\<lfloor>y\<rfloor> = 0" by (simp add: floor_eq_iff)
  with True \<open>0 \<le> y\<close> show ?thesis by (auto simp: rhe_def Let_def)
next
  case False
  then show ?thesis using rhe_bounds(2) [of y] by linarith
qed

lemma rnd_le_twice: "0 \<le> x \<Longrightarrow> rnd x \<le> 2 * x"
  using rhe_le_twice [of "x / ulp x"] ulp_pos [of x]
  by (simp add: rnd_def pos_le_divide_eq)

lemma rnd_nonpos: "x \<le> 0 \<Longrightarrow> rnd x \<le> 0"
  using rnd_mono [of x 0] by simp

lemma fl_Fin: "\<bar>rnd x\<bar> < two1024 \<Longrightarrow> fl x = Fin (rnd x)"
  by (auto simp: fl_def Let_def)

lemma fl_eq_Fin: "fl x = Fin r \<Longrightarrow> r = rnd x \<and> \<bar>r\<bar> < two1024"
  by (auto simp: fl_def Let_def split: if_splits)

lemma fl_nonneg: "0 \<le> x \<Longrightarrow> f_le (Fin 0) (fl x)"
  using fl_mono [of 0 x] by simp

text \<open>Nonnegative unless undefined: the invariant of sums of squares.\<close>

definition nonneg_or_nan :: "float64 \<Rightarrow> bool" where
  "nonneg_or_nan x \<longleftrightarrow> x = NaN \<or> f_le (Fin 0) x"

lemma nonneg_or_nan_add:
  "nonneg_or_nan a \<Longrightarrow> nonneg_or_nan b \<Longrightarrow> nonneg_or_nan (f_add a b)"
  by (cases a; cases b) (auto simp: nonneg_or_nan_def intro: fl_nonneg)

lemma nonneg_or_nan_mul:
  "nonneg_or_nan a \<Longrightarrow> nonneg_or_nan b \<Longrightarrow> nonneg_or_nan (f_mul a b)"
  by (cases a; cases b) (auto simp: nonneg_or_nan_def signed_inf_def sgn_if intro: fl_nonneg)

lemma nonneg_or_nan_square:
  assumes "nonneg_or_nan a"
  shows "nonneg_or_nan (f_mul (f_mul a d) d)"
proof (cases a; cases d)
  fix x y assume xy: "a = Fin x" "d = Fin y"
  have "nonneg_or_nan (f_mul (fl (x * y)) (Fin y))"
  proof (cases "fl (x * y)")
    case (Fin r)
    then have r: "r = rnd (x * y)" using fl_eq_Fin by blast
    have "0 \<le> x" using assms xy by (simp add: nonneg_or_nan_def)
    then have "0 \<le> r * y"
      using rnd_nonneg [of "x * y"] rnd_nonpos [of "x * y"]
      by (cases "0 \<le> y") (auto simp: r zero_le_mult_iff mult_nonneg_nonpos)
    with Fin show ?thesis by (simp add: nonneg_or_nan_def fl_nonneg)
  next
    case PInf
    have "0 \<le> y"
    proof (rule ccontr)
      assume "\<not> 0 \<le> y"
      then have "f_le (fl (x * y)) (fl 0)"
        using assms xy by (intro fl_mono) (simp add: nonneg_or_nan_def mult_nonneg_nonpos)
      with PInf show False by simp
    qed
    with PInf show ?thesis by (auto simp: nonneg_or_nan_def signed_inf_def sgn_if)
  next
    case NInf
    have "y \<le> 0"
    proof (rule ccontr)
      assume "\<not> y \<le> 0"
      then have "f_le (Fin 0) (fl (x * y))"
        using assms xy by (intro fl_nonneg) (simp add: nonneg_or_nan_def)
      with NInf show False by simp
    qed
    with NInf show ?thesis by (auto simp: nonneg_or_nan_def signed_inf_def sgn_if)
  qed simp
  with xy show ?thesis by simp
qed (use assms in \<open>auto simp: nonneg_or_nan_def signed_inf_def sgn_if\<close>)

end
