(* ===== verification/Go_Json.thy ===== *)
theory Go_Json
  imports Go_Float
begin

text \<open>
  Package \<^verbatim>\<open>encoding/json\<close>, as far as the services use it: struct values travel as JSON
  objects. A document is modelled after parsing: \<open>json\<close> is its tree, numbers carry the
  number they denote, and a string that holds an RFC 3339 timestamp is the leaf
  \<open>JTime\<close> with its instant. Numbers are taken to be written as the package writes them
  (no fraction or exponent on an integer), so an integer field accepts every integral
  number of its range. Decoding follows the package: keys match field names
  regardless of case, unknown keys are skipped, missing keys and \<open>null\<close> leave the zero
  value, a value of the wrong type is an error. Encoding fails on a float that is not
  finite and on an instant outside the years 0 to 9999. \<open>json_codec\<close> is the contract
  every encoder and decoder pair of the development is shown to keep.
\<close>

named_theorems json_simps "evaluation of encoders and decoders"

datatype json =
    JNull
  | JBool bool
  | JNum real
  | JStr string
  | JTime time
  | JArr "json list"
  | JObj "(string \<times> json) list"

section \<open>Encoding\<close>

fun j_float :: "float64 \<Rightarrow> json option" where
  "j_float (Fin r) = Some (JNum r)"
| "j_float _ = None"

definition j_int :: "int \<Rightarrow> json" where
  "j_int n = JNum (of_int n)"

definition json_time_ok :: "time \<Rightarrow> bool" where
  "json_time_ok t \<longleftrightarrow> - 62167219200 * second \<le> t \<and> t < 253402300800 * second"

definition j_time :: "time \<Rightarrow> json option" where
  "j_time t = (if json_time_ok t then Some (JTime t) else None)"

text \<open>An object from fields that may fail to encode; \<open>omitempty\<close> fields are given as a
  list that is empty or a singleton.\<close>

fun j_fields :: "(string \<times> json option) list \<Rightarrow> (string \<times> json) list option" where
  "j_fields [] = Some []"
| "j_fields ((k, v) # fs) =
     (case v of None \<Rightarrow> None | Some j \<Rightarrow> map_option ((#) (k, j)) (j_fields fs))"

definition j_object :: "(string \<times> json option) list \<Rightarrow> json option" where
  "j_object fs = map_option JObj (j_fields fs)"

section \<open>Decoding\<close>

definition lower_char :: "char \<Rightarrow> char" where
  "lower_char c = (let n = (of_char c :: nat) in if 65 \<le> n \<and> n \<le> 90 then char_of (n + 32) else c)"

definition fold_eq :: "string \<Rightarrow> string \<Rightarrow> bool" where
  "fold_eq s t \<longleftrightarrow> map lower_char s = map lower_char t"

text \<open>The values a decoder stores into the field \<open>name\<close>, in document order.\<close>

definition j_values :: "string \<Rightarrow> (string \<times> json) list \<Rightarrow> json list" where
  "j_values name ob = map snd (filter (\<lambda>(k, v). fold_eq k name \<and> v \<noteq> JNull) ob)"

fun d_store :: "(json \<Rightarrow> 'a option) \<Rightarrow> 'a \<Rightarrow> json list \<Rightarrow> 'a option" where
  "d_store dec z [] = Some z"
| "d_store dec z (v # vs) = (case dec v of None \<Rightarrow> None | Some a \<Rightarrow> d_store dec a vs)"

definition d_field :: "(json \<Rightarrow> 'a option) \<Rightarrow> 'a \<Rightarrow> string \<Rightarrow> (string \<times> json) list \<Rightarrow> 'a option" where
  "d_field dec z name ob = d_store dec z (j_values name ob)"

fun d_struct :: "((string \<times> json) list \<Rightarrow> 'a option) \<Rightarrow> json \<Rightarrow> 'a option" where
  "d_struct f (JObj ob) = f ob"
| "d_struct f JNull = f []"
| "d_struct f _ = None"

fun d_string :: "json \<Rightarrow> string option" where
  "d_string (JStr s) = Some s"
| "d_string _ = None"

fun d_bool :: "json \<Rightarrow> bool option" where
  "d_bool (JBool b) = Some b"
| "d_bool _ = None"

fun d_float :: "json \<Rightarrow> float64 option" where
  "d_float (JNum r) = (case fl r of Fin x \<Rightarrow> Some (Fin x) | _ \<Rightarrow> None)"
| "d_float _ = None"

fun d_int :: "nat \<Rightarrow> json \<Rightarrow> int option" where
  "d_int w (JNum r) = (if r \<in> \<int> \<and> in_s w \<lfloor>r\<rfloor> then Some \<lfloor>r\<rfloor> else None)"
| "d_int w _ = None"

fun d_time :: "json \<Rightarrow> time option" where
  "d_time (JTime t) = Some t"
| "d_time _ = None"

fun d_list :: "(json \<Rightarrow> 'a option) \<Rightarrow> json \<Rightarrow> 'a list option" where
  "d_list dec (JArr js) = those (map dec js)"
| "d_list dec _ = None"

text \<open>A \<^verbatim>\<open>json.RawMessage\<close> field keeps the subtree; here \<open>None\<close> is the empty message.\<close>

definition d_raw :: "json \<Rightarrow> json option option" where
  "d_raw j = Some (Some j)"

section \<open>Facts for the codecs\<close>

lemma d_int_j_int [json_simps]: "in_s w n \<Longrightarrow> d_int w (j_int n) = Some n"
  by (simp add: j_int_def)

lemma d_float_Fin [json_simps]: "wf64 (Fin r) \<Longrightarrow> d_float (JNum r) = Some (Fin r)"
  using fl_id [of r] by simp

declare d_float.simps(1) [simp del]

lemma j_int_not_null [json_simps, simp]: "j_int n \<noteq> JNull"
  by (simp add: j_int_def)

lemma d_store_single [json_simps]: "d_store dec z [v] = dec v"
  by (simp split: option.split)

lemma d_struct_some: "d_struct f j = Some a \<Longrightarrow> \<exists>ob. f ob = Some a"
  by (cases j) auto

lemma fold_eq_refl [simp]: "fold_eq s s"
  by (simp add: fold_eq_def)

lemmas decode_simps =
  d_field_def j_values_def d_store_single j_object_def

locale json_codec =
  fixes enc :: "'a \<Rightarrow> json option"
    and dec :: "json \<Rightarrow> 'a option"
    and ok :: "'a \<Rightarrow> bool"
  assumes dec_enc: "ok a \<Longrightarrow> enc a = Some j \<Longrightarrow> dec j = Some a"
    and enc_total: "ok a \<Longrightarrow> enc a \<noteq> None"
begin

lemma round_trip: "ok a \<Longrightarrow> Option.bind (enc a) dec = Some a"
  using dec_enc [of a] enc_total [of a] by (cases "enc a") auto

lemma enc_inj: "ok a \<Longrightarrow> ok b \<Longrightarrow> enc a = enc b \<Longrightarrow> a = b"
  using dec_enc enc_total by (metis not_None_eq option.inject)

end

end
