(* ===== verification/Common_Types.thy ===== *)
theory Common_Types
  imports Go_Json
begin

text \<open>
  The messages the services exchange (\<^verbatim>\<open>libs/common/types.go\<close>) and their JSON forms:
  one encoder and one decoder per struct, after its field tags. Each pair keeps the contract
  \<open>json_codec\<close>.
\<close>

section \<open>Raw fields\<close>

text \<open>A \<^verbatim>\<open>json.RawMessage\<close> field takes any value, \<open>null\<close> included; \<open>None\<close> is the nil message,
  which is written as \<open>null\<close>.\<close>

definition d_rawfield :: "string \<Rightarrow> (string \<times> json) list \<Rightarrow> json option" where
  "d_rawfield name ob =
     (case filter (\<lambda>(k, v). fold_eq k name) ob of [] \<Rightarrow> None | fs \<Rightarrow> Some (snd (last fs)))"

definition j_raw :: "json option \<Rightarrow> json" where
  "j_raw r = (case r of None \<Rightarrow> JNull | Some j \<Rightarrow> j)"

text \<open>\<^verbatim>\<open>json.Unmarshal\<close> of a raw message: an empty one is an error.\<close>

definition d_message :: "(json \<Rightarrow> 'a option) \<Rightarrow> json option \<Rightarrow> 'a option" where
  "d_message dec r = Option.bind r dec"

section \<open>Measurement events\<close>

definition ProbeTypeStamp :: string where "ProbeTypeStamp = ''stamp''"
definition ProbeTypeTrace :: string where "ProbeTypeTrace = ''trace''"
definition ProbeTypePing :: string where "ProbeTypePing = ''ping''"

lemmas probe_type_defs = ProbeTypeStamp_def ProbeTypeTrace_def ProbeTypePing_def

record MeasurementEvent =
  me_Type :: string
  me_SerialID :: string
  me_Target :: string
  me_Port :: int
  me_Src :: string
  me_Timestamp :: time
  me_Metrics :: "json option"

definition MeasurementEvent_enc :: "MeasurementEvent \<Rightarrow> json option" where
  "MeasurementEvent_enc e = j_object
     ([(''type'', Some (JStr (me_Type e))), (''serial_id'', Some (JStr (me_SerialID e))),
       (''target'', Some (JStr (me_Target e)))]
      @ (if me_Port e = 0 then [] else [(''port'', Some (j_int (me_Port e)))])
      @ (if me_Src e = [] then [] else [(''src'', Some (JStr (me_Src e)))])
      @ [(''timestamp'', j_time (me_Timestamp e)), (''metrics'', Some (j_raw (me_Metrics e)))])"

definition MeasurementEvent_dec :: "json \<Rightarrow> MeasurementEvent option" where
  "MeasurementEvent_dec = d_struct (\<lambda>ob.
     case (d_field d_string [] ''type'' ob, d_field d_string [] ''serial_id'' ob,
           d_field d_string [] ''target'' ob, d_field (d_int 32) 0 ''port'' ob,
           d_field d_string [] ''src'' ob, d_field d_time time_zero ''timestamp'' ob) of
       (Some ty, Some sid, Some tg, Some po, Some sr, Some ts) \<Rightarrow>
         Some \<lparr>me_Type = ty, me_SerialID = sid, me_Target = tg, me_Port = po, me_Src = sr,
           me_Timestamp = ts, me_Metrics = d_rawfield ''metrics'' ob\<rparr>
     | _ \<Rightarrow> None)"

definition MeasurementEvent_ok :: "MeasurementEvent \<Rightarrow> bool" where
  "MeasurementEvent_ok e \<longleftrightarrow> in_s 32 (me_Port e) \<and> json_time_ok (me_Timestamp e) \<and> me_Metrics e \<noteq> None"

record PingMetrics =
  pm_RttP95Ns :: int
  pm_Sent :: int
  pm_Received :: int

record StampMetrics =
  sm_RttP95Ns :: int
  sm_FwdP95Ns :: int
  sm_BwdP95Ns :: int
  sm_Sent :: int
  sm_Received :: int

record TraceMetrics =
  tm_AsnPathHash :: string
  tm_LinkPathHash :: string

definition PingMetrics_enc :: "PingMetrics \<Rightarrow> json option" where
  "PingMetrics_enc m = j_object
     [(''rtt_p95_ns'', Some (j_int (pm_RttP95Ns m))), (''sent'', Some (j_int (pm_Sent m))),
      (''received'', Some (j_int (pm_Received m)))]"

definition PingMetrics_dec :: "json \<Rightarrow> PingMetrics option" where
  "PingMetrics_dec = d_struct (\<lambda>ob.
     case (d_field (d_int 64) 0 ''rtt_p95_ns'' ob, d_field (d_int 64) 0 ''sent'' ob,
           d_field (d_int 64) 0 ''received'' ob) of
       (Some r, Some s, Some v) \<Rightarrow> Some \<lparr>pm_RttP95Ns = r, pm_Sent = s, pm_Received = v\<rparr>
     | _ \<Rightarrow> None)"

definition PingMetrics_ok :: "PingMetrics \<Rightarrow> bool" where
  "PingMetrics_ok m \<longleftrightarrow> in_s 64 (pm_RttP95Ns m) \<and> in_s 64 (pm_Sent m) \<and> in_s 64 (pm_Received m)"

definition StampMetrics_enc :: "StampMetrics \<Rightarrow> json option" where
  "StampMetrics_enc m = j_object
     [(''rtt_p95_ns'', Some (j_int (sm_RttP95Ns m))), (''fwd_p95_ns'', Some (j_int (sm_FwdP95Ns m))),
      (''bwd_p95_ns'', Some (j_int (sm_BwdP95Ns m))), (''sent'', Some (j_int (sm_Sent m))),
      (''received'', Some (j_int (sm_Received m)))]"

definition StampMetrics_dec :: "json \<Rightarrow> StampMetrics option" where
  "StampMetrics_dec = d_struct (\<lambda>ob.
     case (d_field (d_int 64) 0 ''rtt_p95_ns'' ob, d_field (d_int 64) 0 ''fwd_p95_ns'' ob,
           d_field (d_int 64) 0 ''bwd_p95_ns'' ob, d_field (d_int 64) 0 ''sent'' ob,
           d_field (d_int 64) 0 ''received'' ob) of
       (Some r, Some f, Some b, Some s, Some v) \<Rightarrow>
         Some \<lparr>sm_RttP95Ns = r, sm_FwdP95Ns = f, sm_BwdP95Ns = b, sm_Sent = s, sm_Received = v\<rparr>
     | _ \<Rightarrow> None)"

definition StampMetrics_ok :: "StampMetrics \<Rightarrow> bool" where
  "StampMetrics_ok m \<longleftrightarrow> in_s 64 (sm_RttP95Ns m) \<and> in_s 64 (sm_FwdP95Ns m) \<and> in_s 64 (sm_BwdP95Ns m)
     \<and> in_s 64 (sm_Sent m) \<and> in_s 64 (sm_Received m)"

definition TraceMetrics_enc :: "TraceMetrics \<Rightarrow> json option" where
  "TraceMetrics_enc m = j_object
     [(''asn_path_hash'', Some (JStr (tm_AsnPathHash m))), (''link_path_hash'', Some (JStr (tm_LinkPathHash m)))]"

definition TraceMetrics_dec :: "json \<Rightarrow> TraceMetrics option" where
  "TraceMetrics_dec = d_struct (\<lambda>ob.
     case (d_field d_string [] ''asn_path_hash'' ob, d_field d_string [] ''link_path_hash'' ob) of
       (Some a, Some l) \<Rightarrow> Some \<lparr>tm_AsnPathHash = a, tm_LinkPathHash = l\<rparr>
     | _ \<Rightarrow> None)"

lemmas codec_eval = decode_simps d_int_j_int d_float_Fin fold_eq_def lower_char_def j_time_def

interpretation PingMetrics_codec: json_codec PingMetrics_enc PingMetrics_dec PingMetrics_ok
  by unfold_locales
    (auto simp: PingMetrics_enc_def PingMetrics_dec_def PingMetrics_ok_def codec_eval)

interpretation StampMetrics_codec: json_codec StampMetrics_enc StampMetrics_dec StampMetrics_ok
  by unfold_locales
    (auto simp: StampMetrics_enc_def StampMetrics_dec_def StampMetrics_ok_def codec_eval)

interpretation TraceMetrics_codec: json_codec TraceMetrics_enc TraceMetrics_dec "\<lambda>_. True"
  by unfold_locales (auto simp: TraceMetrics_enc_def TraceMetrics_dec_def codec_eval)

interpretation MeasurementEvent_codec: json_codec MeasurementEvent_enc MeasurementEvent_dec MeasurementEvent_ok
  by unfold_locales
    (auto simp: MeasurementEvent_enc_def MeasurementEvent_dec_def MeasurementEvent_ok_def d_rawfield_def
      j_raw_def codec_eval split: if_splits)

end
