(* ===== verification/Argus_Detectors.thy ===== *)
theory Argus_Detectors
  imports Go_Json
begin

text \<open>
  The detectors of Argus (\<^verbatim>\<open>services/argus/ewma.go\<close>, \<^verbatim>\<open>betab.go\<close> and
  \<^verbatim>\<open>types/detector.go\<close>): an exponentially weighted mean and variance, and a
  beta-binomial model of packet loss. Each detector unwraps its baseline state from
  JSON, folds one sample into it, and reports a finding when the sample is anomalous
  for the baseline before the fold. \<open>detector_contract\<close> is what the worker relies on.
\<close>

section \<open>Findings and samples (types/detector.go)\<close>

definition DetectorTypeEwma :: string where "DetectorTypeEwma = ''EWMA''"
definition DetectorTypeFreq :: string where "DetectorTypeFreq = ''FREQ''"
definition DetectorTypeBetaB :: string where "DetectorTypeBetaB = ''BETA''"
definition DetectorTypeMdmt :: string where "DetectorTypeMdmt = ''MDMT''"

lemmas detector_type_defs =
  DetectorTypeEwma_def DetectorTypeFreq_def DetectorTypeBetaB_def DetectorTypeMdmt_def

record EwmaFindingDetails =
  ed_Z :: float64
  ed_Stddev :: float64
  ed_Variance :: float64
  ed_N :: int

record BetaBinomialFindingDetails =
  bd_Tail :: float64
  bd_Lost :: int
  bd_Sent :: int
  bd_Rate :: float64
  bd_PostAlpha :: float64
  bd_PostBeta :: float64

datatype FindingDetails =
    NoDetails
  | EwmaDetails EwmaFindingDetails
  | BetaDetails BetaBinomialFindingDetails

record Finding =
  fTS :: time
  fValue :: float64
  fSeverity :: float64
  fDetails :: FindingDetails

text \<open>The details are stored as JSON: Go field names, and \<open>null\<close> for a nil interface.\<close>

fun details_json :: "FindingDetails \<Rightarrow> json option" where
  "details_json NoDetails = Some JNull"
| "details_json (EwmaDetails d) = j_object
     [(''Z'', j_float (ed_Z d)), (''Stddev'', j_float (ed_Stddev d)),
      (''Variance'', j_float (ed_Variance d)), (''N'', Some (j_int (ed_N d)))]"
| "details_json (BetaDetails d) = j_object
     [(''Tail'', j_float (bd_Tail d)), (''Lost'', Some (j_int (bd_Lost d))),
      (''Sent'', Some (j_int (bd_Sent d))), (''Rate'', j_float (bd_Rate d)),
      (''PostAlpha'', j_float (bd_PostAlpha d)), (''PostBeta'', j_float (bd_PostBeta d))]"

text \<open>The sample values an extractor can hand to a detector.\<close>

record LossSample =
  ls_Sent :: int
  ls_Received :: int

datatype sample = SFloat float64 | SLoss LossSample | SString string

datatype det_error = WrongType | BadState | BadMarshal

section \<open>EWMA (ewma.go)\<close>

record EwmaConfig =
  ec_Alpha :: float64
  ec_Threshold :: float64
  ec_Warmup :: int
  ec_Epsilon :: float64
  ec_SeverityAlpha :: float64

record EwmaState =
  es_Mean :: float64
  es_Variance :: float64
  es_N :: int
  es_LastSeen :: time

definition ewma_zero :: EwmaState where
  "ewma_zero = \<lparr>es_Mean = Fin 0, es_Variance = Fin 0, es_N = 0, es_LastSeen = time_zero\<rparr>"

definition ewma_enc :: "EwmaState \<Rightarrow> json option" where
  "ewma_enc st = j_object
     [(''mean'', j_float (es_Mean st)), (''variance'', j_float (es_Variance st)),
      (''n'', Some (j_int (es_N st))), (''last_seen'', j_time (es_LastSeen st))]"

definition ewma_dec :: "json \<Rightarrow> EwmaState option" where
  "ewma_dec = d_struct (\<lambda>ob.
     case (d_field d_float (Fin 0) ''mean'' ob, d_field d_float (Fin 0) ''variance'' ob,
           d_field (d_int 64) 0 ''n'' ob, d_field d_time time_zero ''last_seen'' ob) of
       (Some m, Some v, Some n, Some t) \<Rightarrow>
         Some \<lparr>es_Mean = m, es_Variance = v, es_N = n, es_LastSeen = t\<rparr>
     | _ \<Rightarrow> None)"

definition ewma_step :: "EwmaConfig \<Rightarrow> EwmaState \<Rightarrow> time \<Rightarrow> float64 \<Rightarrow> EwmaState \<times> Finding option" where
  "ewma_step cfg st ts v =
     (if es_N st = 0 then
        (\<lparr>es_Mean = v, es_Variance = Fin 0, es_N = 1, es_LastSeen = ts\<rparr>, None)
      else
        let stddev = f_sqrt (f_add (es_Variance st) (ec_Epsilon cfg));
            z = f_div (f_sub v (es_Mean st)) stddev;
            fires = ec_Warmup cfg \<le> es_N st \<and> f_le (ec_Threshold cfg) (f_abs z);
            delta = f_sub v (es_Mean st);
            mean = f_add (es_Mean st) (f_mul (ec_Alpha cfg) delta);
            variance = f_mul (f_sub (Fin 1) (ec_Alpha cfg))
              (f_add (es_Variance st) (f_mul (f_mul (ec_Alpha cfg) delta) delta));
            n = int64 (es_N st + 1)
        in (\<lparr>es_Mean = mean, es_Variance = variance, es_N = n, es_LastSeen = ts\<rparr>,
            if fires then Some \<lparr>fTS = ts, fValue = v, fSeverity = f_min (Fin 12) (f_abs z),
              fDetails = EwmaDetails \<lparr>ed_Z = z, ed_Stddev = stddev, ed_Variance = variance, ed_N = n\<rparr>\<rparr>
            else None))"

text \<open>\<open>None\<close> is the empty state of a monitor that has no baseline yet.\<close>

definition ewma_Step ::
  "EwmaConfig \<Rightarrow> json option \<Rightarrow> time \<Rightarrow> sample \<Rightarrow> (det_error, json \<times> Finding option) outcome" where
  "ewma_Step cfg state ts val =
     (case val of
        SFloat v \<Rightarrow>
          (case (case state of None \<Rightarrow> Some ewma_zero | Some j \<Rightarrow> ewma_dec j) of
             None \<Rightarrow> Err BadState
           | Some st \<Rightarrow>
               (let (st', finding) = ewma_step cfg st ts v
                in case ewma_enc st' of None \<Rightarrow> Err BadMarshal | Some j \<Rightarrow> Ret (j, finding)))
      | _ \<Rightarrow> Err WrongType)"

definition ewma_ok :: "EwmaState \<Rightarrow> bool" where
  "ewma_ok st \<longleftrightarrow> is_fin (es_Mean st) \<and> wf64 (es_Mean st) \<and> is_fin (es_Variance st)
     \<and> wf64 (es_Variance st) \<and> in_s 64 (es_N st) \<and> json_time_ok (es_LastSeen st)"

lemma is_fin_D: "is_fin x \<Longrightarrow> \<exists>r. x = Fin r"
  by (cases x) auto

interpretation ewma_codec: json_codec ewma_enc ewma_dec ewma_ok
proof unfold_locales
  fix st j
  assume ok: "ewma_ok st" and "ewma_enc st = Some j"
  obtain m v where mv: "es_Mean st = Fin m" "es_Variance st = Fin v"
    using ok is_fin_D unfolding ewma_ok_def by blast
  with ok have j: "ewma_enc st = Some (JObj [(''mean'', JNum m), (''variance'', JNum v),
      (''n'', j_int (es_N st)), (''last_seen'', JTime (es_LastSeen st))])"
    by (simp add: ewma_enc_def j_object_def ewma_ok_def j_time_def)
  with \<open>ewma_enc st = Some j\<close> ok mv show "ewma_dec j = Some st"
    by (auto simp: ewma_dec_def decode_simps ewma_ok_def d_int_j_int d_float_Fin fold_eq_def
        lower_char_def)
next
  fix st
  assume "ewma_ok st"
  then show "ewma_enc st \<noteq> None"
    by (auto simp: ewma_ok_def ewma_enc_def j_object_def j_time_def dest!: is_fin_D)
qed

subsection \<open>The state stays usable\<close>

definition ewma_cfg_ok :: "EwmaConfig \<Rightarrow> bool" where
  "ewma_cfg_ok cfg \<longleftrightarrow> (\<exists>a. ec_Alpha cfg = Fin a \<and> 0 \<le> a \<and> a \<le> 1)"

definition ewma_inv :: "json option \<Rightarrow> bool" where
  "ewma_inv s \<longleftrightarrow> (case s of None \<Rightarrow> True
     | Some j \<Rightarrow> (\<exists>st. ewma_dec j = Some st \<and> ewma_ok st \<and> f_le (Fin 0) (es_Variance st)))"

definition ewma_load :: "json option \<Rightarrow> EwmaState option" where
  "ewma_load s = (case s of None \<Rightarrow> Some ewma_zero | Some j \<Rightarrow> ewma_dec j)"

lemma ewma_Step_Ret:
  "ewma_Step cfg s ts val = Ret (j, f) \<longleftrightarrow>
   (\<exists>v st st'. val = SFloat v \<and> ewma_load s = Some st \<and> ewma_step cfg st ts v = (st', f)
      \<and> ewma_enc st' = Some j)"
  by (auto simp: ewma_Step_def ewma_load_def split: sample.splits option.splits prod.splits)

lemma ewma_enc_fin:
  "ewma_enc st = Some j \<Longrightarrow> is_fin (es_Mean st) \<and> is_fin (es_Variance st) \<and> json_time_ok (es_LastSeen st)"
  by (cases "es_Mean st"; cases "es_Variance st")
     (auto simp: ewma_enc_def j_object_def j_time_def split: if_splits)

lemma ewma_variance_nonneg:
  assumes "ewma_cfg_ok cfg" "nonneg_or_nan (es_Variance st)"
  shows "nonneg_or_nan (es_Variance (fst (ewma_step cfg st ts v)))"
proof -
  obtain a where a: "ec_Alpha cfg = Fin a" "0 \<le> a" "a \<le> 1"
    using assms(1) by (auto simp: ewma_cfg_ok_def)
  then have "nonneg_or_nan (f_sub (Fin 1) (ec_Alpha cfg))" "nonneg_or_nan (ec_Alpha cfg)"
    by (simp_all add: nonneg_or_nan_def f_sub_def fl_nonneg)
  then show ?thesis
    using assms(2)
    by (auto simp: ewma_step_def Let_def nonneg_or_nan_mul nonneg_or_nan_add nonneg_or_nan_square)
       (simp add: nonneg_or_nan_def)
qed

lemma ewma_step_wf:
  assumes "wf64 v"
  shows "wf64 (es_Mean (fst (ewma_step cfg st ts v)))" "wf64 (es_Variance (fst (ewma_step cfg st ts v)))"
    "in_s 64 (es_N (fst (ewma_step cfg st ts v)))"
  using assms by (auto simp: ewma_step_def Let_def in_s_def [of 64 1])

lemma ewma_load_inv:
  assumes "ewma_inv s"
  obtains st where "ewma_load s = Some st" "nonneg_or_nan (es_Variance st)"
  using assms that
  by (cases s) (auto simp: ewma_inv_def ewma_load_def ewma_zero_def nonneg_or_nan_def)

lemma ewma_inv_step:
  assumes "ewma_cfg_ok cfg" "ewma_inv s" "\<forall>v. val = SFloat v \<longrightarrow> wf64 v"
    and "ewma_Step cfg s ts val = Ret (j, f)"
  shows "ewma_inv (Some j)"
proof -
  obtain v' st st' where st: "val = SFloat v'" "ewma_load s = Some st"
    "ewma_step cfg st ts v' = (st', f)" "ewma_enc st' = Some j"
    using assms(4) by (auto simp: ewma_Step_Ret)
  obtain st0 where "ewma_load s = Some st0" "nonneg_or_nan (es_Variance st0)"
    using ewma_load_inv [OF assms(2)] by blast
  with st have "nonneg_or_nan (es_Variance st')"
    using ewma_variance_nonneg [OF assms(1), of st ts v'] by simp
  moreover note fin = ewma_enc_fin [OF st(4)]
  ultimately have var: "f_le (Fin 0) (es_Variance st')" by (auto simp: nonneg_or_nan_def)
  have "wf64 v'" using assms(3) st(1) by blast
  then have "ewma_ok st'" using ewma_step_wf [of v' cfg st ts] st(3) fin
    by (simp add: ewma_ok_def)
  with var show ?thesis using ewma_codec.dec_enc [OF _ st(4)] by (auto simp: ewma_inv_def)
qed

subsection \<open>What the mean and the findings satisfy\<close>

lemma ewma_mean_between:
  assumes "0 \<le> a" "a \<le> 1 / 4" "wf64 (Fin m)" "wf64 (Fin x)" "fl (x - m) = Fin d"
  shows "\<exists>m'. f_add (Fin m) (f_mul (Fin a) (Fin d)) = Fin m' \<and> min m x \<le> m' \<and> m' \<le> max m x"
proof -
  have d: "d = rnd (x - m)" "\<bar>d\<bar> < two1024" "rnd d = d"
    using fl_eq_Fin [OF assms(5)] wf64_fl [of "x - m"] assms(5) by auto
  define e where "e = rnd (a * d)"
  have "\<bar>a * d\<bar> \<le> \<bar>d\<bar>" using assms(1,2) mult_left_le_one_le [of "\<bar>d\<bar>" a] by (simp add: abs_mult)
  then have "\<bar>e\<bar> \<le> \<bar>d\<bar>" unfolding e_def using d(3) by (intro rnd_abs_le) (auto simp: abs_if)
  with d(2) have e: "f_mul (Fin a) (Fin d) = Fin e" by (simp add: e_def fl_Fin)
  have le: "min m x \<le> m + e \<and> m + e \<le> max m x"
  proof (cases "m \<le> x")
    case True
    then have "0 \<le> d" "d \<le> 2 * (x - m)"
      using rnd_nonneg [of "x - m"] rnd_le_twice [of "x - m"] by (auto simp: d(1))
    moreover have "a * d \<le> 1 / 4 * d" using assms(2) \<open>0 \<le> d\<close> by (rule mult_right_mono)
    ultimately have "0 \<le> a * d" "a * d \<le> (x - m) / 2" using assms(1) by auto
    then have "0 \<le> e" "e \<le> x - m"
      using rnd_nonneg [of "a * d"] rnd_le_twice [of "a * d"] by (auto simp: e_def)
    with True show ?thesis by simp
  next
    case False
    then have "d \<le> 0" "- d \<le> 2 * (m - x)"
      using rnd_nonpos [of "x - m"] rnd_le_twice [of "m - x"] rnd_minus [of "x - m"] by (auto simp: d(1))
    moreover have "a * (- d) \<le> 1 / 4 * (- d)" using assms(2) \<open>d \<le> 0\<close> by (intro mult_right_mono) auto
    ultimately have "a * d \<le> 0" "- (a * d) \<le> (m - x) / 2"
      using assms(1) by (auto simp: mult_nonneg_nonpos)
    then have "e \<le> 0" "- e \<le> m - x"
      using rnd_nonpos [of "a * d"] rnd_le_twice [of "- (a * d)"] by (auto simp: e_def)
    with False show ?thesis by simp
  qed
  have mx: "rnd (min m x) = min m x" "rnd (max m x) = max m x"
    "\<bar>min m x\<bar> < two1024" "\<bar>max m x\<bar> < two1024"
    using assms(3,4) by (auto simp: min_def max_def)
  then have "min m x \<le> rnd (m + e)" "rnd (m + e) \<le> max m x"
    using le rnd_mono [of "min m x" "m + e"] rnd_mono [of "m + e" "max m x"] by auto
  moreover from this mx have "\<bar>rnd (m + e)\<bar> < two1024" by linarith
  ultimately show ?thesis using e fl_Fin by auto
qed

text \<open>The configuration \<^verbatim>\<open>Argus.Start\<close> passes; 2.2 is a \<^verbatim>\<open>float32\<close> constant there.\<close>

definition argus_ewma_cfg :: EwmaConfig where
  "argus_ewma_cfg = \<lparr>ec_Alpha = fl (1 / 1000), ec_Threshold = Fin 4, ec_Warmup = 40,
     ec_Epsilon = Fin 100000000, ec_SeverityAlpha = Fin (9227469 / 4194304)\<rparr>"

lemma argus_alpha:
  obtains a where "fl (1 / 1000) = Fin a" "0 \<le> a" "a \<le> 1 / 4"
proof -
  have "representable (1 / 4)"
    unfolding representable_def by (rule exI [of _ 1], rule exI [of _ "-2"]) (simp add: power_int_def power_divide)
  then have "rnd (1 / 1000) \<le> 1 / 4"
    using rnd_mono [of "1 / 1000" "1 / 4"] rnd_representable_id [of "1 / 4"] by simp
  moreover have "fl (1 / 1000) = Fin (rnd (1 / 1000))" by (rule fl_fin) (simp add: order_trans [of _ 1])
  ultimately show thesis using that rnd_nonneg [of "1 / 1000"] by simp
qed

lemma argus_ewma_cfg_ok: "ewma_cfg_ok argus_ewma_cfg"
  by (rule argus_alpha) (auto simp: ewma_cfg_ok_def argus_ewma_cfg_def)

definition ewma_series :: "EwmaConfig \<Rightarrow> (time \<times> float64) list \<Rightarrow> EwmaState \<Rightarrow> EwmaState" where
  "ewma_series cfg samples st = fold (\<lambda>(ts, v) st. fst (ewma_step cfg st ts v)) samples st"

definition in_hull :: "real \<Rightarrow> real \<Rightarrow> float64 \<Rightarrow> bool" where
  "in_hull lo hi v \<longleftrightarrow> (\<exists>x. v = Fin x \<and> wf64 v \<and> lo \<le> x \<and> x \<le> hi)"

lemma ewma_step_hull:
  assumes "ec_Alpha cfg = Fin a" "0 \<le> a" "a \<le> 1 / 4" "hi - lo \<le> 2 ^ 1000"
    and v: "in_hull lo hi v" and st: "es_N st = 0 \<or> in_hull lo hi (es_Mean st)"
  shows "in_hull lo hi (es_Mean (fst (ewma_step cfg st ts v)))"
proof (cases "es_N st = 0")
  case True
  then show ?thesis using v by (simp add: ewma_step_def)
next
  case False
  with st obtain m where m: "es_Mean st = Fin m" "wf64 (Fin m)" "lo \<le> m" "m \<le> hi"
    by (auto simp: in_hull_def)
  obtain x where x: "v = Fin x" "wf64 (Fin x)" "lo \<le> x" "x \<le> hi" using v by (auto simp: in_hull_def)
  have "\<bar>x - m\<bar> \<le> 2 ^ 1000" using m x assms(4) by linarith
  then have d: "fl (x - m) = Fin (rnd (x - m))" by (rule fl_fin)
  then obtain m' where "f_add (Fin m) (f_mul (Fin a) (f_sub v (Fin m))) = Fin m'"
    "min m x \<le> m'" "m' \<le> max m x"
    using ewma_mean_between [OF assms(2,3) m(2) x(2) d] x(1) by (auto simp: f_sub_def)
  moreover from this have "wf64 (Fin m')" by (metis wf64_add)
  ultimately show ?thesis
    using False m x assms(1)
    by (auto simp del: f_add.simps f_mul.simps wf64.simps simp: ewma_step_def Let_def in_hull_def min_le_iff_disj le_max_iff_disj
        intro: order_trans)
qed

text \<open>
  Property C13. The running mean never leaves the range of the samples it has seen: rounding
  included, whatever the timestamps, the mean after a nonempty series lies between any lower
  and any upper bound of the samples, as long as their range does not overflow.
\<close>

theorem ewma_mean_in_sample_range:
  assumes "ec_Alpha cfg = Fin a" "0 \<le> a" "a \<le> 1 / 4" "hi - lo \<le> 2 ^ 1000"
    and "samples \<noteq> []" "\<forall>(ts, v) \<in> set samples. in_hull lo hi v"
  shows "in_hull lo hi (es_Mean (ewma_series cfg samples ewma_zero))"
proof -
  have "in_hull lo hi (es_Mean (ewma_series cfg ss st))"
    if "es_N st = 0 \<and> ss \<noteq> [] \<or> in_hull lo hi (es_Mean st)" "\<forall>(ts, v) \<in> set ss. in_hull lo hi v" for ss st
    using that
  proof (induction ss arbitrary: st)
    case (Cons s ss)
    obtain ts v where s: "s = (ts, v)" by fastforce
    with Cons.prems have "in_hull lo hi (es_Mean (fst (ewma_step cfg st ts v)))"
      using ewma_step_hull [OF assms(1-4)] by fastforce
    with Cons s show ?case by (simp add: ewma_series_def)
  qed (simp add: ewma_series_def)
  then show ?thesis using assms(5,6) by (simp add: ewma_zero_def)
qed

theorem ewma_mean_in_sample_range_witness:
  "in_hull 10 50 (es_Mean (ewma_series argus_ewma_cfg [(1, Fin 10), (2, Fin 50), (3, Fin 20)] ewma_zero))"
proof (rule argus_alpha)
  fix a assume a: "fl (1 / 1000) = Fin a" "0 \<le> a" "a \<le> 1 / 4"
  have "(40::real) \<le> 2 ^ 1000" using power_increasing [of 6 1000 "2::real"] by simp
  then show ?thesis
    using a by (intro ewma_mean_in_sample_range [of _ a])
      (auto simp: argus_ewma_cfg_def in_hull_def rnd_numeral)
qed

text \<open>
  The noise floor of the deployed detector: with the epsilon of
  \<open>argus_ewma_cfg\<close> (the standard deviation never counts as less than 10000), a sample that
  deviates from the mean by at most 39999 raises no finding, whatever the history.
\<close>

lemma ewma_noise_floor:
  assumes "es_Mean st = Fin m" "f_le (Fin 0) (es_Variance st)" "\<bar>x - m\<bar> \<le> 39999"
  shows "snd (ewma_step argus_ewma_cfg st ts (Fin x)) = None"
proof -
  define d where "d = rnd (x - m)"
  have "\<bar>x - m\<bar> \<le> 2 ^ 1000" using assms(3) power_increasing [of 20 1000 "2::real"] by simp
  then have fd: "fl (x - m) = Fin d" by (simp add: fl_fin d_def)
  have d: "\<bar>d\<bar> \<le> 39999" unfolding d_def using assms(3) by (rule rnd_abs_le) (simp add: rnd_numeral)
  define s where "s = f_sqrt (f_add (es_Variance st) (Fin 100000000))"
  have "nonneg_or_nan (f_add (es_Variance st) (Fin 100000000))"
    using assms(2) by (intro nonneg_or_nan_add) (simp_all add: nonneg_or_nan_def)
  moreover have "es_Variance st \<noteq> NaN" using assms(2) by auto
  ultimately have nonneg: "f_le (Fin 0) (f_add (es_Variance st) (Fin 100000000))"
    by (simp add: nonneg_or_nan_def)
  have "f_le (Fin 10000) s"
  proof (cases "f_add (es_Variance st) (Fin 100000000)")
    case (Fin w)
    then obtain u where u: "es_Variance st = Fin u" "0 \<le> u" "fl (u + 100000000) = Fin w"
      using assms(2) by (cases "es_Variance st") auto
    then have "f_le (fl 100000000) (Fin w)" using fl_mono [of 100000000 "u + 100000000"] by simp
    then have w: "100000000 \<le> w" by (simp add: fl_numeral)
    then have "10000 \<le> sqrt w" using real_le_rsqrt [of 10000 w] by simp
    then have "f_le (fl 10000) (fl (sqrt w))" by (rule fl_mono)
    with Fin w show ?thesis by (simp add: s_def fl_numeral)
  next
    case PInf
    then show ?thesis by (simp add: s_def)
  next
    case NInf
    then show ?thesis using nonneg by simp
  next
    case NaN
    then show ?thesis using nonneg by simp
  qed
  then have "\<not> f_le (Fin 4) (f_abs (f_div (Fin d) s))"
  proof (cases s)
    case (Fin t)
    with \<open>f_le (Fin 10000) s\<close> have t: "10000 \<le> t" by simp
    have r: "representable (39999 / 10000 + (4 - 1 / 16384 - 39999 / 10000))"
      unfolding representable_def
      by (rule exI [of _ 65535], rule exI [of _ "-14"]) (simp add: power_int_def power_divide)
    have "\<bar>d / t\<bar> \<le> 39999 / 10000"
      unfolding abs_divide using d t by (intro frac_le) auto
    then have "\<bar>d / t\<bar> \<le> 4 - 1 / 16384" by simp
    then have "\<bar>rnd (d / t)\<bar> \<le> 4 - 1 / 16384"
      using rnd_representable_id [OF r] by (intro rnd_abs_le) simp_all
    moreover have "(4::real) \<le> 2 ^ 1000" using power_increasing [of 2 1000 "2::real"] by simp
    then have "\<bar>d / t\<bar> \<le> 2 ^ 1000" using \<open>\<bar>d / t\<bar> \<le> 4 - 1 / 16384\<close> by linarith
    ultimately show ?thesis using Fin t fl_fin [of "d / t"] by simp
  qed auto
  then show ?thesis
    using assms(1) fd by (auto simp: ewma_step_def Let_def argus_ewma_cfg_def f_sub_def s_def)
qed

section \<open>The contract with the worker\<close>

fun sample_wf :: "sample \<Rightarrow> bool" where
  "sample_wf (SFloat v) \<longleftrightarrow> wf64 v"
| "sample_wf _ \<longleftrightarrow> True"

locale detector_contract =
  fixes Step :: "json option \<Rightarrow> time \<Rightarrow> sample \<Rightarrow> (det_error, json \<times> Finding option) outcome"
    and accepts :: "sample \<Rightarrow> bool"
    and inv :: "json option \<Rightarrow> bool"
  assumes inv_empty: "inv None"
    and inv_step: "inv s \<Longrightarrow> sample_wf v \<Longrightarrow> Step s ts v = Ret (s', fo) \<Longrightarrow> inv (Some s')"
    and readable: "inv s \<Longrightarrow> Step s ts v \<noteq> Err BadState"
    and typed: "Step s ts v = Err WrongType \<longleftrightarrow> \<not> accepts v"
    and no_panic: "Step s ts v \<noteq> Panic"
    and stamped: "Step s ts v = Ret (s', Some f) \<Longrightarrow> fTS f = ts"
begin

text \<open>A worker feeds samples one after the other and skips those the detector rejects.\<close>

definition run :: "(time \<times> sample) list \<Rightarrow> json option \<Rightarrow> json option" where
  "run samples s = fold (\<lambda>(ts, v) s. case Step s ts v of Ret (s', f) \<Rightarrow> Some s' | _ \<Rightarrow> s) samples s"

lemma run_inv:
  "inv s \<Longrightarrow> \<forall>(ts, v) \<in> set samples. sample_wf v \<Longrightarrow> inv (run samples s)"
proof (induction samples arbitrary: s)
  case (Cons p samples)
  obtain ts v where p: "p = (ts, v)" by fastforce
  have "inv (case Step s ts v of Ret (s', f) \<Rightarrow> Some s' | _ \<Rightarrow> s)"
    using Cons.prems p inv_step by (auto split: outcome.splits)
  then show ?case using Cons p by (simp add: run_def)
qed (simp add: run_def)

lemma run_readable:
  "\<forall>(ts, v) \<in> set samples. sample_wf v \<Longrightarrow> accepts v \<Longrightarrow>
   (\<exists>r. Step (run samples None) ts v = Ret r) \<or> Step (run samples None) ts v = Err BadMarshal"
  using run_inv [OF inv_empty] readable typed no_panic
  by (cases "Step (run samples None) ts v") (auto, metis det_error.exhaust)

end

definition is_float_sample :: "sample \<Rightarrow> bool" where
  "is_float_sample v \<longleftrightarrow> (\<exists>x. v = SFloat x)"

lemma ewma_Step_simps:
  "ewma_Step cfg s ts (SFloat v) =
     (case ewma_load s of None \<Rightarrow> Err BadState
      | Some st \<Rightarrow> (case ewma_enc (fst (ewma_step cfg st ts v)) of None \<Rightarrow> Err BadMarshal
          | Some j \<Rightarrow> Ret (j, snd (ewma_step cfg st ts v))))"
  "ewma_Step cfg s ts (SLoss l) = Err WrongType" "ewma_Step cfg s ts (SString x) = Err WrongType"
  by (auto simp: ewma_Step_def ewma_load_def split: option.splits prod.splits)

lemma ewma_finding_stamp: "snd (ewma_step cfg st ts v) = Some f \<Longrightarrow> fTS f = ts \<and> fValue f = v"
  by (auto simp: ewma_step_def Let_def split: if_splits)

interpretation argus_ewma: detector_contract "ewma_Step argus_ewma_cfg" is_float_sample ewma_inv
proof unfold_locales
  show "ewma_inv None" by (simp add: ewma_inv_def)
  show "ewma_inv (Some s')" if "ewma_inv s" "sample_wf v" "ewma_Step argus_ewma_cfg s ts v = Ret (s', f)"
    for s v ts s' f
    by (rule ewma_inv_step [OF argus_ewma_cfg_ok that(1) _ that(3)]) (use that(2) in auto)
  show "ewma_Step argus_ewma_cfg s ts v \<noteq> Err BadState" if inv: "ewma_inv s" for s ts v
    by (rule ewma_load_inv [OF inv]; cases v) (auto simp: ewma_Step_simps split: option.splits)
  show "ewma_Step argus_ewma_cfg s ts v = Err WrongType \<longleftrightarrow> \<not> is_float_sample v" for s ts v
    by (cases v) (auto simp: ewma_Step_simps is_float_sample_def split: option.splits)
  show "ewma_Step argus_ewma_cfg s ts v \<noteq> Panic" for s ts v
    by (cases v) (auto simp: ewma_Step_simps split: option.splits)
  show "fTS f = ts" if "ewma_Step argus_ewma_cfg s ts v = Ret (s', Some f)" for s ts v s' f
    using that ewma_finding_stamp by (cases v) (auto simp: ewma_Step_simps split: option.splits)
qed

text \<open>
  Property C14. The deployed EWMA detector never loses its baseline: after any series of
  well-formed samples, timestamps and values arbitrary, the stored state still decodes, has
  a finite mean and a finite nonnegative variance, and the next value is either folded or
  refused because its result does not fit JSON; the detector never panics.
\<close>

theorem ewma_baseline_survives:
  assumes "\<forall>(ts, v) \<in> set samples. sample_wf v"
  shows "ewma_inv (argus_ewma.run samples None)
    \<and> ((\<exists>r. ewma_Step argus_ewma_cfg (argus_ewma.run samples None) ts (SFloat x) = Ret r)
       \<or> ewma_Step argus_ewma_cfg (argus_ewma.run samples None) ts (SFloat x) = Err BadMarshal)"
  using argus_ewma.run_inv [OF argus_ewma.inv_empty assms]
    argus_ewma.run_readable [OF assms, of "SFloat x" ts] by (simp add: is_float_sample_def)

theorem ewma_baseline_survives_witness:
  "ewma_inv (argus_ewma.run [(5, SFloat (Fin 3)), (6, SString ''x''), (7, SFloat PInf)] None)"
  using ewma_baseline_survives [of "[(5, SFloat (Fin 3)), (6, SString ''x''), (7, SFloat PInf)]"]
  by (simp add: rnd_numeral)

text \<open>
  Every EWMA finding is about the sample that raised it and its severity is a
  number between the threshold and the cap of 12; none is raised during the warm-up.
\<close>

lemma ewma_finding_bounds:
  assumes "snd (ewma_step cfg st ts v) = Some f"
  shows "fTS f = ts \<and> fValue f = v \<and> ec_Warmup cfg \<le> es_N st \<and> es_N st \<noteq> 0
    \<and> f_le (f_min (Fin 12) (ec_Threshold cfg)) (fSeverity f) \<and> f_le (fSeverity f) (Fin 12)"
proof -
  have f: "fTS f = ts" "fValue f = v" using ewma_finding_stamp [OF assms] by auto
  obtain z where z: "ec_Warmup cfg \<le> es_N st" "es_N st \<noteq> 0" "f_le (ec_Threshold cfg) (f_abs z)"
    "fSeverity f = f_min (Fin 12) (f_abs z)"
    using assms by (auto simp: ewma_step_def Let_def split: if_splits)
  then have "f_abs z \<noteq> NaN" "ec_Threshold cfg \<noteq> NaN" by auto
  then have "f_le (f_min (Fin 12) (ec_Threshold cfg)) (fSeverity f)" "f_le (fSeverity f) (Fin 12)"
    using z(3,4) f_min_le [of "Fin 12" "f_abs z"] f_min_le [of "Fin 12" "ec_Threshold cfg"]
    by (auto intro!: f_min_ge intro: f_le_trans)
  with f z show ?thesis by simp
qed

end
