(* ===== verification/Argus_Betab.thy ===== *)
theory Argus_Betab
  imports Argus_Detectors
begin

text \<open>
  The beta-binomial loss detector (\<^verbatim>\<open>services/argus/betab.go\<close>). The transcendental
  functions of package \<^verbatim>\<open>math\<close> are the fields of \<open>math_lib\<close>, since their rounding is
  not specified; the theorems name what they assume of them. The loop counter of
  \<open>betaBinomialUpperTail\<close> is taken not to overflow, which needs \<open>Sent\<close> below
  \<open>2 ^ 63 - 1\<close>.
\<close>

record math_lib =
  m_Lgamma :: "float64 \<Rightarrow> float64"
  m_Exp :: "float64 \<Rightarrow> float64"
  m_Log10 :: "float64 \<Rightarrow> float64"

definition priorAlpha :: float64 where "priorAlpha = Fin (1 / 2)"
definition priorBeta :: float64 where "priorBeta = Fin (1 / 2)"

record BetaBinomialState =
  bs_Lost :: int
  bs_Received :: int
  bs_N :: int
  bs_LastSeen :: time

record BetaBinomialConfig =
  bc_Threshold :: float64
  bc_Warmup :: int

definition logBeta :: "math_lib \<Rightarrow> float64 \<Rightarrow> float64 \<Rightarrow> float64" where
  "logBeta M a b =
     (let la = m_Lgamma M a; lb = m_Lgamma M b; lab = m_Lgamma M (f_add a b)
      in f_sub (f_add la lb) lab)"

definition logChoose :: "math_lib \<Rightarrow> int \<Rightarrow> int \<Rightarrow> float64" where
  "logChoose M n k =
     (let ln1 = m_Lgamma M (f_of_int (int64 (n + 1)));
          lk1 = m_Lgamma M (f_of_int (int64 (k + 1)));
          lnk1 = m_Lgamma M (f_add (f_of_int (int64 (n - k))) (Fin 1))
      in f_sub (f_sub ln1 lk1) lnk1)"

function tail_loop :: "math_lib \<Rightarrow> int \<Rightarrow> float64 \<Rightarrow> float64 \<Rightarrow> float64 \<Rightarrow> int \<Rightarrow> float64 \<Rightarrow> float64" where
  "tail_loop M n a bb logBetaAB i tail =
     (if i \<le> n then
        let fi = f_of_int i;
            logPmf = f_sub (f_add (logChoose M n i)
              (logBeta M (f_add fi a) (f_add (f_sub (f_of_int n) fi) bb))) logBetaAB
        in tail_loop M n a bb logBetaAB (i + 1) (f_add tail (m_Exp M logPmf))
      else tail)"
  by pat_completeness auto
termination
  by (relation "measure (\<lambda>(M, n, a, bb, l, i, tail). nat (n + 1 - i))") auto

declare tail_loop.simps [simp del]

definition betaBinomialUpperTail :: "math_lib \<Rightarrow> int \<Rightarrow> int \<Rightarrow> float64 \<Rightarrow> float64 \<Rightarrow> float64" where
  "betaBinomialUpperTail M k n a bb =
     (if k \<le> 0 then Fin 1 else if n < k then Fin 0
      else let tail = tail_loop M n a bb (logBeta M a bb) k (Fin 0)
           in if f_lt (Fin 1) tail then Fin 1 else tail)"

definition betab_step ::
  "math_lib \<Rightarrow> BetaBinomialConfig \<Rightarrow> BetaBinomialState \<Rightarrow> time \<Rightarrow> LossSample
   \<Rightarrow> BetaBinomialState \<times> Finding option" where
  "betab_step M cfg st ts s =
     (let lost0 = int64 (ls_Sent s - ls_Received s);
          lost = (if lost0 < 0 then 0 else lost0);
          postAlpha = f_add priorAlpha (f_of_int (bs_Lost st));
          postBeta = f_add priorBeta (f_of_int (bs_Received st));
          finding =
            (if 0 < ls_Sent s then
               let tail = betaBinomialUpperTail M lost (ls_Sent s) postAlpha postBeta;
                   totalSent = int64 (bs_Lost st + bs_Received st)
               in if bc_Warmup cfg \<le> totalSent \<and> 0 < lost \<and> f_le tail (bc_Threshold cfg) then
                    let sev = f_min (Fin 12) (f_neg (m_Log10 M (f_max tail (fl (1 / 10 ^ 12)))));
                        rate = f_div (f_of_int lost) (f_of_int (ls_Sent s))
                    in Some \<lparr>fTS = ts, fValue = rate, fSeverity = sev,
                        fDetails = BetaDetails \<lparr>bd_Tail = tail, bd_Lost = lost, bd_Sent = ls_Sent s,
                          bd_Rate = rate, bd_PostAlpha = postAlpha, bd_PostBeta = postBeta\<rparr>\<rparr>
                  else None
             else None)
      in (\<lparr>bs_Lost = int64 (bs_Lost st + lost), bs_Received = int64 (bs_Received st + ls_Received s),
           bs_N = int64 (bs_N st + 1), bs_LastSeen = ts\<rparr>, finding))"

definition betab_zero :: BetaBinomialState where
  "betab_zero = \<lparr>bs_Lost = 0, bs_Received = 0, bs_N = 0, bs_LastSeen = time_zero\<rparr>"

definition betab_enc :: "BetaBinomialState \<Rightarrow> json option" where
  "betab_enc st = j_object
     [(''lost'', Some (j_int (bs_Lost st))), (''received'', Some (j_int (bs_Received st))),
      (''n'', Some (j_int (bs_N st))), (''last_seen'', j_time (bs_LastSeen st))]"

definition betab_dec :: "json \<Rightarrow> BetaBinomialState option" where
  "betab_dec = d_struct (\<lambda>ob.
     case (d_field (d_int 64) 0 ''lost'' ob, d_field (d_int 64) 0 ''received'' ob,
           d_field (d_int 64) 0 ''n'' ob, d_field d_time time_zero ''last_seen'' ob) of
       (Some l, Some r, Some n, Some t) \<Rightarrow>
         Some \<lparr>bs_Lost = l, bs_Received = r, bs_N = n, bs_LastSeen = t\<rparr>
     | _ \<Rightarrow> None)"

definition betab_load :: "json option \<Rightarrow> BetaBinomialState option" where
  "betab_load s = (case s of None \<Rightarrow> Some betab_zero | Some j \<Rightarrow> betab_dec j)"

definition betab_Step ::
  "math_lib \<Rightarrow> BetaBinomialConfig \<Rightarrow> json option \<Rightarrow> time \<Rightarrow> sample
   \<Rightarrow> (det_error, json \<times> Finding option) outcome" where
  "betab_Step M cfg state ts val =
     (case val of
        SLoss v \<Rightarrow>
          (case betab_load state of
             None \<Rightarrow> Err BadState
           | Some st \<Rightarrow>
               (let (st', finding) = betab_step M cfg st ts v
                in case betab_enc st' of None \<Rightarrow> Err BadMarshal | Some j \<Rightarrow> Ret (j, finding)))
      | _ \<Rightarrow> Err WrongType)"

definition betab_ok :: "BetaBinomialState \<Rightarrow> bool" where
  "betab_ok st \<longleftrightarrow> in_s 64 (bs_Lost st) \<and> in_s 64 (bs_Received st) \<and> in_s 64 (bs_N st)
     \<and> json_time_ok (bs_LastSeen st)"

interpretation betab_codec: json_codec betab_enc betab_dec betab_ok
proof unfold_locales
  fix st j
  assume ok: "betab_ok st" and j: "betab_enc st = Some j"
  then have "j = JObj [(''lost'', j_int (bs_Lost st)), (''received'', j_int (bs_Received st)),
      (''n'', j_int (bs_N st)), (''last_seen'', JTime (bs_LastSeen st))]"
    by (simp add: betab_enc_def j_object_def betab_ok_def j_time_def)
  with ok show "betab_dec j = Some st"
    by (auto simp: betab_dec_def decode_simps betab_ok_def d_int_j_int fold_eq_def lower_char_def)
next
  fix st assume "betab_ok st"
  then show "betab_enc st \<noteq> None" by (auto simp: betab_ok_def betab_enc_def j_object_def j_time_def)
qed

text \<open>The configuration \<^verbatim>\<open>Argus.Start\<close> passes.\<close>

definition argus_betab_cfg :: BetaBinomialConfig where
  "argus_betab_cfg = \<lparr>bc_Threshold = fl (1 / 10000), bc_Warmup = 50\<rparr>"

section \<open>What the detector promises\<close>

definition betab_inv :: "json option \<Rightarrow> bool" where
  "betab_inv s \<longleftrightarrow> (case s of None \<Rightarrow> True | Some j \<Rightarrow> (\<exists>st. betab_dec j = Some st \<and> betab_ok st))"

definition is_loss_sample :: "sample \<Rightarrow> bool" where
  "is_loss_sample v \<longleftrightarrow> (\<exists>x. v = SLoss x)"

lemma betab_Step_simps:
  "betab_Step M cfg s ts (SLoss v) =
     (case betab_load s of None \<Rightarrow> Err BadState
      | Some st \<Rightarrow> (case betab_enc (fst (betab_step M cfg st ts v)) of None \<Rightarrow> Err BadMarshal
          | Some j \<Rightarrow> Ret (j, snd (betab_step M cfg st ts v))))"
  "betab_Step M cfg s ts (SFloat x) = Err WrongType" "betab_Step M cfg s ts (SString t) = Err WrongType"
  by (auto simp: betab_Step_def split: option.splits prod.splits)

lemma betab_step_state:
  "fst (betab_step M cfg st ts s) =
     \<lparr>bs_Lost = int64 (bs_Lost st + max 0 (int64 (ls_Sent s - ls_Received s))),
      bs_Received = int64 (bs_Received st + ls_Received s), bs_N = int64 (bs_N st + 1), bs_LastSeen = ts\<rparr>"
  by (simp add: betab_step_def Let_def max_def)

lemma betab_finding_stamp: "snd (betab_step M cfg st ts s) = Some f \<Longrightarrow> fTS f = ts"
  by (auto simp: betab_step_def Let_def split: if_splits)

lemma betab_enc_time: "betab_enc st = Some j \<Longrightarrow> json_time_ok (bs_LastSeen st)"
  by (auto simp: betab_enc_def j_object_def j_time_def split: if_splits)

interpretation betab: detector_contract "betab_Step M cfg" is_loss_sample betab_inv for M cfg
proof unfold_locales
  show "betab_inv None" by (simp add: betab_inv_def)
  show "betab_inv (Some s')" if step: "betab_Step M cfg s ts v = Ret (s', f)" for s v ts s' f
  proof -
    obtain st' where "betab_enc st' = Some s'" "betab_ok st'"
      using step betab_enc_time
      by (cases v) (auto simp: betab_Step_simps betab_step_state betab_ok_def split: option.splits)
    then show ?thesis using betab_codec.dec_enc by (auto simp: betab_inv_def)
  qed
  show "betab_Step M cfg s ts v \<noteq> Err BadState" if "betab_inv s" for s ts v
    using that by (cases v; cases s) (auto simp: betab_Step_simps betab_load_def betab_inv_def split: option.splits)
  show "betab_Step M cfg s ts v = Err WrongType \<longleftrightarrow> \<not> is_loss_sample v" for s ts v
    by (cases v) (auto simp: betab_Step_simps is_loss_sample_def split: option.splits)
  show "betab_Step M cfg s ts v \<noteq> Panic" for s ts v
    by (cases v) (auto simp: betab_Step_simps split: option.splits)
  show "fTS f = ts" if "betab_Step M cfg s ts v = Ret (s', Some f)" for s ts v s' f
    using that betab_finding_stamp by (cases v) (auto simp: betab_Step_simps split: option.splits)
qed

lemma tail_loop_nonneg:
  assumes "\<forall>x. nonneg_or_nan (m_Exp M x)"
  shows "nonneg_or_nan tail \<Longrightarrow> nonneg_or_nan (tail_loop M n a bb l i tail)"
  using assms
proof (induction M n a bb l i tail rule: tail_loop.induct)
  case (1 M n a bb l i tail)
  then show ?case
    by (subst tail_loop.simps) (simp add: Let_def nonneg_or_nan_add)
qed

lemma upper_tail_range:
  assumes "\<forall>x. nonneg_or_nan (m_Exp M x)"
  shows "betaBinomialUpperTail M k n a bb = NaN
    \<or> f_le (Fin 0) (betaBinomialUpperTail M k n a bb) \<and> f_le (betaBinomialUpperTail M k n a bb) (Fin 1)"
proof -
  have "nonneg_or_nan (tail_loop M n a bb (logBeta M a bb) k (Fin 0))"
    by (rule tail_loop_nonneg [OF assms]) (simp add: nonneg_or_nan_def)
  then show ?thesis
    by (cases "tail_loop M n a bb (logBeta M a bb) k (Fin 0)")
       (auto simp: betaBinomialUpperTail_def Let_def nonneg_or_nan_def)
qed

lemma f_of_int_Fin: "in_s 64 n \<Longrightarrow> f_of_int n = Fin (rnd (of_int n))"
proof -
  assume "in_s 64 n"
  then have "\<bar>n\<bar> \<le> 2 ^ 63" by (auto simp: in_s_def)
  then have "\<bar>of_int n :: real\<bar> \<le> 2 ^ 63" by (metis of_int_abs of_int_le_iff of_int_numeral of_int_power)
  also have "(2::real) ^ 63 \<le> 2 ^ 1000" by (rule power_increasing) simp_all
  finally show ?thesis by (simp add: f_of_int_def fl_fin)
qed

lemma int_ratio_range:
  assumes "0 < a" "a \<le> b" "in_s 64 b"
  shows "f_le (Fin 0) (f_div (f_of_int a) (f_of_int b)) \<and> f_le (f_div (f_of_int a) (f_of_int b)) (Fin 1)"
proof -
  have "in_s 64 a" using assms by (auto simp: in_s_def)
  then have fin: "f_of_int a = Fin (rnd (of_int a))" "f_of_int b = Fin (rnd (of_int b))"
    using assms f_of_int_Fin by auto
  have r: "1 \<le> rnd (of_int a)" "rnd (of_int a) \<le> rnd (of_int b)"
    using assms rnd_mono [of 1 "of_int a"] by (auto intro: rnd_mono)
  then have "f_le (fl 0) (fl (rnd (of_int a) / rnd (of_int b)))"
    "f_le (fl (rnd (of_int a) / rnd (of_int b))) (fl 1)"
    by (intro fl_mono; simp)+
  with fin r show ?thesis by simp
qed

text \<open>
  What the severity relies on: a decimal logarithm in the range the detector takes it is a
  number, and at most \<open>-3\<close> (the exact values are at most \<open>-4\<close>).
\<close>

definition log10_law :: "math_lib \<Rightarrow> bool" where
  "log10_law M \<longleftrightarrow> (\<forall>x. f_le (fl (1 / 10 ^ 12)) x \<and> f_le x (fl (1 / 10000)) \<longrightarrow>
     (\<exists>y. m_Log10 M x = Fin y \<and> y \<le> - 3))"

text \<open>
  Property C15. A loss finding means loss: it is raised only for a batch that lost packets,
  after the warm-up, at a tail probability in \<open>[0, 0.0001]\<close>; it reports a loss rate between
  0 and 1 and a severity between 3 and 12.
\<close>

theorem betab_finding_sound:
  assumes "\<forall>x. nonneg_or_nan (m_Exp M x)" "log10_law M"
    and "0 \<le> ls_Received s" "ls_Received s \<le> ls_Sent s" "in_s 64 (ls_Sent s)"
    and "snd (betab_step M argus_betab_cfg st ts s) = Some f"
  shows "ls_Received s < ls_Sent s \<and> 50 \<le> int64 (bs_Lost st + bs_Received st)
    \<and> (\<exists>d. fDetails f = BetaDetails d \<and> f_le (Fin 0) (bd_Tail d) \<and> f_le (bd_Tail d) (fl (1 / 10000)))
    \<and> f_le (Fin 0) (fValue f) \<and> f_le (fValue f) (Fin 1)
    \<and> f_le (Fin 3) (fSeverity f) \<and> f_le (fSeverity f) (Fin 12)"
proof -
  have lost: "int64 (ls_Sent s - ls_Received s) = ls_Sent s - ls_Received s"
    using assms(3-5) by (intro wrap_s_id) (auto simp: in_s_def)
  define tail where "tail = betaBinomialUpperTail M (ls_Sent s - ls_Received s) (ls_Sent s)
    (f_add priorAlpha (f_of_int (bs_Lost st))) (f_add priorBeta (f_of_int (bs_Received st)))"
  have f: "0 < ls_Sent s - ls_Received s" "50 \<le> int64 (bs_Lost st + bs_Received st)"
    "f_le tail (fl (1 / 10000))" "\<exists>d. fDetails f = BetaDetails d \<and> bd_Tail d = tail"
    "fValue f = f_div (f_of_int (ls_Sent s - ls_Received s)) (f_of_int (ls_Sent s))"
    "fSeverity f = f_min (Fin 12) (f_neg (m_Log10 M (f_max tail (fl (1 / 10 ^ 12)))))"
    using assms(3,4,6)
    by (auto simp: betab_step_def Let_def lost argus_betab_cfg_def tail_def split: if_splits)
  have "f_le (fl (1 / 10 ^ 12)) (f_max tail (fl (1 / 10 ^ 12)))"
    using f(3) by (intro conjunct2 [OF f_max_ge]) auto
  moreover have "f_le (f_max tail (fl (1 / 10 ^ 12))) (fl (1 / 10000))"
    using f(3) by (intro f_max_le fl_mono) auto
  ultimately obtain y where "m_Log10 M (f_max tail (fl (1 / 10 ^ 12))) = Fin y" "y \<le> - 3"
    using assms(2) by (auto simp: log10_law_def)
  then have "f_le (Fin 3) (fSeverity f) \<and> f_le (fSeverity f) (Fin 12)"
    by (auto simp: f(6) f_min_def)
  moreover have "f_le (Fin 0) (fValue f) \<and> f_le (fValue f) (Fin 1)"
    unfolding f(5) using f(1) assms(3-5) by (intro int_ratio_range) auto
  moreover have "f_le (Fin 0) tail"
    using f(3) upper_tail_range [OF assms(1)] unfolding tail_def by (metis f_le_nan(2))
  ultimately show ?thesis using f by auto
qed

definition flat_math :: math_lib where
  "flat_math = \<lparr>m_Lgamma = (\<lambda>_. Fin 0), m_Exp = (\<lambda>_. Fin 0), m_Log10 = (\<lambda>_. Fin (- 4))\<rparr>"

lemma flat_tail: "tail_loop flat_math n a bb l i (Fin 0) = Fin 0"
proof -
  have "tail_loop M n a bb l i tail = Fin 0" if "M = flat_math" "tail = Fin 0" for M tail
    using that
  proof (induction M n a bb l i tail rule: tail_loop.induct)
    case (1 M n a bb l i tail)
    then show ?case by (subst tail_loop.simps) (simp add: Let_def flat_math_def)
  qed
  then show ?thesis by simp
qed

theorem betab_finding_sound_witness:
  "\<exists>f. snd (betab_step flat_math argus_betab_cfg \<lparr>bs_Lost = 0, bs_Received = 60, bs_N = 6, bs_LastSeen = 0\<rparr>
      5 \<lparr>ls_Sent = 10, ls_Received = 4\<rparr>) = Some f
    \<and> f_le (Fin 3) (fSeverity f) \<and> f_le (fSeverity f) (Fin 12)"
proof -
  let ?st = "\<lparr>bs_Lost = 0, bs_Received = 60, bs_N = 6, bs_LastSeen = 0\<rparr>"
  let ?s = "\<lparr>ls_Sent = 10, ls_Received = 4\<rparr>"
  have "f_le (fl 0) (fl (1 / 10000))" by (rule fl_mono) simp
  then obtain f where f: "snd (betab_step flat_math argus_betab_cfg ?st 5 ?s) = Some f"
    by (simp add: betab_step_def Let_def argus_betab_cfg_def betaBinomialUpperTail_def flat_tail wrap_s_def)
  have "f_le (Fin 3) (fSeverity f) \<and> f_le (fSeverity f) (Fin 12)"
    using betab_finding_sound [OF _ _ _ _ _ f]
    by (simp add: flat_math_def log10_law_def nonneg_or_nan_def in_s_def)
  with f show ?thesis by blast
qed

definition betab_series :: "math_lib \<Rightarrow> BetaBinomialConfig \<Rightarrow> (time \<times> LossSample) list \<Rightarrow> BetaBinomialState \<Rightarrow> BetaBinomialState" where
  "betab_series M cfg samples st = fold (\<lambda>(ts, s) st. fst (betab_step M cfg st ts s)) samples st"

lemma betab_series_totals:
  assumes "\<forall>(ts, s) \<in> set samples. 0 \<le> ls_Received s \<and> ls_Received s \<le> ls_Sent s"
    and "0 \<le> bs_Lost st" "0 \<le> bs_Received st" "0 \<le> bs_N st"
    and "bs_Lost st + bs_Received st + (\<Sum>(ts, s) \<leftarrow> samples. ls_Sent s) < 2 ^ 63"
    and "bs_N st + int (length samples) < 2 ^ 63"
  shows "bs_Lost (betab_series M cfg samples st) = bs_Lost st + (\<Sum>(ts, s) \<leftarrow> samples. ls_Sent s - ls_Received s)
    \<and> bs_Received (betab_series M cfg samples st) = bs_Received st + (\<Sum>(ts, s) \<leftarrow> samples. ls_Received s)
    \<and> bs_N (betab_series M cfg samples st) = bs_N st + int (length samples)"
  using assms
proof (induction samples arbitrary: st)
  case (Cons p samples)
  obtain ts s where p: "p = (ts, s)" by fastforce
  let ?st = "fst (betab_step M cfg st ts s)"
  have nonneg: "0 \<le> (\<Sum>(ts, s) \<leftarrow> samples. ls_Sent s)"
    using Cons.prems(1) by (intro sum_list_nonneg) (auto split: prod.splits intro: order_trans)
  have "0 \<le> ls_Received s" "ls_Received s \<le> ls_Sent s" using Cons.prems(1) p by auto
  then have st: "bs_Lost ?st = bs_Lost st + (ls_Sent s - ls_Received s)"
    "bs_Received ?st = bs_Received st + ls_Received s" "bs_N ?st = bs_N st + 1"
    using Cons.prems(2-6) nonneg p by (auto simp: betab_step_state wrap_s_id in_s_def)
  have "bs_Lost (betab_series M cfg samples ?st) = bs_Lost ?st + (\<Sum>(ts, s) \<leftarrow> samples. ls_Sent s - ls_Received s)
    \<and> bs_Received (betab_series M cfg samples ?st) = bs_Received ?st + (\<Sum>(ts, s) \<leftarrow> samples. ls_Received s)
    \<and> bs_N (betab_series M cfg samples ?st) = bs_N ?st + int (length samples)"
    using Cons.prems st p by (intro Cons.IH) auto
  then show ?case using st p by (simp add: betab_series_def)
qed (simp add: betab_series_def)

text \<open>
  Property C16. The baseline counts exactly: after a series of batches, each with at most as
  many replies as probes and all together below \<open>2 ^ 63\<close> probes, the state holds the total
  of lost packets, the total of replies and the number of batches.
\<close>

theorem betab_counts_exactly:
  assumes "\<forall>(ts, s) \<in> set samples. 0 \<le> ls_Received s \<and> ls_Received s \<le> ls_Sent s"
    and "(\<Sum>(ts, s) \<leftarrow> samples. ls_Sent s) < 2 ^ 63" "int (length samples) < 2 ^ 63"
  shows "bs_Lost (betab_series M cfg samples betab_zero) = (\<Sum>(ts, s) \<leftarrow> samples. ls_Sent s - ls_Received s)
    \<and> bs_Received (betab_series M cfg samples betab_zero) = (\<Sum>(ts, s) \<leftarrow> samples. ls_Received s)
    \<and> bs_N (betab_series M cfg samples betab_zero) = int (length samples)"
  using betab_series_totals [OF assms(1), of betab_zero M cfg] assms(2,3) by (simp add: betab_zero_def)

theorem betab_counts_exactly_witness:
  "bs_Lost (betab_series flat_math argus_betab_cfg
     [(1, \<lparr>ls_Sent = 10, ls_Received = 8\<rparr>), (2, \<lparr>ls_Sent = 5, ls_Received = 5\<rparr>)] betab_zero) = 2"
  using betab_counts_exactly [of "[(1, \<lparr>ls_Sent = 10, ls_Received = 8\<rparr>), (2, \<lparr>ls_Sent = 5, ls_Received = 5\<rparr>)]"]
  by simp

end
