(* ===== verification/Argus_Bucket.thy ===== *)
theory Argus_Bucket
  imports Go_Float
begin

text \<open>
  The leaky bucket of the policy engine (\<^verbatim>\<open>services/argus/leaky_bucket.go\<close>): a score that
  findings raise and time drains, with an open and a close threshold. \<open>Add\<close> and
  \<open>Decay\<close> are the two operations; \<open>bucket_contract\<close> is the interface the policy
  engine relies on, and every configuration that is \<open>bucket_cfg_ok\<close> (the one Argus
  starts with, \<open>argus_bucket_cfg\<close>, among them) provides it.
\<close>

record LeakyBucketConfiguration =
  OpenThreshold :: float64
  CloseThreshold :: float64
  DecayPerSecond :: float64
  BaseContribution :: float64
  MagnitudeAlpha :: float64

record BucketState =
  Score :: float64
  ScoreUpdatedAt :: time

record BucketUpdate =
  NewState :: BucketState
  Contribution :: float64
  CrossedOpen :: bool
  CrossedClose :: bool

text \<open>Both operations drain the score by the time since the last update first.\<close>

definition decayed_score :: "LeakyBucketConfiguration \<Rightarrow> BucketState \<Rightarrow> time \<Rightarrow> float64" where
  "decayed_score cfg st ts =
     (let elapsed = dur_seconds (time_sub ts (ScoreUpdatedAt st))
      in f_max (Fin 0) (f_sub (Score st) (f_mul (DecayPerSecond cfg) elapsed)))"

definition Add :: "LeakyBucketConfiguration \<Rightarrow> BucketState \<Rightarrow> float64 \<Rightarrow> time \<Rightarrow> BucketUpdate" where
  "Add cfg st v ts =
     (let decayed = decayed_score cfg st ts;
          contribution = f_abs v;
          newScore = f_add decayed contribution
      in \<lparr>NewState = \<lparr>Score = newScore, ScoreUpdatedAt = ts\<rparr>,
          Contribution = contribution,
          CrossedOpen = (f_lt decayed (OpenThreshold cfg) \<and> f_le (OpenThreshold cfg) newScore),
          CrossedClose = (f_le (CloseThreshold cfg) decayed \<and> f_lt newScore (CloseThreshold cfg))\<rparr>)"

definition Decay :: "LeakyBucketConfiguration \<Rightarrow> BucketState \<Rightarrow> time \<Rightarrow> BucketUpdate" where
  "Decay cfg st ts =
     (let decayed = decayed_score cfg st ts
      in \<lparr>NewState = \<lparr>Score = decayed, ScoreUpdatedAt = ts\<rparr>,
          Contribution = Fin 0,
          CrossedOpen = False,
          CrossedClose = (f_le (CloseThreshold cfg) (Score st) \<and> f_lt decayed (CloseThreshold cfg))\<rparr>)"

text \<open>The configuration \<^verbatim>\<open>Argus.Start\<close> passes (\<^verbatim>\<open>services/argus/runner.go\<close>).\<close>

definition argus_bucket_cfg :: LeakyBucketConfiguration where
  "argus_bucket_cfg =
     \<lparr>OpenThreshold = Fin 5, CloseThreshold = Fin 3, DecayPerSecond = fl (1 / 10),
      BaseContribution = Fin 1, MagnitudeAlpha = fl (12 / 10)\<rparr>"

section \<open>Well-formed scores and configurations\<close>

definition score_ok :: "BucketState \<Rightarrow> bool" where
  "score_ok st \<longleftrightarrow> wf64 (Score st) \<and> f_le (Fin 0) (Score st)"

fun rate_ok :: "float64 \<Rightarrow> bool" where
  "rate_ok (Fin r) \<longleftrightarrow> 0 \<le> r \<and> r \<le> 2 ^ 900"
| "rate_ok _ \<longleftrightarrow> False"

definition bucket_cfg_ok :: "LeakyBucketConfiguration \<Rightarrow> bool" where
  "bucket_cfg_ok cfg \<longleftrightarrow> rate_ok (DecayPerSecond cfg)
     \<and> f_lt (Fin 0) (CloseThreshold cfg) \<and> f_le (CloseThreshold cfg) (OpenThreshold cfg)"

lemma score_ok_not_nan: "score_ok st \<Longrightarrow> Score st \<noteq> NaN"
  by (auto simp: score_ok_def)

text \<open>The amount a configured bucket drains is a finite, nonnegative number.\<close>

lemma drain_fin:
  assumes "rate_ok rate"
  obtains x where "f_mul rate (dur_seconds (time_sub ts t)) = Fin x"
proof -
  obtain r where r: "rate = Fin r" "0 \<le> r" "r \<le> 2 ^ 900" using assms by (cases rate) auto
  define d where "d = time_sub ts t"
  have d: "in_s 64 d" by (simp add: d_def time_sub_range)
  define q where "q = rnd (of_int (d smod second) / of_int second)"
  have "\<bar>of_int (d smod second) / of_int second :: real\<bar> \<le> 1"
    using sec_parts(2) [OF d] by (simp add: second_def flip: of_int_abs)
  then have q: "\<bar>q\<bar> \<le> 1" unfolding q_def by (rule rnd_abs_le) simp
  have "\<bar>of_int (d sdiv second) :: real\<bar> \<le> 9223372036"
    using sec_parts(1) [OF d] by linarith
  with q have "\<bar>of_int (d sdiv second) + q\<bar> \<le> 2 ^ 34" by simp
  then have e: "\<bar>rnd (of_int (d sdiv second) + q)\<bar> \<le> 2 ^ 34"
    by (rule rnd_abs_le) (simp add: rnd_numeral)
  have "\<bar>r * rnd (of_int (d sdiv second) + q)\<bar> \<le> 2 ^ 900 * 2 ^ 34"
    unfolding abs_mult using r e by (intro mult_mono) auto
  also have "\<dots> \<le> (2::real) ^ 1000" by (simp flip: power_add)
  finally have "fl (r * rnd (of_int (d sdiv second) + q)) = Fin (rnd (r * rnd (of_int (d sdiv second) + q)))"
    by (rule fl_fin)
  then show thesis
    using that r dur_seconds_Fin [OF d] by (simp add: d_def q_def)
qed

lemma drain_nonneg:
  assumes "rate_ok rate" "t \<le> ts"
  shows "f_le (Fin 0) (f_mul rate (dur_seconds (time_sub ts t)))"
proof -
  obtain r where r: "rate = Fin r" "0 \<le> r" using assms(1) by (cases rate) auto
  have "f_le (Fin 0) (dur_seconds (time_sub ts t))"
    using assms(2) by (intro dur_seconds_nonneg) (auto simp: go_time)
  moreover obtain e where "dur_seconds (time_sub ts t) = Fin e"
    using dur_seconds_Fin [OF time_sub_range] by blast
  ultimately show ?thesis using r f_mul_Fin_nonneg [of r e] by simp
qed

lemma decayed_score_ok:
  assumes "rate_ok (DecayPerSecond cfg)" "score_ok st"
  shows "wf64 (decayed_score cfg st ts)" "f_le (Fin 0) (decayed_score cfg st ts)"
proof -
  obtain x where "f_mul (DecayPerSecond cfg) (dur_seconds (time_sub ts (ScoreUpdatedAt st))) = Fin x"
    using drain_fin [OF assms(1)] by blast
  then show "wf64 (decayed_score cfg st ts)" "f_le (Fin 0) (decayed_score cfg st ts)"
    using score_ok_not_nan [OF assms(2)] by (auto simp: decayed_score_def Let_def f_max_ge)
qed

lemma decayed_score_le:
  assumes "rate_ok (DecayPerSecond cfg)" "score_ok st" "ScoreUpdatedAt st \<le> ts"
  shows "f_le (decayed_score cfg st ts) (Score st)"
proof -
  let ?d = "f_mul (DecayPerSecond cfg) (dur_seconds (time_sub ts (ScoreUpdatedAt st)))"
  obtain x where x: "?d = Fin x" using drain_fin [OF assms(1)] by blast
  have "f_le (f_sub (Score st) ?d) (Score st)"
    using assms drain_nonneg [OF assms(1,3)] score_ok_not_nan [OF assms(2)] x
    by (intro f_sub_le_left) (auto simp: score_ok_def)
  with assms(2) show ?thesis
    by (auto simp: decayed_score_def Let_def score_ok_def intro: f_max_le)
qed

lemma decayed_score_antimono:
  assumes "rate_ok (DecayPerSecond cfg)" "score_ok st" "ScoreUpdatedAt st \<le> ts" "ts \<le> ts'"
  shows "f_le (decayed_score cfg st ts') (decayed_score cfg st ts)"
proof -
  let ?e = "\<lambda>t. dur_seconds (time_sub t (ScoreUpdatedAt st))"
  let ?d = "\<lambda>t. f_mul (DecayPerSecond cfg) (?e t)"
  obtain r where r: "DecayPerSecond cfg = Fin r" "0 \<le> r"
    using assms(1) by (cases "DecayPerSecond cfg") auto
  obtain e e' where e: "?e ts = Fin e" "?e ts' = Fin e'"
    using dur_seconds_Fin [OF time_sub_range] by blast
  have "f_le (?e ts) (?e ts')"
    using assms(3,4) by (intro dur_seconds_mono) (auto simp: go_time)
  with e r have "f_le (?d ts) (?d ts')"
    using f_mul_Fin_mono [of r e e'] by (simp del: f_mul.simps)
  moreover obtain x x' where x: "?d ts = Fin x" "?d ts' = Fin x'"
    using drain_fin [OF assms(1)] by metis
  ultimately have "f_le (f_sub (Score st) (?d ts')) (f_sub (Score st) (?d ts))"
    using score_ok_not_nan [OF assms(2)] by (intro f_sub_antimono) auto
  moreover have "f_sub (Score st) (?d ts) \<noteq> NaN"
    using score_ok_not_nan [OF assms(2)] x by simp
  ultimately show ?thesis
    unfolding decayed_score_def Let_def
    by (meson f_le_trans f_max_ge f_max_le float64.distinct(5))
qed

text \<open>Once the drain reaches the score, nothing is left.\<close>

lemma decayed_score_zero:
  assumes "rate_ok (DecayPerSecond cfg)" "score_ok st"
    and le: "f_le (Score st) (f_mul (DecayPerSecond cfg) (dur_seconds (time_sub ts (ScoreUpdatedAt st))))"
  shows "decayed_score cfg st ts = Fin 0"
proof -
  let ?d = "f_mul (DecayPerSecond cfg) (dur_seconds (time_sub ts (ScoreUpdatedAt st)))"
  obtain x where x: "?d = Fin x" using drain_fin [OF assms(1)] by blast
  with le assms(2) obtain s where s: "Score st = Fin s" "s \<le> x"
    by (cases "Score st") (auto simp: score_ok_def)
  then have "f_le (fl (s - x)) (fl 0)" by (intro fl_mono) simp
  with x s show ?thesis
    by (cases "fl (s - x)") (auto simp: decayed_score_def Let_def f_sub_def f_max_def)
qed


section \<open>The contract with the policy engine\<close>

locale bucket_contract =
  fixes add :: "BucketState \<Rightarrow> float64 \<Rightarrow> time \<Rightarrow> BucketUpdate"
    and decay :: "BucketState \<Rightarrow> time \<Rightarrow> BucketUpdate"
    and opn :: float64
    and cls :: float64
  assumes add_ok: "score_ok st \<Longrightarrow> wf64 v \<Longrightarrow> v \<noteq> NaN \<Longrightarrow> score_ok (NewState (add st v ts))"
    and decay_ok: "score_ok st \<Longrightarrow> score_ok (NewState (decay st ts))"
    and add_stamp: "ScoreUpdatedAt (NewState (add st v ts)) = ts"
    and decay_stamp: "ScoreUpdatedAt (NewState (decay st ts)) = ts"
    and add_floor: "score_ok st \<Longrightarrow> wf64 v \<Longrightarrow> v \<noteq> NaN \<Longrightarrow>
      f_le (f_abs v) (Score (NewState (add st v ts)))"
    and add_opens: "CrossedOpen (add st v ts) \<Longrightarrow> f_le opn (Score (NewState (add st v ts)))"
    and decay_falls: "score_ok st \<Longrightarrow> ScoreUpdatedAt st \<le> ts \<Longrightarrow>
      f_le (Score (NewState (decay st ts))) (Score st)"
    and decay_closes: "CrossedClose (decay st ts) \<longleftrightarrow>
      f_le cls (Score st) \<and> f_lt (Score (NewState (decay st ts))) cls"
    and thresholds: "f_lt (Fin 0) cls" "f_le cls opn"
begin

text \<open>A bucket above the close threshold stays there until \<open>decay\<close> reports the crossing.\<close>

lemma decay_above:
  assumes "score_ok st" "f_le cls (Score st)" "\<not> CrossedClose (decay st ts)"
  shows "f_le cls (Score (NewState (decay st ts)))"
proof -
  have "Score (NewState (decay st ts)) \<noteq> NaN"
    by (rule score_ok_not_nan [OF decay_ok [OF assms(1)]])
  moreover have "cls \<noteq> NaN" using assms(2) by auto
  ultimately show ?thesis using assms(2,3) decay_closes f_lt_not_le by blast
qed

text \<open>A finding at least as severe as the close threshold leaves the bucket above it.\<close>

lemma add_above:
  assumes "score_ok st" "wf64 v" "v \<noteq> NaN" "f_le cls (f_abs v)"
  shows "f_le cls (Score (NewState (add st v ts)))"
  using assms add_floor f_le_trans by blast

lemma opened_above:
  assumes "CrossedOpen (add st v ts)"
  shows "f_le cls (Score (NewState (add st v ts)))"
  using add_opens [OF assms] thresholds(2) f_le_trans by blast

end

text \<open>Every configuration with a sane drain rate and ordered thresholds keeps the contract.\<close>

locale configured_bucket =
  fixes cfg :: LeakyBucketConfiguration
  assumes cfg_ok: "bucket_cfg_ok cfg"

lemma Add_ok:
  assumes "rate_ok (DecayPerSecond cfg)" "score_ok st" "wf64 v" "v \<noteq> NaN"
  shows "score_ok (NewState (Add cfg st v ts))"
    and "f_le (decayed_score cfg st ts) (Score (NewState (Add cfg st v ts)))"
    and "f_le (f_abs v) (Score (NewState (Add cfg st v ts)))"
proof -
  note d = decayed_score_ok [OF assms(1,2), of ts]
  have v: "f_le (Fin 0) (f_abs v)" "wf64 (f_abs v)" using assms by (auto intro: f_abs_nonneg)
  have nn: "f_add (decayed_score cfg st ts) (f_abs v) \<noteq> NaN"
    using d(2) v(1) by (cases "decayed_score cfg st ts"; cases "f_abs v") auto
  show le: "f_le (decayed_score cfg st ts) (Score (NewState (Add cfg st v ts)))"
    using d v nn by (auto simp: Add_def Let_def intro: f_add_ge_left)
  show "f_le (f_abs v) (Score (NewState (Add cfg st v ts)))"
    using d v nn by (auto simp: Add_def Let_def intro: f_add_ge_right)
  show "score_ok (NewState (Add cfg st v ts))"
    using f_le_trans [OF d(2) le] by (auto simp: score_ok_def Add_def Let_def)
qed

lemma Decay_ok:
  assumes "rate_ok (DecayPerSecond cfg)" "score_ok st"
  shows "score_ok (NewState (Decay cfg st ts))"
  using decayed_score_ok [OF assms] by (simp add: Decay_def Let_def score_ok_def)

lemma bucket_cfg_okD:
  assumes "bucket_cfg_ok cfg"
  shows "rate_ok (DecayPerSecond cfg)" "f_lt (Fin 0) (CloseThreshold cfg)"
    "f_le (CloseThreshold cfg) (OpenThreshold cfg)"
  using assms by (auto simp: bucket_cfg_ok_def)

sublocale configured_bucket \<subseteq> bucket_contract "Add cfg" "Decay cfg" "OpenThreshold cfg" "CloseThreshold cfg"
proof unfold_locales
  fix st v ts
  note ok = bucket_cfg_okD [OF cfg_ok]
  show "score_ok st \<Longrightarrow> wf64 v \<Longrightarrow> v \<noteq> NaN \<Longrightarrow> score_ok (NewState (Add cfg st v ts))"
    by (rule Add_ok(1) [OF ok(1)])
  show "score_ok st \<Longrightarrow> score_ok (NewState (Decay cfg st ts))"
    by (rule Decay_ok [OF ok(1)])
  show "score_ok st \<Longrightarrow> wf64 v \<Longrightarrow> v \<noteq> NaN \<Longrightarrow> f_le (f_abs v) (Score (NewState (Add cfg st v ts)))"
    by (rule Add_ok(3) [OF ok(1)])
  show "score_ok st \<Longrightarrow> ScoreUpdatedAt st \<le> ts \<Longrightarrow> f_le (Score (NewState (Decay cfg st ts))) (Score st)"
    using decayed_score_le [OF ok(1)] by (simp add: Decay_def Let_def)
  show "f_lt (Fin 0) (CloseThreshold cfg)" "f_le (CloseThreshold cfg) (OpenThreshold cfg)"
    by (rule ok)+
qed (auto simp: Add_def Decay_def Let_def)

lemma rate_ok_tenth: "rate_ok (fl (1 / 10))"
proof -
  have "fl (1 / 10) = Fin (rnd (1 / 10))"
    by (rule fl_fin) (simp add: order_trans [of _ 1])
  moreover have "rnd (1 / 10) \<le> rnd 1" by (rule rnd_mono) simp
  moreover have "(1::real) \<le> 2 ^ 900" by (rule one_le_power) simp
  ultimately show ?thesis using rnd_nonneg [of "1 / 10"] by auto
qed

lemma argus_bucket_cfg_ok: "bucket_cfg_ok argus_bucket_cfg"
  by (simp add: bucket_cfg_ok_def argus_bucket_cfg_def rate_ok_tenth)

interpretation argus_bucket: configured_bucket argus_bucket_cfg
  by unfold_locales (rule argus_bucket_cfg_ok)

context configured_bucket
begin

lemma is_bucket_contract:
  "bucket_contract (Add cfg) (Decay cfg) (OpenThreshold cfg) (CloseThreshold cfg)"
  by unfold_locales

end

lemma bucket_contract_intro:
  "bucket_cfg_ok cfg \<Longrightarrow>
   bucket_contract (Add cfg) (Decay cfg) (OpenThreshold cfg) (CloseThreshold cfg)"
  by (rule configured_bucket.is_bucket_contract [OF configured_bucket.intro])

section \<open>Properties of the bucket\<close>

text \<open>
  One update never crosses both thresholds, as the comment in
  \<^verbatim>\<open>ApplyFinding\<close> claims: a finding can only raise the drained score, so \<open>Add\<close> never
  reports a close crossing, and \<open>Decay\<close> never reports an open one.
\<close>

lemma crossings_exclusive:
  assumes "bucket_cfg_ok cfg" "score_ok st" "wf64 v" "v \<noteq> NaN"
  shows "\<not> CrossedClose (Add cfg st v ts) \<and> \<not> CrossedOpen (Decay cfg st ts)"
proof -
  have le: "f_le (decayed_score cfg st ts) (Score (NewState (Add cfg st v ts)))"
    by (rule Add_ok(2) [OF bucket_cfg_okD(1) [OF assms(1)] assms(2-4)])
  have "\<not> CrossedClose (Add cfg st v ts)"
  proof
    assume "CrossedClose (Add cfg st v ts)"
    then have "f_le (CloseThreshold cfg) (decayed_score cfg st ts)"
      and lt: "f_lt (Score (NewState (Add cfg st v ts))) (CloseThreshold cfg)"
      by (auto simp: Add_def Let_def)
    then have "f_le (CloseThreshold cfg) (Score (NewState (Add cfg st v ts)))"
      using le f_le_trans by blast
    with lt show False using f_le_not_lt by blast
  qed
  then show ?thesis by (simp add: Decay_def Let_def)
qed

text \<open>
  Property C12. The bucket drains: once the elapsed seconds times the drain rate reach the
  score, \<open>Decay\<close> leaves exactly zero, and between two instants the score never rises.
\<close>

theorem Decay_drains:
  assumes "bucket_cfg_ok cfg" "score_ok st" "ScoreUpdatedAt st \<le> ts" "ts \<le> ts'"
  shows "f_le (Score (NewState (Decay cfg st ts'))) (Score (NewState (Decay cfg st ts)))
    \<and> f_le (Score (NewState (Decay cfg st ts))) (Score st)
    \<and> (f_le (Score st) (f_mul (DecayPerSecond cfg) (dur_seconds (time_sub ts (ScoreUpdatedAt st))))
       \<longrightarrow> Score (NewState (Decay cfg st ts)) = Fin 0)"
proof -
  note rate = bucket_cfg_okD(1) [OF assms(1)]
  note decayed_score_zero [OF rate assms(2), of ts]
  then show ?thesis
    using decayed_score_antimono [OF rate assms(2-4)] decayed_score_le [OF rate assms(2,3)]
    by (simp add: Decay_def Let_def)
qed

lemma tenth_drain: "0 \<le> n \<Longrightarrow> n \<le> 2 ^ 30 \<Longrightarrow>
  f_le (fl (of_int n / 16)) (f_mul (DecayPerSecond argus_bucket_cfg) (dur_seconds (n * second)))"
proof -
  assume n: "0 \<le> n" "n \<le> 2 ^ 30"
  have "representable (1 / 16)"
    unfolding representable_def by (rule exI [of _ 1], rule exI [of _ "-4"]) (simp add: power_int_def power_divide)
  then have "1 / 16 \<le> rnd (1 / 10)"
    using rnd_mono [of "1 / 16" "1 / 10"] rnd_representable_id [of "1 / 16"] by simp
  then have "of_int n / 16 \<le> rnd (1 / 10) * of_int n"
    using n mult_right_mono [of "1 / 16" "rnd (1 / 10)" "of_int n"] by simp
  moreover have "fl (1 / 10) = Fin (rnd (1 / 10))" by (rule fl_fin) (simp add: order_trans [of _ 1])
  ultimately show ?thesis
    using n by (simp add: argus_bucket_cfg_def dur_seconds_whole fl_mono)
qed

theorem Decay_drains_witness:
  "f_le (Score (NewState (Decay argus_bucket_cfg \<lparr>Score = Fin 4, ScoreUpdatedAt = 0\<rparr> (200 * second))))
        (Score (NewState (Decay argus_bucket_cfg \<lparr>Score = Fin 4, ScoreUpdatedAt = 0\<rparr> (100 * second))))
   \<and> Score (NewState (Decay argus_bucket_cfg \<lparr>Score = Fin 4, ScoreUpdatedAt = 0\<rparr> (100 * second))) = Fin 0"
proof -
  have ok: "score_ok \<lparr>Score = Fin 4, ScoreUpdatedAt = 0\<rparr>" by (simp add: score_ok_def rnd_numeral)
  have t: "time_sub (100 * second) 0 = 100 * second"
    by (simp add: time_sub_def second_def duration_bounds)
  have "f_le (Fin 4) (fl (100 / 16))" using fl_mono [of 4 "100 / 16"] by (simp add: fl_numeral)
  then have "f_le (Fin 4) (f_mul (DecayPerSecond argus_bucket_cfg) (dur_seconds (100 * second)))"
    using tenth_drain [of 100] f_le_trans by simp
  with Decay_drains [OF argus_bucket_cfg_ok ok, of "100 * second" "200 * second"] t show ?thesis
    by (auto simp: second_def)
qed

end
