(* ===== verification/Pg_Base.thy ===== *)
theory Pg_Base
  imports Go_Float "HOL-Library.Word"
begin

text \<open>
  What all services share of PostgreSQL and pgx (\<^verbatim>\<open>libs/common/pgx/utils.go\<close>). The server is
  a parameter: \<open>db_env\<close> says for the n-th statement whether it runs, fails, or runs although
  its answer is lost, which identifiers \<^verbatim>\<open>gen_random_uuid\<close> draws, how an instant is stored in a
  \<^verbatim>\<open>TIMESTAMPTZ\<close> column, and how identifiers print and parse (package
  \<^verbatim>\<open>google/uuid\<close>). A \<open>pgval\<close> is a nullable value of package \<^verbatim>\<open>pgtype\<close>: the
  value and its \<^verbatim>\<open>Valid\<close> flag.
\<close>

type_synonym uuid = "128 word"

datatype fault = FNone | FFail | FLost

datatype tx_begin = TxOk | TxErr bool

record db_env =
  de_fault :: "nat \<Rightarrow> fault"
  de_begin :: "nat \<Rightarrow> tx_begin"
  de_uuid :: "nat \<Rightarrow> uuid"
  de_ts :: "time \<Rightarrow> time"
  de_string :: "uuid \<Rightarrow> string"
  de_parse :: "string \<Rightarrow> uuid option"

datatype db_error = DbFail | NoRows | UniqueViolation | ForeignKeyViolation

section \<open>Nullable values\<close>

record 'a pgval =
  pg_val :: 'a
  pg_Valid :: bool

definition Int4 :: "int \<Rightarrow> int pgval" where
  "Int4 v = \<lparr>pg_val = int32 v, pg_Valid = True\<rparr>"

definition Int8 :: "int \<Rightarrow> int pgval" where
  "Int8 v = \<lparr>pg_val = int64 v, pg_Valid = True\<rparr>"

text \<open>The zero \<^verbatim>\<open>pgtype.UUID\<close>.\<close>

definition no_uuid :: "uuid pgval" where "no_uuid = \<lparr>pg_val = 0, pg_Valid = False\<rparr>"

definition UUID :: "db_env \<Rightarrow> string \<Rightarrow> uuid pgval option" where
  "UUID env v = (case de_parse env v of
     None \<Rightarrow> None
   | Some parsedUUID \<Rightarrow> Some \<lparr>pg_val = parsedUUID, pg_Valid = True\<rparr>)"

end
