(* ===== verification/Argus_DB.thy ===== *)
theory Argus_DB
  imports Argus_Detectors Pg_Base "HOL-Library.AList"
begin

text \<open>
  The tables Argus owns and the queries on them (\<^verbatim>\<open>services/argus/db/queries.sql.go\<close> and
  \<^verbatim>\<open>models.go\<close>): one definition per query, after its SQL text, with the key, uniqueness
  and foreign-key constraints of the schema (\<^verbatim>\<open>db/init/07-argus.sql\<close>). PostgreSQL itself
  is the parameter \<open>db_env\<close>.
\<close>

section \<open>Keys and rows\<close>

record SeriesKey =
  sk_Type :: string
  sk_SerialId :: string
  sk_Target :: string
  sk_SrcIP :: string
  sk_Port :: int
  sk_Metric :: string
  sk_Detector :: string

text \<open>The primary key of a baseline and of a policy state row.\<close>

record row_key =
  rk_SerialID :: string
  rk_SrcIp :: string
  rk_Target :: string
  rk_Port :: int
  rk_Metric :: string
  rk_Detector :: string

definition key_of :: "SeriesKey \<Rightarrow> row_key" where
  "key_of sk = \<lparr>rk_SerialID = sk_SerialId sk, rk_SrcIp = sk_SrcIP sk, rk_Target = sk_Target sk,
     rk_Port = sk_Port sk, rk_Metric = sk_Metric sk, rk_Detector = sk_Detector sk\<rparr>"

record ArgusBaseline =
  ab_State :: json
  ab_N :: int
  ab_LastSeen :: time

record ArgusEvent =
  ev_ID :: uuid
  ev_SerialID :: string
  ev_Target :: string
  ev_Port :: int
  ev_Metric :: string
  ev_Status :: string
  ev_OpenedAt :: time
  ev_LastSeenAt :: time
  ev_ClosedAt :: "time option"
  ev_FindingCount :: int
  ev_PeakSeverity :: float64
  ev_Detectors :: "string list"

record ArgusFinding =
  fi_ID :: uuid
  fi_SerialID :: string
  fi_Target :: string
  fi_Port :: int
  fi_Metric :: string
  fi_Detector :: string
  fi_Ts :: time
  fi_Value :: float64
  fi_Severity :: float64
  fi_Details :: json
  fi_EventID :: "uuid option"

record ArgusPolicyState =
  ap_Status :: string
  ap_Score :: float64
  ap_ScoreUpdatedAt :: time
  ap_OpenEventID :: "uuid option"
  ap_PendingFindings :: "uuid list"
  ap_EnteredStatusAt :: time

record db =
  baselines :: "(row_key \<times> ArgusBaseline) list"
  policies :: "(row_key \<times> ArgusPolicyState) list"
  events :: "ArgusEvent list"
  findings :: "ArgusFinding list"
  stmts :: nat

section \<open>Statements\<close>

text \<open>Every statement has a number; \<open>de_fault\<close> decides how it ends.\<close>

definition exec_stmt ::
  "db_env \<Rightarrow> (nat \<Rightarrow> db \<Rightarrow> (db_error + 'a) \<times> db) \<Rightarrow> db \<Rightarrow> (db_error + 'a) \<times> db" where
  "exec_stmt env q d =
     (let n = stmts d; d' = d\<lparr>stmts := Suc n\<rparr> in
      case de_fault env n of
        FNone \<Rightarrow> q n d'
      | FFail \<Rightarrow> (Inl DbFail, d')
      | FLost \<Rightarrow> (Inl DbFail, snd (q n d')))"

definition has_event :: "db \<Rightarrow> uuid \<Rightarrow> bool" where
  "has_event d e \<longleftrightarrow> e \<in> ev_ID ` set (events d)"

definition AttachFindingToEvent ::
  "db_env \<Rightarrow> uuid option \<Rightarrow> uuid option \<Rightarrow> db \<Rightarrow> (db_error + unit) \<times> db" where
  "AttachFindingToEvent env eid fid = exec_stmt env (\<lambda>n d.
     let hit = (\<lambda>r. Some (fi_ID r) = fid) in
     if (\<exists>r \<in> set (findings d). hit r) \<and> (case eid of None \<Rightarrow> False | Some e \<Rightarrow> \<not> has_event d e)
     then (Inl ForeignKeyViolation, d)
     else (Inr (), d\<lparr>findings := map (\<lambda>r. if hit r then r\<lparr>fi_EventID := eid\<rparr> else r) (findings d)\<rparr>))"

definition CloseEvent :: "db_env \<Rightarrow> uuid \<Rightarrow> time \<Rightarrow> db \<Rightarrow> (db_error + unit) \<times> db" where
  "CloseEvent env eid t = exec_stmt env (\<lambda>n d.
     (Inr (), d\<lparr>events := map (\<lambda>e. if ev_ID e = eid
        then e\<lparr>ev_Status := ''closed'', ev_ClosedAt := Some (de_ts env t)\<rparr> else e) (events d)\<rparr>))"

definition GetBaseline :: "db_env \<Rightarrow> row_key \<Rightarrow> db \<Rightarrow> (db_error + ArgusBaseline) \<times> db" where
  "GetBaseline env k = exec_stmt env (\<lambda>n d.
     (case map_of (baselines d) k of None \<Rightarrow> Inl NoRows | Some b \<Rightarrow> Inr b, d))"

definition GetPolicyState :: "db_env \<Rightarrow> row_key \<Rightarrow> db \<Rightarrow> (db_error + ArgusPolicyState) \<times> db" where
  "GetPolicyState env k = exec_stmt env (\<lambda>n d.
     (case map_of (policies d) k of None \<Rightarrow> Inl NoRows | Some p \<Rightarrow> Inr p, d))"

definition db_InsertFinding ::
  "db_env \<Rightarrow> ArgusFinding \<Rightarrow> db \<Rightarrow> (db_error + uuid) \<times> db" where
  "db_InsertFinding env arg = exec_stmt env (\<lambda>n d.
     let r = arg\<lparr>fi_ID := de_uuid env n, fi_Ts := de_ts env (fi_Ts arg), fi_EventID := None\<rparr> in
     if (\<exists>f \<in> set (findings d). fi_SerialID f = fi_SerialID r \<and> fi_Target f = fi_Target r
           \<and> fi_Port f = fi_Port r \<and> fi_Metric f = fi_Metric r \<and> fi_Detector f = fi_Detector r
           \<and> fi_Ts f = fi_Ts r)
     then (Inl NoRows, d)
     else if \<exists>f \<in> set (findings d). fi_ID f = fi_ID r then (Inl UniqueViolation, d)
     else (Inr (fi_ID r), d\<lparr>findings := findings d @ [r]\<rparr>))"

definition ListNonCleanPolicyStates ::
  "db_env \<Rightarrow> db \<Rightarrow> (db_error + (row_key \<times> ArgusPolicyState) list) \<times> db" where
  "ListNonCleanPolicyStates env = exec_stmt env (\<lambda>n d.
     (Inr (filter (\<lambda>(k, p). ap_Status p \<noteq> ''clean'') (policies d)), d))"

definition OpenEvent :: "db_env \<Rightarrow> ArgusEvent \<Rightarrow> db \<Rightarrow> (db_error + uuid) \<times> db" where
  "OpenEvent env arg = exec_stmt env (\<lambda>n d.
     let e = arg\<lparr>ev_ID := de_uuid env n, ev_Status := ''open'', ev_OpenedAt := de_ts env (ev_OpenedAt arg),
       ev_LastSeenAt := de_ts env (ev_OpenedAt arg), ev_ClosedAt := None\<rparr> in
     if has_event d (ev_ID e) then (Inl UniqueViolation, d)
     else (Inr (ev_ID e), d\<lparr>events := events d @ [e]\<rparr>))"

definition UpdateEventOnFinding ::
  "db_env \<Rightarrow> uuid \<Rightarrow> time \<Rightarrow> float64 \<Rightarrow> string \<Rightarrow> db \<Rightarrow> (db_error + unit) \<times> db" where
  "UpdateEventOnFinding env eid t sev det = exec_stmt env (\<lambda>n d.
     if \<exists>e \<in> set (events d). ev_ID e = eid \<and> ev_FindingCount e = 2 ^ 31 - 1 then (Inl DbFail, d)
     else (Inr (), d\<lparr>events := map (\<lambda>e. if ev_ID e = eid
        then e\<lparr>ev_LastSeenAt := de_ts env t, ev_FindingCount := ev_FindingCount e + 1,
          ev_PeakSeverity := (if sev = NaN \<or> f_le (ev_PeakSeverity e) sev then sev else ev_PeakSeverity e),
          ev_Detectors := (if det \<in> set (ev_Detectors e) then ev_Detectors e else ev_Detectors e @ [det])\<rparr>
        else e) (events d)\<rparr>))"

definition UpsertBaseline ::
  "db_env \<Rightarrow> row_key \<Rightarrow> json \<Rightarrow> int \<Rightarrow> time \<Rightarrow> db \<Rightarrow> (db_error + unit) \<times> db" where
  "UpsertBaseline env k st n0 seen = exec_stmt env (\<lambda>n d.
     (Inr (), d\<lparr>baselines := AList.update k \<lparr>ab_State = st, ab_N = n0, ab_LastSeen = de_ts env seen\<rparr>
        (baselines d)\<rparr>))"

definition UpsertPolicyState ::
  "db_env \<Rightarrow> row_key \<Rightarrow> ArgusPolicyState \<Rightarrow> db \<Rightarrow> (db_error + unit) \<times> db" where
  "UpsertPolicyState env k arg = exec_stmt env (\<lambda>n d.
     if (case ap_OpenEventID arg of None \<Rightarrow> False | Some e \<Rightarrow> \<not> has_event d e)
     then (Inl ForeignKeyViolation, d)
     else (Inr (), d\<lparr>policies := AList.update k
       (arg\<lparr>ap_ScoreUpdatedAt := de_ts env (ap_ScoreUpdatedAt arg),
            ap_EnteredStatusAt := de_ts env (ap_EnteredStatusAt arg)\<rparr>) (policies d)\<rparr>))"

section \<open>Transactions\<close>

text \<open>\<^verbatim>\<open>pool.Begin\<close>: a transaction, or an error with or without a transaction value.\<close>

definition Begin :: "db_env \<Rightarrow> db \<Rightarrow> tx_begin \<times> db" where
  "Begin env d = (de_begin env (stmts d), d\<lparr>stmts := Suc (stmts d)\<rparr>)"

text \<open>\<open>saved\<close> is the database at \<open>Begin\<close>: rolling back restores its tables.\<close>

definition Rollback :: "db \<Rightarrow> db \<Rightarrow> db" where
  "Rollback saved d = saved\<lparr>stmts := Suc (stmts d)\<rparr>"

definition Commit :: "db_env \<Rightarrow> db \<Rightarrow> db \<Rightarrow> (db_error + unit) \<times> db" where
  "Commit env saved d =
     (let n = stmts d in
      case de_fault env n of
        FNone \<Rightarrow> (Inr (), d\<lparr>stmts := Suc n\<rparr>)
      | FFail \<Rightarrow> (Inl DbFail, saved\<lparr>stmts := Suc n\<rparr>)
      | FLost \<Rightarrow> (Inl DbFail, d\<lparr>stmts := Suc n\<rparr>))"

section \<open>What a statement leaves alone\<close>

named_theorems db_frame "the tables a query does not write"

lemma exec_stmt_cases:
  obtains (run) "exec_stmt env q d = q (stmts d) (d\<lparr>stmts := Suc (stmts d)\<rparr>)"
  | (fail) "exec_stmt env q d = (Inl DbFail, d\<lparr>stmts := Suc (stmts d)\<rparr>)"
  | (lost) "exec_stmt env q d = (Inl DbFail, snd (q (stmts d) (d\<lparr>stmts := Suc (stmts d)\<rparr>)))"
  by (cases "de_fault env (stmts d)") (auto simp: exec_stmt_def Let_def)

lemma exec_stmt_frame:
  assumes "\<And>n d. g (snd (q n d)) = g d" "\<And>d. g (d\<lparr>stmts := Suc (stmts d)\<rparr>) = g d"
  shows "g (snd (exec_stmt env q d)) = g d"
  using assms by (cases rule: exec_stmt_cases [of env q d]) auto

lemma exec_stmt_keeps:
  assumes "P d" "\<And>d n. P d \<Longrightarrow> P (d\<lparr>stmts := n\<rparr>)" "\<And>n d. P d \<Longrightarrow> P (snd (q n d))"
  shows "P (snd (exec_stmt env q d))"
  using assms by (cases rule: exec_stmt_cases [of env q d]) auto

lemma exec_stmt_Inr:
  "exec_stmt env q d = (Inr a, d') \<Longrightarrow> q (stmts d) (d\<lparr>stmts := Suc (stmts d)\<rparr>) = (Inr a, d')"
  by (cases rule: exec_stmt_cases [of env q d]) auto

lemma AttachFindingToEvent_frame [db_frame, simp]:
  "events (snd (AttachFindingToEvent env eid fid d)) = events d"
  "policies (snd (AttachFindingToEvent env eid fid d)) = policies d"
  "baselines (snd (AttachFindingToEvent env eid fid d)) = baselines d"
  "map fi_ID (findings (snd (AttachFindingToEvent env eid fid d))) = map fi_ID (findings d)"
  unfolding AttachFindingToEvent_def
  by (rule exec_stmt_frame; simp add: Let_def)+

lemma CloseEvent_frame [db_frame, simp]:
  "findings (snd (CloseEvent env eid t d)) = findings d"
  "policies (snd (CloseEvent env eid t d)) = policies d"
  "baselines (snd (CloseEvent env eid t d)) = baselines d"
  "map ev_ID (events (snd (CloseEvent env eid t d))) = map ev_ID (events d)"
  unfolding CloseEvent_def by (rule exec_stmt_frame; simp add: Let_def)+

lemma reads_frame [db_frame, simp]:
  "events (snd (GetPolicyState env k d)) = events d"
  "findings (snd (GetPolicyState env k d)) = findings d"
  "policies (snd (GetPolicyState env k d)) = policies d"
  "baselines (snd (GetPolicyState env k d)) = baselines d"
  "events (snd (ListNonCleanPolicyStates env d)) = events d"
  "findings (snd (ListNonCleanPolicyStates env d)) = findings d"
  "policies (snd (ListNonCleanPolicyStates env d)) = policies d"
  "baselines (snd (ListNonCleanPolicyStates env d)) = baselines d"
  "events (snd (GetBaseline env k d)) = events d"
  "findings (snd (GetBaseline env k d)) = findings d"
  "policies (snd (GetBaseline env k d)) = policies d"
  "baselines (snd (GetBaseline env k d)) = baselines d"
  unfolding GetPolicyState_def ListNonCleanPolicyStates_def GetBaseline_def
  by (rule exec_stmt_frame; simp)+

lemma InsertFinding_frame [db_frame, simp]:
  "events (snd (db_InsertFinding env a d)) = events d"
  "policies (snd (db_InsertFinding env a d)) = policies d"
  "baselines (snd (db_InsertFinding env a d)) = baselines d"
  unfolding db_InsertFinding_def by (rule exec_stmt_frame; simp add: Let_def)+

lemma OpenEvent_frame [db_frame, simp]:
  "findings (snd (OpenEvent env a d)) = findings d"
  "policies (snd (OpenEvent env a d)) = policies d"
  "baselines (snd (OpenEvent env a d)) = baselines d"
  unfolding OpenEvent_def by (rule exec_stmt_frame; simp add: Let_def)+

lemma Upsert_frame [db_frame, simp]:
  "events (snd (UpsertPolicyState env k p d)) = events d"
  "findings (snd (UpsertPolicyState env k p d)) = findings d"
  "baselines (snd (UpsertPolicyState env k p d)) = baselines d"
  "events (snd (UpsertBaseline env k st n t d)) = events d"
  "findings (snd (UpsertBaseline env k st n t d)) = findings d"
  "policies (snd (UpsertBaseline env k st n t d)) = policies d"
  unfolding UpsertPolicyState_def UpsertBaseline_def
  by (rule exec_stmt_frame; simp split: option.split)+

end
