(* ===== verification/Argus_Policy.thy ===== *)
theory Argus_Policy
  imports Argus_Bucket Argus_DB
begin

text \<open>
  The policy engine (\<^verbatim>\<open>services/argus/policy_engine.go\<close>): per series a status (clean,
  watching, firing, recovering), a leaky bucket, the findings waiting to be attached and the
  open event. \<open>ApplyFinding\<close> folds a finding in, \<open>Sweep\<close> lets time pass. Both run under the
  engine's mutex, so each is one step on the pair of in-memory states and database; a step
  that returns an error keeps the in-memory updates made before it, as the code, which
  mutates through pointers, does. The clock reading is an argument, and so is the order in
  which \<open>Sweep\<close> ranges over its map.
\<close>

section \<open>Data\<close>

definition PolicyStateStatusClean :: string where "PolicyStateStatusClean = ''clean''"
definition PolicyStateStatusWatching :: string where "PolicyStateStatusWatching = ''watching''"
definition PolicyStateStatusFiring :: string where "PolicyStateStatusFiring = ''firing''"
definition PolicyStateStatusRecovering :: string where "PolicyStateStatusRecovering = ''recovering''"

lemmas status_defs = PolicyStateStatusClean_def PolicyStateStatusWatching_def
  PolicyStateStatusFiring_def PolicyStateStatusRecovering_def

lemma status_distinct [simp]:
  "PolicyStateStatusClean \<noteq> PolicyStateStatusWatching" "PolicyStateStatusWatching \<noteq> PolicyStateStatusClean"
  "PolicyStateStatusClean \<noteq> PolicyStateStatusFiring" "PolicyStateStatusFiring \<noteq> PolicyStateStatusClean"
  "PolicyStateStatusClean \<noteq> PolicyStateStatusRecovering" "PolicyStateStatusRecovering \<noteq> PolicyStateStatusClean"
  "PolicyStateStatusWatching \<noteq> PolicyStateStatusFiring" "PolicyStateStatusFiring \<noteq> PolicyStateStatusWatching"
  "PolicyStateStatusWatching \<noteq> PolicyStateStatusRecovering" "PolicyStateStatusRecovering \<noteq> PolicyStateStatusWatching"
  "PolicyStateStatusFiring \<noteq> PolicyStateStatusRecovering" "PolicyStateStatusRecovering \<noteq> PolicyStateStatusFiring"
  by (simp_all add: status_defs)

record PendingFinding =
  pf_Id :: string
  pf_Finding :: "Finding option"

record PolicyState =
  Status :: string
  StatusUpdatedAt :: time
  Bucket :: BucketState
  OpenEventId :: "uuid option"
  PendingFindings :: "PendingFinding list"

record PolicyEngineConfig =
  cfg_HasQuery :: bool
  cfg_Bucket :: LeakyBucketConfiguration
  cfg_SweepInterval :: duration
  cfg_QuietPeriod :: duration
  cfg_ConfirmWindow :: duration

record PolicyEngine =
  bucket :: LeakyBucketConfiguration
  states :: "SeriesKey \<Rightarrow> PolicyState option"
  bucketSweepInterval :: duration
  confirmWindow :: duration
  quietPeriod :: duration

datatype policy_error =
    DbError db_error
  | BadUUID
  | BeginFailed
  | MissingOpenId
  | MarshalFailed
  | MissingQueries

definition NewPolicyEngine :: "PolicyEngineConfig \<Rightarrow> (policy_error, PolicyEngine) outcome" where
  "NewPolicyEngine cfg =
     (if \<not> cfg_HasQuery cfg then Err MissingQueries
      else Ret \<lparr>bucket = cfg_Bucket cfg, states = (\<lambda>_. None), bucketSweepInterval = cfg_SweepInterval cfg,
        confirmWindow = cfg_ConfirmWindow cfg, quietPeriod = cfg_QuietPeriod cfg\<rparr>)"

text \<open>The configuration of \<^verbatim>\<open>Argus.Start\<close> (\<^verbatim>\<open>services/argus/runner.go\<close>).\<close>

definition argus_policy_cfg :: PolicyEngineConfig where
  "argus_policy_cfg = \<lparr>cfg_HasQuery = True, cfg_Bucket = argus_bucket_cfg, cfg_SweepInterval = 30 * second,
     cfg_QuietPeriod = 120 * second, cfg_ConfirmWindow = 60 * second\<rparr>"

section \<open>Writing a state back\<close>

definition savePolicyState ::
  "db_env \<Rightarrow> SeriesKey \<Rightarrow> PolicyState \<Rightarrow> db \<Rightarrow> (policy_error, unit) outcome \<times> db" where
  "savePolicyState env sk st d =
     (case those (map (de_parse env \<circ> pf_Id) (PendingFindings st)) of
        None \<Rightarrow> (Err BadUUID, d)
      | Some ids \<Rightarrow>
          (case UpsertPolicyState env (key_of sk)
             \<lparr>ap_Status = Status st, ap_Score = Score (Bucket st),
              ap_ScoreUpdatedAt = ScoreUpdatedAt (Bucket st), ap_OpenEventID = OpenEventId st,
              ap_PendingFindings = ids, ap_EnteredStatusAt = StatusUpdatedAt st\<rparr> d of
             (Inl e, d') \<Rightarrow> (Err (DbError e), d')
           | (Inr _, d') \<Rightarrow> (Ret (), d')))"

definition attachFindingToEvent ::
  "db_env \<Rightarrow> uuid \<Rightarrow> uuid option \<Rightarrow> db \<Rightarrow> (policy_error, unit) outcome \<times> db" where
  "attachFindingToEvent env eid fid d =
     (case AttachFindingToEvent env (Some eid) fid d of
        (Inl e, d') \<Rightarrow> (Err (DbError e), d')
      | (Inr _, d') \<Rightarrow> (Ret (), d'))"

section \<open>Opening an event\<close>

definition peak_severity :: "Finding \<Rightarrow> PendingFinding list \<Rightarrow> float64" where
  "peak_severity finding pfs = foldl (\<lambda>peak pf.
     case pf_Finding pf of None \<Rightarrow> peak
     | Some f \<Rightarrow> if f_lt peak (fSeverity f) then fSeverity f else peak) (fSeverity finding) pfs"

text \<open>The loop over the pending findings inside the transaction.\<close>

fun attach_pending ::
  "db_env \<Rightarrow> uuid \<Rightarrow> PendingFinding list \<Rightarrow> db \<Rightarrow> (policy_error, unit) outcome \<times> db" where
  "attach_pending env eid [] d = (Ret (), d)"
| "attach_pending env eid (pf # pfs) d =
     (case de_parse env (pf_Id pf) of
        None \<Rightarrow> (Err BadUUID, d)
      | Some fid \<Rightarrow>
          (case AttachFindingToEvent env (Some eid) (Some fid) d of
             (Inl e, d') \<Rightarrow> (Err (DbError e), d')
           | (Inr _, d') \<Rightarrow> attach_pending env eid pfs d'))"

definition openEvent ::
  "db_env \<Rightarrow> SeriesKey \<Rightarrow> PolicyState \<Rightarrow> Finding \<Rightarrow> db
   \<Rightarrow> (policy_error, unit) outcome \<times> PolicyState \<times> db" where
  "openEvent env sk st finding d0 =
     (case Begin env d0 of
        (TxErr has_tx, d) \<Rightarrow>
          if has_tx then (Err BeginFailed, st, Rollback d d) else (Panic, st, d)
      | (TxOk, d) \<Rightarrow>
          (case OpenEvent env
             \<lparr>ev_ID = 0, ev_SerialID = sk_SerialId sk, ev_Target = sk_Target sk, ev_Port = sk_Port sk,
              ev_Metric = sk_Metric sk, ev_Status = ''open'', ev_OpenedAt = fTS finding,
              ev_LastSeenAt = fTS finding, ev_ClosedAt = None,
              ev_FindingCount = int32 (int (length (PendingFindings st))),
              ev_PeakSeverity = peak_severity finding (PendingFindings st),
              ev_Detectors = [sk_Detector sk]\<rparr> d of
             (Inl e, d1) \<Rightarrow> (Err (DbError e), st, Rollback d d1)
           | (Inr eid, d1) \<Rightarrow>
               (case attach_pending env eid (PendingFindings st) d1 of
                  (Err e, d2) \<Rightarrow> (Err e, st, Rollback d d2)
                | (Panic, d2) \<Rightarrow> (Panic, st, d2)
                | (Ret _, d2) \<Rightarrow>
                    (case de_parse env (de_string env eid) of
                       None \<Rightarrow> (Err BadUUID, st, Rollback d d2)
                     | Some u \<Rightarrow>
                         (case Commit env d d2 of
                            (Inl e, d3) \<Rightarrow> (Err (DbError e), st, d3)
                          | (Inr _, d3) \<Rightarrow>
                              (Ret (), st\<lparr>Status := PolicyStateStatusFiring, OpenEventId := Some u,
                                 PendingFindings := [], StatusUpdatedAt := fTS finding\<rparr>, d3))))))"

section \<open>Applying a finding\<close>

definition fresh_state :: "time \<Rightarrow> PolicyState" where
  "fresh_state now = \<lparr>Status = PolicyStateStatusClean, StatusUpdatedAt = now,
     Bucket = \<lparr>Score = Fin 0, ScoreUpdatedAt = time_zero\<rparr>, OpenEventId = None, PendingFindings = []\<rparr>"

definition load_state :: "db_env \<Rightarrow> ArgusPolicyState \<Rightarrow> PolicyState" where
  "load_state env row = \<lparr>Status = ap_Status row, StatusUpdatedAt = ap_EnteredStatusAt row,
     Bucket = \<lparr>Score = ap_Score row, ScoreUpdatedAt = ap_ScoreUpdatedAt row\<rparr>,
     OpenEventId = ap_OpenEventID row,
     PendingFindings = map (\<lambda>u. \<lparr>pf_Id = de_string env u, pf_Finding = None\<rparr>) (ap_PendingFindings row)\<rparr>"

text \<open>The state of a series: in memory, else from the database, else a fresh one.\<close>

definition lookup_state ::
  "db_env \<Rightarrow> time \<Rightarrow> PolicyEngine \<Rightarrow> SeriesKey \<Rightarrow> db \<Rightarrow> (policy_error, PolicyState) outcome \<times> db" where
  "lookup_state env now pe sk d =
     (case states pe sk of
        Some st \<Rightarrow> (Ret st, d)
      | None \<Rightarrow>
          (case GetPolicyState env (key_of sk) d of
             (Inl NoRows, d') \<Rightarrow> (Ret (fresh_state now), d')
           | (Inl e, d') \<Rightarrow> (Err (DbError e), d')
           | (Inr row, d') \<Rightarrow> (Ret (load_state env row), d')))"

text \<open>\<^verbatim>\<open>findingId.String()\<close>: the empty string for an invalid identifier.\<close>

definition id_string :: "db_env \<Rightarrow> uuid option \<Rightarrow> string" where
  "id_string env u = (case u of None \<Rightarrow> [] | Some v \<Rightarrow> de_string env v)"

text \<open>The switch on the status, after the bucket has been updated (\<open>upd\<close>).\<close>

definition apply_switch ::
  "db_env \<Rightarrow> SeriesKey \<Rightarrow> Finding \<Rightarrow> uuid option \<Rightarrow> BucketUpdate \<Rightarrow> PolicyState \<Rightarrow> db
   \<Rightarrow> (policy_error, unit) outcome \<times> PolicyState \<times> db" where
  "apply_switch env sk finding fid upd st d =
     (let pf = \<lparr>pf_Id = id_string env fid, pf_Finding = Some finding\<rparr> in
      if Status st = PolicyStateStatusClean then
        let st' = st\<lparr>Status := PolicyStateStatusWatching, StatusUpdatedAt := fTS finding,
                     PendingFindings := [pf]\<rparr>
        in if CrossedOpen upd then openEvent env sk st' finding d else (Ret (), st', d)
      else if Status st = PolicyStateStatusWatching then
        let st' = st\<lparr>PendingFindings := PendingFindings st @ [pf]\<rparr>
        in if CrossedOpen upd then openEvent env sk st' finding d else (Ret (), st', d)
      else if Status st = PolicyStateStatusFiring then
        (case OpenEventId st of
           None \<Rightarrow> (Err MissingOpenId, st, d)
         | Some eid \<Rightarrow> (case attachFindingToEvent env eid fid d of (r, d') \<Rightarrow> (r, st, d')))
      else if Status st = PolicyStateStatusRecovering then
        (case OpenEventId st of
           None \<Rightarrow> (Err MissingOpenId, st, d)
         | Some eid \<Rightarrow>
             (case attachFindingToEvent env eid fid d of
                (Ret _, d') \<Rightarrow> (Ret (), st\<lparr>Status := PolicyStateStatusFiring, StatusUpdatedAt := fTS finding\<rparr>, d')
              | (r, d') \<Rightarrow> (r, st, d')))
      else (Ret (), st, d))"

definition ApplyFinding ::
  "db_env \<Rightarrow> time \<Rightarrow> SeriesKey \<Rightarrow> Finding \<Rightarrow> uuid option \<Rightarrow> PolicyEngine \<Rightarrow> db
   \<Rightarrow> (policy_error, unit) outcome \<times> PolicyEngine \<times> db" where
  "ApplyFinding env now sk finding fid pe d =
     (case lookup_state env now pe sk d of
        (Err e, d1) \<Rightarrow> (Err e, pe, d1)
      | (Panic, d1) \<Rightarrow> (Panic, pe, d1)
      | (Ret st, d1) \<Rightarrow>
          (let upd = Add (bucket pe) (Bucket st) (fSeverity finding) (fTS finding);
               st1 = st\<lparr>Bucket := NewState upd\<rparr>
           in case apply_switch env sk finding fid upd st1 d1 of
                (Ret _, st2, d2) \<Rightarrow>
                  (case savePolicyState env sk st2 d2 of
                     (r, d3) \<Rightarrow> (r, pe\<lparr>states := (states pe)(sk \<mapsto> st2)\<rparr>, d3))
              | (r, st2, d2) \<Rightarrow> (r, pe\<lparr>states := (states pe)(sk \<mapsto> st2)\<rparr>, d2)))"

definition InsertFinding ::
  "db_env \<Rightarrow> SeriesKey \<Rightarrow> Finding \<Rightarrow> db \<Rightarrow> (policy_error, uuid option) outcome \<times> db" where
  "InsertFinding env sk finding d =
     (case details_json (fDetails finding) of
        None \<Rightarrow> (Err MarshalFailed, d)
      | Some j \<Rightarrow>
          (case db_InsertFinding env
             \<lparr>fi_ID = 0, fi_SerialID = sk_SerialId sk, fi_Target = sk_Target sk, fi_Port = sk_Port sk,
              fi_Metric = sk_Metric sk, fi_Detector = sk_Detector sk, fi_Ts = fTS finding,
              fi_Value = fValue finding, fi_Severity = fSeverity finding, fi_Details = j,
              fi_EventID = None\<rparr> d of
             (Inl e, d') \<Rightarrow> (Err (DbError e), d')
           | (Inr u, d') \<Rightarrow> (Ret (Some u), d')))"

section \<open>The sweep\<close>

text \<open>The key a row is hydrated under: the type and the source address are not filled in.\<close>

definition hydrate_key :: "row_key \<Rightarrow> SeriesKey" where
  "hydrate_key k = \<lparr>sk_Type = [], sk_SerialId = rk_SerialID k, sk_Target = rk_Target k, sk_SrcIP = [],
     sk_Port = rk_Port k, sk_Metric = rk_Metric k, sk_Detector = rk_Detector k\<rparr>"

definition hydrate ::
  "db_env \<Rightarrow> row_key \<times> ArgusPolicyState \<Rightarrow> (SeriesKey \<Rightarrow> PolicyState option) \<Rightarrow> SeriesKey \<Rightarrow> PolicyState option" where
  "hydrate env r sts =
     (let (k, row) = r; sk = hydrate_key k in
      if sts sk \<noteq> None then sts
      else case ap_OpenEventID row of
             None \<Rightarrow> sts(sk \<mapsto> load_state env row)
           | Some e \<Rightarrow>
               (case de_parse env (de_string env e) of
                  None \<Rightarrow> sts
                | Some u \<Rightarrow> sts(sk \<mapsto> (load_state env row)\<lparr>OpenEventId := Some u\<rparr>)))"

text \<open>One round of the loop: the decay, the switch, and the write; an error of
  \<open>CloseEvent\<close> ends the sweep, an error of the write does not.\<close>

definition sweep_switch ::
  "db_env \<Rightarrow> PolicyEngine \<Rightarrow> time \<Rightarrow> BucketUpdate \<Rightarrow> PolicyState \<Rightarrow> db
   \<Rightarrow> (policy_error, unit) outcome \<times> PolicyState \<times> db" where
  "sweep_switch env pe now upd st d =
     (if Status st = PolicyStateStatusWatching then
        if confirmWindow pe < time_sub now (StatusUpdatedAt st) then
          (Ret (), st\<lparr>Status := PolicyStateStatusClean, PendingFindings := [], StatusUpdatedAt := now,
             Bucket := \<lparr>Score = Fin 0, ScoreUpdatedAt = now\<rparr>\<rparr>, d)
        else (Ret (), st, d)
      else if Status st = PolicyStateStatusFiring then
        if CrossedClose upd then
          (Ret (), st\<lparr>Status := PolicyStateStatusRecovering, StatusUpdatedAt := now\<rparr>, d)
        else (Ret (), st, d)
      else if Status st = PolicyStateStatusRecovering then
        (case OpenEventId st of
           None \<Rightarrow> (Ret (), st, d)
         | Some eid \<Rightarrow>
             if quietPeriod pe < time_sub now (StatusUpdatedAt st) then
               (case CloseEvent env eid now d of
                  (Inl e, d') \<Rightarrow> (Err (DbError e), st, d')
                | (Inr _, d') \<Rightarrow>
                    (Ret (), st\<lparr>Status := PolicyStateStatusClean, OpenEventId := None,
                       PendingFindings := [], StatusUpdatedAt := now\<rparr>, d'))
             else (Ret (), st, d))
      else (Ret (), st, d))"

definition sweep_one ::
  "db_env \<Rightarrow> time \<Rightarrow> SeriesKey \<Rightarrow> PolicyState \<Rightarrow> PolicyEngine \<Rightarrow> db
   \<Rightarrow> (policy_error, unit) outcome \<times> PolicyEngine \<times> db" where
  "sweep_one env now sk st pe d =
     (let upd = Decay (bucket pe) (Bucket st) now;
          st1 = st\<lparr>Bucket := NewState upd\<rparr>
      in case sweep_switch env pe now upd st1 d of
           (Ret _, st2, d2) \<Rightarrow>
             (Ret (), pe\<lparr>states := (states pe)(sk \<mapsto> st2)\<rparr>, snd (savePolicyState env sk st2 d2))
         | (r, st2, d2) \<Rightarrow> (r, pe\<lparr>states := (states pe)(sk \<mapsto> st2)\<rparr>, d2))"

fun sweep_loop ::
  "db_env \<Rightarrow> time \<Rightarrow> SeriesKey list \<Rightarrow> PolicyEngine \<Rightarrow> db
   \<Rightarrow> (policy_error, unit) outcome \<times> PolicyEngine \<times> db" where
  "sweep_loop env now [] pe d = (Ret (), pe, d)"
| "sweep_loop env now (sk # sks) pe d =
     (case states pe sk of
        None \<Rightarrow> sweep_loop env now sks pe d
      | Some st \<Rightarrow>
          (case sweep_one env now sk st pe d of
             (Ret _, pe', d') \<Rightarrow> sweep_loop env now sks pe' d'
           | r \<Rightarrow> r))"

definition Sweep ::
  "db_env \<Rightarrow> time \<Rightarrow> SeriesKey list \<Rightarrow> PolicyEngine \<Rightarrow> db
   \<Rightarrow> (policy_error, unit) outcome \<times> PolicyEngine \<times> db" where
  "Sweep env now order pe d =
     (case ListNonCleanPolicyStates env d of
        (Inl e, d1) \<Rightarrow> (Err (DbError e), pe, d1)
      | (Inr rows, d1) \<Rightarrow>
          sweep_loop env now order (pe\<lparr>states := fold (hydrate env) rows (states pe)\<rparr>) d1)"

text \<open>\<^verbatim>\<open>Start\<close> sweeps once; its goroutine then sweeps at every tick (\<open>engine_step\<close> below).\<close>

definition Start ::
  "db_env \<Rightarrow> time \<Rightarrow> SeriesKey list \<Rightarrow> PolicyEngine \<Rightarrow> db
   \<Rightarrow> (policy_error, unit) outcome \<times> PolicyEngine \<times> db" where
  "Start env now order pe d = Sweep env now order pe d"

end
