(* ===== verification/Argus_Policy_Inv.thy ===== *)
theory Argus_Policy_Inv
  imports Argus_Policy
begin

text \<open>
  Invariants of the policy engine. \<open>state_ok\<close> ties the status of a series to its open event,
  its pending findings and its score; \<open>engine_inv\<close> asks it of every state in memory and of
  every row in the database, and \<open>db_ok\<close> is the integrity of the tables. Both hold along
  every run of \<open>engine_step\<close>: findings inserted and applied, sweeps at any time and in any
  order, any statement failing or its answer lost.
\<close>

definition state_ok :: "PolicyState \<Rightarrow> bool" where
  "state_ok st \<longleftrightarrow> score_ok (Bucket st) \<and>
     (Status st = PolicyStateStatusClean \<and> OpenEventId st = None \<and> PendingFindings st = []
    \<or> Status st = PolicyStateStatusWatching \<and> OpenEventId st = None \<and> PendingFindings st \<noteq> []
    \<or> Status st \<in> {PolicyStateStatusFiring, PolicyStateStatusRecovering}
        \<and> OpenEventId st \<noteq> None \<and> PendingFindings st = [])"

definition engine_inv :: "db_env \<Rightarrow> PolicyEngine \<Rightarrow> db \<Rightarrow> bool" where
  "engine_inv env pe d \<longleftrightarrow> bucket_cfg_ok (bucket pe)
     \<and> (\<forall>sk st. states pe sk = Some st \<longrightarrow> state_ok st)
     \<and> (\<forall>(k, row) \<in> set (policies d). state_ok (load_state env row))"

definition db_ok :: "db \<Rightarrow> bool" where
  "db_ok d \<longleftrightarrow> distinct (map fst (baselines d)) \<and> distinct (map fst (policies d))
     \<and> distinct (map ev_ID (events d)) \<and> distinct (map fi_ID (findings d))
     \<and> (\<forall>f \<in> set (findings d). \<forall>e. fi_EventID f = Some e \<longrightarrow> has_event d e)
     \<and> (\<forall>(k, p) \<in> set (policies d). \<forall>e. ap_OpenEventID p = Some e \<longrightarrow> has_event d e)"

definition finding_ok :: "Finding \<Rightarrow> bool" where
  "finding_ok f \<longleftrightarrow> wf64 (fSeverity f) \<and> fSeverity f \<noteq> NaN"

section \<open>The states in memory and in the rows\<close>

lemma load_state_simps [simp]:
  "Status (load_state env row) = ap_Status row" "OpenEventId (load_state env row) = ap_OpenEventID row"
  "PendingFindings (load_state env row) = [] \<longleftrightarrow> ap_PendingFindings row = []"
  "Bucket (load_state env row) = \<lparr>Score = ap_Score row, ScoreUpdatedAt = ap_ScoreUpdatedAt row\<rparr>"
  by (simp_all add: load_state_def)

lemma score_ok_stamp [simp]: "score_ok \<lparr>Score = s, ScoreUpdatedAt = t\<rparr> \<longleftrightarrow> wf64 s \<and> f_le (Fin 0) s"
  by (simp add: score_ok_def)

lemma fresh_state_ok [simp]: "state_ok (fresh_state now)"
  by (simp add: state_ok_def fresh_state_def)

text \<open>What a table change may do to the rows: keep them, or store an image of \<open>st\<close>.\<close>

definition rows_ok :: "db_env \<Rightarrow> db \<Rightarrow> bool" where
  "rows_ok env d \<longleftrightarrow> (\<forall>(k, row) \<in> set (policies d). state_ok (load_state env row))"

lemma set_alist_update: "set (AList.update k v xs) \<subseteq> insert (k, v) (set xs)"
  by (induction xs) auto

lemma save_rows:
  assumes "\<forall>(k, row) \<in> set (policies d). Q row"
    and "\<And>ids t u. length ids = length (PendingFindings st) \<Longrightarrow>
      Q \<lparr>ap_Status = Status st, ap_Score = Score (Bucket st), ap_ScoreUpdatedAt = t,
         ap_OpenEventID = OpenEventId st, ap_PendingFindings = ids, ap_EnteredStatusAt = u\<rparr>"
  shows "\<forall>(k, row) \<in> set (policies (snd (savePolicyState env sk st d))). Q row"
proof (cases "those (map (de_parse env \<circ> pf_Id) (PendingFindings st))")
  case (Some ids)
  define row where "row = \<lparr>ap_Status = Status st, ap_Score = Score (Bucket st),
    ap_ScoreUpdatedAt = ScoreUpdatedAt (Bucket st), ap_OpenEventID = OpenEventId st,
    ap_PendingFindings = ids, ap_EnteredStatusAt = StatusUpdatedAt st\<rparr>"
  let ?row = "row\<lparr>ap_ScoreUpdatedAt := de_ts env (ap_ScoreUpdatedAt row),
    ap_EnteredStatusAt := de_ts env (ap_EnteredStatusAt row)\<rparr>"
  have row: "Q ?row" using assms(2) [of ids] those_length [OF Some] by (simp add: row_def)
  have "\<forall>(k, row) \<in> set (policies (snd (UpsertPolicyState env (key_of sk) row d))). Q row"
    unfolding UpsertPolicyState_def
  proof (rule exec_stmt_keeps [where P = "\<lambda>d. \<forall>(k, row) \<in> set (policies d). Q row"])
    fix n and d' :: db assume d': "\<forall>(k, row) \<in> set (policies d'). Q row"
    then have "\<forall>(k, row) \<in> set (AList.update (key_of sk) ?row (policies d')). Q row"
      using row set_alist_update [of "key_of sk" ?row "policies d'"] by blast
    with d' show "\<forall>(k, row') \<in> set (policies (snd (if case ap_OpenEventID row of None \<Rightarrow> False | Some e \<Rightarrow> \<not> has_event d' e
        then (Inl ForeignKeyViolation, d')
        else (Inr (), d'\<lparr>policies := AList.update (key_of sk) ?row (policies d')\<rparr>)))). Q row'"
      by simp
  qed (use assms in auto)
  then show ?thesis using Some by (auto simp: savePolicyState_def row_def split: prod.splits sum.splits)
qed (use assms in \<open>simp add: savePolicyState_def\<close>)

lemma rows_ok_savePolicyState:
  assumes "rows_ok env d" "state_ok st"
  shows "rows_ok env (snd (savePolicyState env sk st d))"
  unfolding rows_ok_def
  by (rule save_rows) (use assms in \<open>auto simp: rows_ok_def state_ok_def score_ok_def\<close>)

lemma rows_ok_cong: "policies d' = policies d \<Longrightarrow> rows_ok env d' = rows_ok env d"
  by (simp add: rows_ok_def)

section \<open>One operation at a time\<close>

lemma AttachFindingToEvent_D:
  assumes "AttachFindingToEvent env e f d = (r, d')"
  shows "policies d' = policies d \<and> baselines d' = baselines d \<and> events d' = events d
    \<and> map fi_ID (findings d') = map fi_ID (findings d)"
  using AttachFindingToEvent_frame [of env e f d] assms by simp

lemma attach_pending_D:
  "attach_pending env eid pfs d = (r, d') \<Longrightarrow> policies d' = policies d \<and> baselines d' = baselines d
    \<and> events d' = events d \<and> map fi_ID (findings d') = map fi_ID (findings d)"
proof (induction pfs arbitrary: d)
  case (Cons pf pfs)
  show ?case
  proof (cases "de_parse env (pf_Id pf)")
    case (Some fid)
    obtain q d1 where q: "AttachFindingToEvent env (Some eid) (Some fid) d = (q, d1)" by fastforce
    note frame = AttachFindingToEvent_D [OF q]
    show ?thesis
    proof (cases q)
      case (Inr u)
      then have "attach_pending env eid pfs d1 = (r, d')" using Cons.prems Some q by simp
      then show ?thesis using Cons.IH frame by auto
    qed (use Cons.prems Some q frame in auto)
  qed (use Cons.prems in auto)
qed simp

lemma attach_pending_no_panic: "fst (attach_pending env eid pfs d) \<noteq> Panic"
  by (induction pfs arbitrary: d) (auto split: option.splits prod.splits sum.splits)

lemma Commit_tables:
  "policies saved = policies d \<Longrightarrow> policies (snd (Commit env saved d)) = policies d"
  "baselines saved = baselines d \<Longrightarrow> baselines (snd (Commit env saved d)) = baselines d"
  by (auto simp: Commit_def Let_def split: fault.splits)

text \<open>The outcomes of \<open>openEvent\<close>: it succeeds and the state fires, or the state is unchanged.\<close>

lemma openEvent_state:
  assumes "openEvent env sk st f d = (r, st', d')"
  shows "r = Ret () \<and> (\<exists>u. st' = st\<lparr>Status := PolicyStateStatusFiring, OpenEventId := Some u,
           PendingFindings := [], StatusUpdatedAt := fTS f\<rparr>)
       \<or> r \<noteq> Ret () \<and> st' = st"
  using assms unfolding openEvent_def
  by (auto split: prod.splits tx_begin.splits sum.splits outcome.splits option.splits if_splits)

lemma openEvent_frame:
  assumes "openEvent env sk st f d = (r, st', d')"
  shows "policies d' = policies d" "baselines d' = baselines d"
proof -
  have "policies d' = policies d \<and> baselines d' = baselines d"
  proof (cases "Begin env d")
    case (Pair b d1)
    then have d1: "policies d1 = policies d" "baselines d1 = baselines d" by (auto simp: Begin_def)
    show ?thesis
    proof (cases b)
      case TxOk
      let ?ev = "\<lparr>ev_ID = 0, ev_SerialID = sk_SerialId sk, ev_Target = sk_Target sk, ev_Port = sk_Port sk,
              ev_Metric = sk_Metric sk, ev_Status = ''open'', ev_OpenedAt = fTS f,
              ev_LastSeenAt = fTS f, ev_ClosedAt = None,
              ev_FindingCount = int32 (int (length (PendingFindings st))),
              ev_PeakSeverity = peak_severity f (PendingFindings st), ev_Detectors = [sk_Detector sk]\<rparr>"
      obtain o1 d2 where o1: "OpenEvent env ?ev d1 = (o1, d2)" by fastforce
      then have d2: "policies d2 = policies d1" "baselines d2 = baselines d1"
        using OpenEvent_frame(2,3) [of env ?ev d1] by simp_all
      show ?thesis
      proof (cases o1)
        case (Inr eid)
        obtain a d3 where a: "attach_pending env eid (PendingFindings st) d2 = (a, d3)" by fastforce
        then have d3: "policies d3 = policies d2" "baselines d3 = baselines d2"
          using attach_pending_D [OF a] by simp_all
        have "policies (snd (Commit env d1 d3)) = policies d1" "baselines (snd (Commit env d1 d3)) = baselines d1"
          using Commit_tables [of d1 d3 env] d2 d3 by auto
        with assms Pair TxOk o1 Inr a d1 d2 d3 show ?thesis
          by (cases "Commit env d1 d3")
             (auto simp: openEvent_def Rollback_def split: outcome.splits option.splits sum.splits)
      qed (use assms Pair TxOk o1 d1 in \<open>auto simp: openEvent_def Rollback_def\<close>)
    qed (use assms Pair d1 in \<open>auto simp: openEvent_def Rollback_def split: if_splits\<close>)
  qed
  then show "policies d' = policies d" "baselines d' = baselines d" by simp_all
qed

lemma attachFindingToEvent_D:
  assumes "attachFindingToEvent env eid fid d = (r, d')"
  shows "policies d' = policies d \<and> baselines d' = baselines d \<and> events d' = events d
    \<and> map fi_ID (findings d') = map fi_ID (findings d)"
  using assms
  by (cases "AttachFindingToEvent env (Some eid) fid d")
     (auto simp: attachFindingToEvent_def split: sum.splits dest: AttachFindingToEvent_D)

lemma apply_switch_frame:
  assumes "apply_switch env sk f fid upd st d = (r, st', d')"
  shows "policies d' = policies d \<and> baselines d' = baselines d"
proof (cases "\<exists>st1. openEvent env sk st1 f d = (r, st', d')")
  case True
  then show ?thesis using openEvent_frame by metis
next
  case False
  then show ?thesis
    using assms
    by (auto simp: apply_switch_def Let_def split: if_splits option.splits prod.splits outcome.splits
        dest: attachFindingToEvent_D)
qed

lemma apply_switch_ok:
  assumes "apply_switch env sk f fid upd st d = (r, st', d')" "state_ok st"
  shows "state_ok st'"
proof -
  consider "Status st = PolicyStateStatusClean" | "Status st = PolicyStateStatusWatching"
    | "Status st = PolicyStateStatusFiring" | "Status st = PolicyStateStatusRecovering"
    using assms(2) by (auto simp: state_ok_def)
  then show ?thesis
  proof cases
    case 1
    with assms show ?thesis
      by (auto simp: apply_switch_def Let_def state_ok_def split: if_splits dest!: openEvent_state)
  next
    case 2
    with assms show ?thesis
      by (auto simp: apply_switch_def Let_def state_ok_def split: if_splits dest!: openEvent_state)
  next
    case 3
    with assms show ?thesis
      by (auto simp: apply_switch_def state_ok_def split: prod.splits)
  next
    case 4
    with assms show ?thesis
      by (auto simp: apply_switch_def state_ok_def split: prod.splits outcome.splits)
  qed
qed

lemma lookup_state_ok:
  assumes "lookup_state env now pe sk d = (r, d')" "engine_inv env pe d"
  shows "policies d' = policies d \<and> baselines d' = baselines d \<and> (\<forall>st. r = Ret st \<longrightarrow> state_ok st)"
proof (cases "states pe sk")
  case None
  obtain g d1 where g: "GetPolicyState env (key_of sk) d = (g, d1)" by fastforce
  then have frame: "policies d1 = policies d" "baselines d1 = baselines d"
    using reads_frame(3,4) [of env "key_of sk" d] by simp_all
  have row: "state_ok (load_state env p)" if "GetPolicyState env (key_of sk) d = (Inr p, d1)" for p d1
  proof -
    have "map_of (policies d) (key_of sk) = Some p"
      using exec_stmt_Inr [OF that [unfolded GetPolicyState_def]] by (auto split: option.splits)
    then show ?thesis using assms(2) map_of_SomeD by (fastforce simp: engine_inv_def)
  qed
  show ?thesis
    using assms(1) None frame row g
    by (auto simp: lookup_state_def split: sum.splits db_error.splits)
qed (use assms in \<open>auto simp: lookup_state_def engine_inv_def\<close>)

lemma engine_inv_rows: "engine_inv env pe d \<longleftrightarrow> bucket_cfg_ok (bucket pe)
    \<and> (\<forall>sk st. states pe sk = Some st \<longrightarrow> state_ok st) \<and> rows_ok env d"
  by (simp add: engine_inv_def rows_ok_def)

lemma state_ok_bucket: "state_ok st \<Longrightarrow> score_ok b \<Longrightarrow> state_ok (st\<lparr>Bucket := b\<rparr>)"
  by (auto simp: state_ok_def)

lemma ApplyFinding_inv:
  assumes "engine_inv env pe d" "finding_ok f" "ApplyFinding env now sk f fid pe d = (r, pe', d')"
  shows "engine_inv env pe' d'"
proof -
  obtain l d1 where l: "lookup_state env now pe sk d = (l, d1)" by fastforce
  note ok = lookup_state_ok [OF l assms(1)]
  then have rows1: "rows_ok env d1" using assms(1) by (simp add: engine_inv_rows rows_ok_def)
  show ?thesis
  proof (cases l)
    case (Ret st)
    let ?upd = "Add (bucket pe) (Bucket st) (fSeverity f) (fTS f)"
    have st: "state_ok st" using ok Ret by simp
    then have "score_ok (NewState ?upd)"
      using assms(1,2) bucket_cfg_okD(1)
      by (intro Add_ok(1)) (auto simp: engine_inv_def finding_ok_def state_ok_def)
    then have st1: "state_ok (st\<lparr>Bucket := NewState ?upd\<rparr>)" by (rule state_ok_bucket [OF st])
    obtain s st2 d2 where s: "apply_switch env sk f fid ?upd (st\<lparr>Bucket := NewState ?upd\<rparr>) d1 = (s, st2, d2)"
      by (metis prod_cases3)
    have st2: "state_ok st2" by (rule apply_switch_ok [OF s st1])
    have rows2: "rows_ok env d2" using rows1 apply_switch_frame [OF s] by (simp add: rows_ok_def)
    have rows3: "rows_ok env (snd (savePolicyState env sk st2 d2))"
      by (rule rows_ok_savePolicyState [OF rows2 st2])
    show ?thesis
      using assms(1,3) l Ret s st2 rows2 rows3
      by (cases s) (auto simp: ApplyFinding_def Let_def engine_inv_rows split: prod.splits if_splits)
  qed (use assms l rows1 in \<open>auto simp: ApplyFinding_def engine_inv_rows\<close>)
qed

lemma CloseEvent_D:
  assumes "CloseEvent env e t d = (r, d')"
  shows "policies d' = policies d \<and> baselines d' = baselines d \<and> findings d' = findings d
    \<and> map ev_ID (events d') = map ev_ID (events d)"
  using CloseEvent_frame [of env e t d] assms by simp

lemma sweep_switch_D:
  assumes "sweep_switch env pe now upd st d = (r, st', d')"
  shows "policies d' = policies d \<and> baselines d' = baselines d \<and> findings d' = findings d
    \<and> map ev_ID (events d') = map ev_ID (events d) \<and> r \<noteq> Panic"
  using assms
  by (auto simp: sweep_switch_def split: if_splits option.splits prod.splits sum.splits dest!: CloseEvent_D)

lemma sweep_switch_ok:
  assumes "sweep_switch env pe now upd st d = (r, st', d')" "state_ok st"
  shows "state_ok st'"
  using assms
  by (auto simp: sweep_switch_def state_ok_def split: if_splits option.splits prod.splits sum.splits)

lemma sweep_one_inv:
  assumes "engine_inv env pe d" "state_ok st" "sweep_one env now sk st pe d = (r, pe', d')"
  shows "engine_inv env pe' d'"
proof -
  let ?upd = "Decay (bucket pe) (Bucket st) now"
  let ?st1 = "st\<lparr>Bucket := NewState ?upd\<rparr>"
  have "score_ok (NewState ?upd)"
    using assms(1,2) bucket_cfg_okD(1) by (intro Decay_ok) (auto simp: engine_inv_def state_ok_def)
  then have st1: "state_ok ?st1" by (rule state_ok_bucket [OF assms(2)])
  obtain s st2 d2 where s: "sweep_switch env pe now ?upd ?st1 d = (s, st2, d2)" by (metis prod_cases3)
  have st2: "state_ok st2" by (rule sweep_switch_ok [OF s st1])
  have rows2: "rows_ok env d2" using assms(1) sweep_switch_D [OF s] by (simp add: engine_inv_rows rows_ok_def)
  have rows3: "rows_ok env (snd (savePolicyState env sk st2 d2))"
    by (rule rows_ok_savePolicyState [OF rows2 st2])
  show ?thesis
    using assms(1,3) s st2 rows2 rows3
    by (cases s) (auto simp: sweep_one_def Let_def engine_inv_rows split: if_splits)
qed

lemma sweep_loop_inv:
  "engine_inv env pe d \<Longrightarrow> sweep_loop env now order pe d = (r, pe', d') \<Longrightarrow> engine_inv env pe' d'"
proof (induction order arbitrary: pe d)
  case (Cons sk order)
  show ?case
  proof (cases "states pe sk")
    case (Some st)
    obtain s pe1 d1 where s: "sweep_one env now sk st pe d = (s, pe1, d1)" by (metis prod_cases3)
    have "state_ok st" using Cons.prems(1) Some by (simp add: engine_inv_def)
    then have "engine_inv env pe1 d1" using sweep_one_inv [OF Cons.prems(1) _ s] by simp
    then show ?thesis using Cons.prems(2) Cons.IH Some s by (cases s) auto
  qed (use Cons in auto)
qed simp

lemma hydrate_ok:
  assumes "state_ok (load_state env (snd r))" "\<forall>sk st. sts sk = Some st \<longrightarrow> state_ok st"
  shows "\<forall>sk st. hydrate env r sts sk = Some st \<longrightarrow> state_ok st"
  using assms by (auto simp: hydrate_def Let_def state_ok_def split: prod.splits option.splits if_splits)

lemma fold_hydrate_ok:
  assumes "\<forall>(k, row) \<in> set rows. state_ok (load_state env row)" "\<forall>sk st. sts sk = Some st \<longrightarrow> state_ok st"
  shows "\<forall>sk st. fold (hydrate env) rows sts sk = Some st \<longrightarrow> state_ok st"
  using assms
proof (induction rows arbitrary: sts)
  case (Cons r rows)
  have "state_ok (load_state env (snd r))" "\<forall>(k, row) \<in> set rows. state_ok (load_state env row)"
    using Cons.prems(1) by (auto split: prod.splits)
  from Cons.IH [OF this(2) hydrate_ok [OF this(1) Cons.prems(2)]] show ?case
    by (simp only: fold_Cons comp_apply)
qed simp

lemma ListNonClean_D:
  assumes "ListNonCleanPolicyStates env d = (r, d')"
  shows "policies d' = policies d \<and> baselines d' = baselines d \<and> events d' = events d
    \<and> findings d' = findings d
    \<and> (\<forall>rows. r = Inr rows \<longrightarrow> rows = filter (\<lambda>(k, p). ap_Status p \<noteq> PolicyStateStatusClean) (policies d))"
proof -
  have "rows = filter (\<lambda>(k, p). ap_Status p \<noteq> PolicyStateStatusClean) (policies d)" if "r = Inr rows" for rows
    using assms that exec_stmt_Inr [of env _ d rows d']
    by (fastforce simp: ListNonCleanPolicyStates_def status_defs)
  then show ?thesis using reads_frame(5-8) [of env d] assms by simp
qed

lemma Sweep_inv:
  assumes "engine_inv env pe d" "Sweep env now order pe d = (r, pe', d')"
  shows "engine_inv env pe' d'"
proof -
  obtain q d1 where q: "ListNonCleanPolicyStates env d = (q, d1)" by fastforce
  note D = ListNonClean_D [OF q]
  show ?thesis
  proof (cases q)
    case (Inl e)
    then show ?thesis using assms q D by (auto simp: Sweep_def engine_inv_rows rows_ok_def)
  next
    case (Inr rows)
    have "\<forall>(k, row) \<in> set rows. state_ok (load_state env row)"
      using D Inr assms(1) by (auto simp: engine_inv_def)
    then have "engine_inv env (pe\<lparr>states := fold (hydrate env) rows (states pe)\<rparr>) d1"
      using fold_hydrate_ok [of rows env "states pe"] assms(1) D by (auto simp: engine_inv_rows rows_ok_def)
    then show ?thesis using assms(2) q Inr sweep_loop_inv by (simp add: Sweep_def)
  qed
qed

section \<open>Runs of the engine\<close>

text \<open>
  The worker inserts and applies findings, the ticker sweeps; a panic ends the process, so
  it has no successor. The sweep ranges over keys in any order, each at most once.
\<close>

inductive engine_step :: "db_env \<Rightarrow> PolicyEngine \<times> db \<Rightarrow> PolicyEngine \<times> db \<Rightarrow> bool" for env where
  insert: "InsertFinding env sk f d = (r, d') \<Longrightarrow> engine_step env (pe, d) (pe, d')"
| apply_finding: "finding_ok f \<Longrightarrow> ApplyFinding env now sk f fid pe d = (r, pe', d') \<Longrightarrow> r \<noteq> Panic
    \<Longrightarrow> engine_step env (pe, d) (pe', d')"
| sweep: "distinct order \<Longrightarrow> Sweep env now order pe d = (r, pe', d') \<Longrightarrow> engine_step env (pe, d) (pe', d')"
| baseline: "UpsertBaseline env k st n t d = (r', d') \<Longrightarrow> engine_step env (pe, d) (pe, d')"

inductive_cases engine_stepE: "engine_step env (pe, d) (pe', d')"

inductive engine_reach :: "db_env \<Rightarrow> PolicyEngine \<times> db \<Rightarrow> PolicyEngine \<times> db \<Rightarrow> bool" for env where
  refl: "engine_reach env s s"
| step: "engine_reach env s t \<Longrightarrow> engine_step env t u \<Longrightarrow> engine_reach env s u"

lemma db_InsertFinding_D:
  assumes "db_InsertFinding env a d = (r, d')"
  shows "policies d' = policies d \<and> baselines d' = baselines d \<and> events d' = events d"
  using InsertFinding_frame [of env a d] assms by simp

lemma InsertFinding_D:
  assumes "InsertFinding env sk f d = (r, d')"
  shows "policies d' = policies d \<and> baselines d' = baselines d \<and> events d' = events d"
  using assms
  by (auto simp: InsertFinding_def split: option.splits prod.splits sum.splits dest!: db_InsertFinding_D)

lemma UpsertBaseline_D:
  assumes "UpsertBaseline env k st n t d = (r, d')"
  shows "policies d' = policies d \<and> findings d' = findings d \<and> events d' = events d"
  using Upsert_frame(4-6) [of env k st n t d] assms by simp

lemma engine_step_inv:
  assumes "engine_step env (pe, d) (pe', d')" "engine_inv env pe d"
  shows "engine_inv env pe' d'"
  using assms(1)
proof (rule engine_stepE)
  show "engine_inv env pe' d'" if "InsertFinding env sk f d = (r, d')" "pe' = pe" for sk f and r :: "(policy_error, uuid option) outcome"
    using InsertFinding_D [OF that(1)] that(2) assms(2) by (simp add: engine_inv_rows rows_ok_def)
  show "engine_inv env pe' d'" if "UpsertBaseline env k st n t d = (r, d')" "pe' = pe" for k st n t r
    using UpsertBaseline_D [OF that(1)] that(2) assms(2) by (simp add: engine_inv_rows rows_ok_def)
  show "engine_inv env pe' d'" if "finding_ok f" "ApplyFinding env now sk f fid pe d = (r, pe', d')"
    for f now sk fid r by (rule ApplyFinding_inv [OF assms(2) that])
  show "engine_inv env pe' d'" if "Sweep env now order pe d = (r, pe', d')" for now order r
    by (rule Sweep_inv [OF assms(2) that])
qed

section \<open>Integrity of the tables\<close>

lemma has_event_cong: "map ev_ID (events d') = map ev_ID (events d) \<Longrightarrow> has_event d' = has_event d"
  by (rule ext) (metis has_event_def image_set)

lemma db_ok_stmts [simp]: "db_ok (d\<lparr>stmts := n\<rparr>) = db_ok d"
  by (simp add: db_ok_def has_event_def)

lemma db_ok_AttachFindingToEvent:
  assumes "db_ok d"
  shows "db_ok (snd (AttachFindingToEvent env eid fid d))"
  unfolding AttachFindingToEvent_def
proof (rule exec_stmt_keeps [where P = db_ok, OF assms])
  fix n d' assume d: "db_ok d'"
  let ?hit = "\<lambda>r :: ArgusFinding. Some (fi_ID r) = fid"
  let ?upd = "\<lambda>r :: ArgusFinding. if ?hit r then r\<lparr>fi_EventID := eid\<rparr> else r"
  have "map fi_ID (map ?upd (findings d')) = map fi_ID (findings d')" by simp
  then show "db_ok (snd (let hit = ?hit in
      if (\<exists>r \<in> set (findings d'). hit r) \<and> (case eid of None \<Rightarrow> False | Some e \<Rightarrow> \<not> has_event d' e)
      then (Inl ForeignKeyViolation, d')
      else (Inr (), d'\<lparr>findings := map (\<lambda>r. if hit r then r\<lparr>fi_EventID := eid\<rparr> else r) (findings d')\<rparr>)))"
    using d by (auto simp: db_ok_def Let_def has_event_def comp_def if_distrib cong: if_cong split: option.splits)
qed simp

lemma db_ok_CloseEvent: "db_ok d \<Longrightarrow> db_ok (snd (CloseEvent env eid t d))"
  using CloseEvent_frame [of env eid t d] has_event_cong [OF CloseEvent_frame(4) [of env eid t d]]
  by (simp add: db_ok_def)

lemma db_ok_same_ids:
  assumes "db_ok d" "policies d' = policies d" "baselines d' = baselines d" "events d' = events d" "findings d' = findings d"
  shows "db_ok d'"
  using assms by (simp add: db_ok_def has_event_def)

lemma db_ok_OpenEvent: "db_ok d \<Longrightarrow> db_ok (snd (OpenEvent env a d))"
  unfolding OpenEvent_def
  by (rule exec_stmt_keeps) (auto simp: db_ok_def has_event_def Let_def)

lemma db_ok_InsertFinding: "db_ok d \<Longrightarrow> db_ok (snd (db_InsertFinding env a d))"
  unfolding db_InsertFinding_def
  by (rule exec_stmt_keeps) (auto simp: db_ok_def has_event_def Let_def)

lemma db_ok_UpsertBaseline: "db_ok d \<Longrightarrow> db_ok (snd (UpsertBaseline env k st n t d))"
  unfolding UpsertBaseline_def
  by (rule exec_stmt_keeps) (auto simp: db_ok_def has_event_def distinct_update)

lemma db_ok_UpsertPolicyState: "db_ok d \<Longrightarrow> db_ok (snd (UpsertPolicyState env k p d))"
  unfolding UpsertPolicyState_def
proof (rule exec_stmt_keeps)
  fix n d'
  let ?p = "p\<lparr>ap_ScoreUpdatedAt := de_ts env (ap_ScoreUpdatedAt p),
            ap_EnteredStatusAt := de_ts env (ap_EnteredStatusAt p)\<rparr>"
  assume d': "db_ok d'"
  show "db_ok (snd (if case ap_OpenEventID p of None \<Rightarrow> False | Some e \<Rightarrow> \<not> has_event d' e
        then (Inl ForeignKeyViolation, d')
        else (Inr (), d'\<lparr>policies := AList.update k ?p (policies d')\<rparr>)))"
  proof (cases "case ap_OpenEventID p of None \<Rightarrow> False | Some e \<Rightarrow> \<not> has_event d' e")
    case False
    have "\<forall>e. ap_OpenEventID q = Some e \<longrightarrow> has_event d' e" if "(k', q) \<in> set (AList.update k ?p (policies d'))" for k' q
    proof -
      have "(k', q) = (k, ?p) \<or> (k', q) \<in> set (policies d')"
        using that set_alist_update [of k ?p "policies d'"] by blast
      then show ?thesis using False d' by (auto simp: db_ok_def)
    qed
    moreover have "has_event (d'\<lparr>policies := AList.update k ?p (policies d')\<rparr>) = has_event d'"
      by (rule has_event_cong) simp
    ultimately show ?thesis using False d' by (auto simp: db_ok_def distinct_update)
  qed (use d' in simp)
qed simp_all

lemma db_ok_savePolicyState:
  assumes "db_ok d" shows "db_ok (snd (savePolicyState env sk st d))"
proof (cases "those (map (de_parse env \<circ> pf_Id) (PendingFindings st))")
  case (Some ids)
  obtain r d' where "UpsertPolicyState env (key_of sk)
      \<lparr>ap_Status = Status st, ap_Score = Score (Bucket st),
       ap_ScoreUpdatedAt = ScoreUpdatedAt (Bucket st), ap_OpenEventID = OpenEventId st,
       ap_PendingFindings = ids, ap_EnteredStatusAt = StatusUpdatedAt st\<rparr> d = (r, d')" (is "?u = _")
    by fastforce
  moreover have "db_ok (snd ?u)" by (rule db_ok_UpsertPolicyState [OF assms])
  ultimately show ?thesis using Some by (auto simp: savePolicyState_def split: sum.splits)
qed (use assms in \<open>simp add: savePolicyState_def\<close>)

lemma db_ok_attach_pending:
  "db_ok d \<Longrightarrow> attach_pending env eid pfs d = (r, d') \<Longrightarrow> db_ok d'"
proof (induction pfs arbitrary: d)
  case (Cons pf pfs)
  show ?case
  proof (cases "de_parse env (pf_Id pf)")
    case (Some fid)
    obtain q d1 where q: "AttachFindingToEvent env (Some eid) (Some fid) d = (q, d1)" by fastforce
    then have "db_ok d1" using db_ok_AttachFindingToEvent [OF Cons.prems(1), of env "Some eid" "Some fid"] by simp
    then show ?thesis using Cons.prems(2) Cons.IH Some q by (cases q) auto
  qed (use Cons.prems in auto)
qed simp

lemma db_ok_Rollback: "db_ok saved \<Longrightarrow> db_ok (Rollback saved d)"
  by (simp add: Rollback_def)

lemma db_ok_Commit: "db_ok saved \<Longrightarrow> db_ok d \<Longrightarrow> db_ok (snd (Commit env saved d))"
  by (simp add: Commit_def Let_def split: fault.split)

lemma db_ok_openEvent:
  assumes "db_ok d" "openEvent env sk st f d = (r, st', d')"
  shows "db_ok d'"
proof -
  let ?ev = "\<lparr>ev_ID = 0, ev_SerialID = sk_SerialId sk, ev_Target = sk_Target sk, ev_Port = sk_Port sk,
          ev_Metric = sk_Metric sk, ev_Status = ''open'', ev_OpenedAt = fTS f,
          ev_LastSeenAt = fTS f, ev_ClosedAt = None,
          ev_FindingCount = int32 (int (length (PendingFindings st))),
          ev_PeakSeverity = peak_severity f (PendingFindings st), ev_Detectors = [sk_Detector sk]\<rparr>"
  obtain b d1 where b: "Begin env d = (b, d1)" by fastforce
  then have d1: "db_ok d1" using assms(1) by (auto simp: Begin_def)
  obtain o1 d2 where o1: "OpenEvent env ?ev d1 = (o1, d2)" by fastforce
  then have d2: "db_ok d2" using db_ok_OpenEvent [OF d1, of env ?ev] by simp
  have d3: "db_ok d3" if "attach_pending env eid (PendingFindings st) d2 = (a, d3)" for eid a d3
    by (rule db_ok_attach_pending [OF d2 that])
  have d4: "db_ok d4" if "attach_pending env eid (PendingFindings st) d2 = (a, d3)" "Commit env d1 d3 = (c, d4)"
    for eid a d3 c d4
    using db_ok_Commit [OF d1 d3 [OF that(1)], of env] that(2) by simp
  show ?thesis
    using assms(2) b o1 d1 d2 d3 d4
    by (auto simp: openEvent_def db_ok_Rollback split: tx_begin.splits if_splits sum.splits
        prod.splits outcome.splits option.splits)
qed

lemma db_ok_apply_switch:
  assumes "db_ok d" "apply_switch env sk f fid upd st d = (r, st', d')"
  shows "db_ok d'"
proof -
  have attach: "db_ok d2" if "attachFindingToEvent env e fid d = (q, d2)" for e q d2
    using that db_ok_AttachFindingToEvent [OF assms(1), of env "Some e" fid]
    by (cases "AttachFindingToEvent env (Some e) fid d") (auto simp: attachFindingToEvent_def split: sum.splits)
  show ?thesis
    using assms db_ok_openEvent [OF assms(1)] attach
    by (auto simp: apply_switch_def Let_def split: if_splits option.splits prod.splits outcome.splits)
qed

lemma db_ok_ApplyFinding:
  assumes "db_ok d" "ApplyFinding env now sk f fid pe d = (r, pe', d')"
  shows "db_ok d'"
proof -
  obtain l d1 where l: "lookup_state env now pe sk d = (l, d1)" by fastforce
  obtain g dg where g: "GetPolicyState env (key_of sk) d = (g, dg)" by fastforce
  then have "db_ok dg" using db_ok_same_ids [OF assms(1)] reads_frame(1-4) [of env "key_of sk" d] by simp
  then have d1: "db_ok d1" using l g assms(1)
    by (auto simp: lookup_state_def split: option.splits sum.splits db_error.splits)
  show ?thesis
  proof (cases l)
    case (Ret st)
    let ?upd = "Add (bucket pe) (Bucket st) (fSeverity f) (fTS f)"
    obtain s st2 d2 where s: "apply_switch env sk f fid ?upd (st\<lparr>Bucket := NewState ?upd\<rparr>) d1 = (s, st2, d2)"
      by (metis prod_cases3)
    have d2: "db_ok d2" by (rule db_ok_apply_switch [OF d1 s])
    show ?thesis
      using assms(2) l Ret s d2 db_ok_savePolicyState [OF d2, of env sk st2]
      by (cases s) (auto simp: ApplyFinding_def Let_def split: prod.splits)
  qed (use assms l d1 in \<open>auto simp: ApplyFinding_def\<close>)
qed

lemma db_ok_sweep_one:
  assumes "db_ok d" "sweep_one env now sk st pe d = (r, pe', d')"
  shows "db_ok d'"
proof -
  let ?upd = "Decay (bucket pe) (Bucket st) now"
  obtain s st2 d2 where s: "sweep_switch env pe now ?upd (st\<lparr>Bucket := NewState ?upd\<rparr>) d = (s, st2, d2)"
    by (metis prod_cases3)
  note D = sweep_switch_D [OF s]
  then have "has_event d2 = has_event d" by (intro has_event_cong) simp
  with assms(1) D have d2: "db_ok d2" by (simp add: db_ok_def)
  show ?thesis
    using assms(2) s d2 db_ok_savePolicyState [OF d2, of env sk st2]
    by (cases s) (auto simp: sweep_one_def Let_def)
qed

lemma db_ok_sweep_loop:
  "db_ok d \<Longrightarrow> sweep_loop env now order pe d = (r, pe', d') \<Longrightarrow> db_ok d'"
proof (induction order arbitrary: pe d)
  case (Cons sk order)
  show ?case
  proof (cases "states pe sk")
    case (Some st)
    obtain s pe1 d1 where s: "sweep_one env now sk st pe d = (s, pe1, d1)" by (metis prod_cases3)
    then have "db_ok d1" using db_ok_sweep_one Cons.prems(1) by blast
    then show ?thesis using Cons.prems(2) Cons.IH Some s by (cases s) auto
  qed (use Cons in auto)
qed simp

lemma db_ok_Sweep:
  assumes "db_ok d" "Sweep env now order pe d = (r, pe', d')"
  shows "db_ok d'"
proof -
  obtain q d1 where q: "ListNonCleanPolicyStates env d = (q, d1)" by fastforce
  then have "db_ok d1" using ListNonClean_D [OF q] db_ok_same_ids [OF assms(1)] by simp
  then show ?thesis using assms(2) q db_ok_sweep_loop by (cases q) (auto simp: Sweep_def)
qed

lemma db_ok_InsertFinding_policy:
  assumes "db_ok d" "InsertFinding env sk f d = (r, d')"
  shows "db_ok d'"
proof (cases "details_json (fDetails f)")
  case (Some j)
  obtain q d1 where q: "db_InsertFinding env
      \<lparr>fi_ID = 0, fi_SerialID = sk_SerialId sk, fi_Target = sk_Target sk, fi_Port = sk_Port sk,
       fi_Metric = sk_Metric sk, fi_Detector = sk_Detector sk, fi_Ts = fTS f,
       fi_Value = fValue f, fi_Severity = fSeverity f, fi_Details = j, fi_EventID = None\<rparr> d = (q, d1)"
    (is "?q = _") by fastforce
  moreover have "db_ok (snd ?q)" by (rule db_ok_InsertFinding [OF assms(1)])
  ultimately show ?thesis using assms(2) Some by (auto simp: InsertFinding_def split: sum.splits)
qed (use assms in \<open>auto simp: InsertFinding_def\<close>)

lemma engine_step_db_ok:
  assumes "engine_step env (pe, d) (pe', d')" "db_ok d"
  shows "db_ok d'"
  using assms(1)
proof (rule engine_stepE)
  show "db_ok d'" if "InsertFinding env sk f d = (r, d')" for sk f and r :: "(policy_error, uuid option) outcome"
    by (rule db_ok_InsertFinding_policy [OF assms(2) that])
  show "db_ok d'" if "UpsertBaseline env k st n t d = (r, d')" for k st n t r
    using db_ok_UpsertBaseline [OF assms(2), of env k st n t] that by simp
  show "db_ok d'" if "ApplyFinding env now sk f fid pe d = (r, pe', d')" for f now sk fid r
    by (rule db_ok_ApplyFinding [OF assms(2) that])
  show "db_ok d'" if "Sweep env now order pe d = (r, pe', d')" for now order r
    by (rule db_ok_Sweep [OF assms(2) that])
qed

text \<open>Every invariant of single steps is an invariant of runs.\<close>

lemma engine_reach_invariant:
  assumes "engine_reach env s t" "I s" "\<And>s t. engine_step env s t \<Longrightarrow> I s \<Longrightarrow> I t"
  shows "I t"
  using assms by (induction rule: engine_reach.induct) auto

section \<open>A concrete environment\<close>

text \<open>For the witnesses: nothing fails, identifiers count up, instants are stored exactly.\<close>

definition calm_env :: db_env where
  "calm_env = \<lparr>de_fault = (\<lambda>_. FNone), de_begin = (\<lambda>_. TxOk), de_uuid = of_nat, de_ts = id,
     de_string = (\<lambda>u. replicate (unat u) (CHR ''a'')), de_parse = (\<lambda>s. Some (of_nat (length s)))\<rparr>"

definition empty_db :: db where
  "empty_db = \<lparr>baselines = [], policies = [], events = [], findings = [], stmts = 0\<rparr>"

definition new_engine :: PolicyEngine where
  "new_engine = \<lparr>bucket = argus_bucket_cfg, states = (\<lambda>_. None), bucketSweepInterval = 30 * second,
     confirmWindow = 60 * second, quietPeriod = 120 * second\<rparr>"

lemma NewPolicyEngine_argus: "NewPolicyEngine argus_policy_cfg = Ret new_engine"
  by (simp add: NewPolicyEngine_def argus_policy_cfg_def new_engine_def)

definition demo_key :: SeriesKey where
  "demo_key = \<lparr>sk_Type = ''PING'', sk_SerialId = ''a1'', sk_Target = ''t'', sk_SrcIP = [], sk_Port = 0,
     sk_Metric = ''rtt_p95_ns'', sk_Detector = ''EWMA''\<rparr>"

definition demo_finding :: "time \<Rightarrow> real \<Rightarrow> Finding" where
  "demo_finding t s = \<lparr>fTS = t, fValue = Fin 1, fSeverity = Fin s, fDetails = NoDetails\<rparr>"

lemma calm_env_simps [simp]:
  "de_fault calm_env n = FNone" "de_begin calm_env n = TxOk" "de_uuid calm_env n = of_nat n"
  "de_ts calm_env t = t" "de_parse calm_env (de_string calm_env u) = Some u"
  by (simp_all add: calm_env_def)

lemma exec_calm [simp]: "exec_stmt calm_env q d = q (stmts d) (d\<lparr>stmts := Suc (stmts d)\<rparr>)"
  by (simp add: exec_stmt_def Let_def)

lemma drained_zero:
  assumes "time_zero \<le> t"
  shows "decayed_score argus_bucket_cfg \<lparr>Score = Fin 0, ScoreUpdatedAt = time_zero\<rparr> t = Fin 0"
proof -
  let ?st = "\<lparr>Score = Fin 0, ScoreUpdatedAt = time_zero\<rparr>"
  have "rate_ok (DecayPerSecond argus_bucket_cfg)" using bucket_cfg_okD(1) [OF argus_bucket_cfg_ok] .
  then have "f_le (decayed_score argus_bucket_cfg ?st t) (Fin 0)" "f_le (Fin 0) (decayed_score argus_bucket_cfg ?st t)"
    using decayed_score_le [of argus_bucket_cfg ?st t] decayed_score_ok [of argus_bucket_cfg ?st t] assms
    by (auto simp: score_ok_def)
  then show ?thesis by (rule f_le_antisym)
qed

definition firing_state :: PolicyState where
  "firing_state = \<lparr>Status = PolicyStateStatusFiring, StatusUpdatedAt = 0,
     Bucket = \<lparr>Score = Fin 12, ScoreUpdatedAt = 0\<rparr>, OpenEventId = Some 2, PendingFindings = []\<rparr>"

definition firing_engine :: PolicyEngine where
  "firing_engine = new_engine\<lparr>states := [demo_key \<mapsto> firing_state]\<rparr>"

text \<open>A severity 12 finding on an unknown series: it is opened at once.\<close>

lemma demo_fires:
  "\<exists>d. ApplyFinding calm_env 0 demo_key (demo_finding 0 12) (Some 7) new_engine empty_db
     = (Ret (), firing_engine, d) \<and> map ev_ID (events d) = [2]"
proof -
  have z: "time_zero \<le> 0" by (simp add: time_zero_def second_def)
  have "wf64 (Fin 12)" by (simp add: rnd_numeral)
  then have add: "Add argus_bucket_cfg \<lparr>Score = Fin 0, ScoreUpdatedAt = time_zero\<rparr> (Fin 12) 0 =
      \<lparr>NewState = \<lparr>Score = Fin 12, ScoreUpdatedAt = 0\<rparr>, Contribution = Fin 12, CrossedOpen = True, CrossedClose = False\<rparr>"
    unfolding Add_def Let_def drained_zero [OF z] using f_0_add [of "Fin 12"]
    by (simp add: argus_bucket_cfg_def del: f_add.simps)
  show ?thesis
    by (simp add: ApplyFinding_def lookup_state_def new_engine_def GetPolicyState_def empty_db_def
        fresh_state_def Let_def demo_finding_def add apply_switch_def openEvent_def Begin_def OpenEvent_def
        has_event_def id_string_def AttachFindingToEvent_def Commit_def savePolicyState_def
        UpsertPolicyState_def firing_state_def firing_engine_def fun_upd_def)
qed

lemma demo_reach:
  "\<exists>d. engine_reach calm_env (new_engine, empty_db) (firing_engine, d) \<and> map ev_ID (events d) = [2]"
proof -
  have ok: "finding_ok (demo_finding 0 12)" by (simp add: finding_ok_def demo_finding_def rnd_numeral)
  from demo_fires show ?thesis
  proof (elim exE conjE)
    fix d
    assume d: "ApplyFinding calm_env 0 demo_key (demo_finding 0 12) (Some 7) new_engine empty_db
      = (Ret (), firing_engine, d)" and ids: "map ev_ID (events d) = [2]"
    have "engine_reach calm_env (new_engine, empty_db) (firing_engine, d)"
      by (rule engine_reach.step [OF engine_reach.refl engine_step.apply_finding [OF ok d]]) simp
    with ids show ?thesis by (intro exI [of _ d] conjI)
  qed
qed

section \<open>Properties\<close>

text \<open>
  Property C1. In every run of the engine, whatever findings arrive, whenever sweeps happen and
  whichever statements fail, each series is in one of four shapes: clean with no event and
  nothing pending, watching with findings pending and no event, firing or recovering with an
  open event and nothing pending; its score is a nonnegative number. The rows stay so too.
\<close>

theorem policy_engine_invariant:
  assumes "NewPolicyEngine cfg = Ret pe0" "bucket_cfg_ok (cfg_Bucket cfg)" "rows_ok env d0"
    and "engine_reach env (pe0, d0) (pe, d)"
  shows "(\<forall>sk st. states pe sk = Some st \<longrightarrow> state_ok st) \<and> rows_ok env d"
proof -
  have "engine_inv env pe0 d0"
    using assms(1-3) by (auto simp: NewPolicyEngine_def engine_inv_rows split: if_splits)
  then have "case (pe, d) of (pe, d) \<Rightarrow> engine_inv env pe d"
    using engine_reach_invariant [OF assms(4), of "\<lambda>(pe, d). engine_inv env pe d"] engine_step_inv by auto
  then show ?thesis by (simp add: engine_inv_rows)
qed

theorem policy_engine_invariant_witness:
  "\<exists>d. engine_reach calm_env (new_engine, empty_db) (firing_engine, d) \<and> state_ok firing_state"
proof -
  obtain d where reach: "engine_reach calm_env (new_engine, empty_db) (firing_engine, d)"
    using demo_reach by blast
  have "(\<forall>sk st. states firing_engine sk = Some st \<longrightarrow> state_ok st) \<and> rows_ok calm_env d"
    by (rule policy_engine_invariant [OF NewPolicyEngine_argus _ _ reach])
       (simp_all add: argus_policy_cfg_def argus_bucket_cfg_ok rows_ok_def empty_db_def)
  then have "state_ok firing_state" by (simp add: firing_engine_def)
  with reach show ?thesis by blast
qed



end
