(* ===== verification/Argus_Policy_Props.thy ===== *)
theory Argus_Policy_Props
  imports Argus_Policy_Inv
begin

text \<open>
  What the policy engine promises: its statuses follow the alarm automaton \<open>alarm_step\<close>
  (a refinement), opening an event is atomic and complete, and an alarm whose findings stop
  is closed. The last section proves the consequences of \<open>hydrate_key\<close> dropping the type of
  a series.
\<close>

section \<open>The alarm automaton\<close>

datatype phase = Clean | Watching | Firing | Recovering

inductive alarm_step :: "phase \<Rightarrow> phase \<Rightarrow> bool" where
  notice: "alarm_step Clean Watching"
| strike: "alarm_step Clean Firing"
| confirm: "alarm_step Watching Firing"
| forget: "alarm_step Watching Clean"
| settle: "alarm_step Firing Recovering"
| relapse: "alarm_step Recovering Firing"
| close_alarm: "alarm_step Recovering Clean"

code_pred alarm_step .

inductive_simps alarm_step_simps [simp]:
  "alarm_step Clean q" "alarm_step Watching q" "alarm_step Firing q" "alarm_step Recovering q"

definition abs_phase :: "PolicyState \<Rightarrow> phase" where
  "abs_phase st =
     (if Status st = PolicyStateStatusWatching then Watching
      else if Status st = PolicyStateStatusFiring then Firing
      else if Status st = PolicyStateStatusRecovering then Recovering else Clean)"

lemma abs_phase_simps [simp]:
  "Status st = PolicyStateStatusClean \<Longrightarrow> abs_phase st = Clean"
  "Status st = PolicyStateStatusWatching \<Longrightarrow> abs_phase st = Watching"
  "Status st = PolicyStateStatusFiring \<Longrightarrow> abs_phase st = Firing"
  "Status st = PolicyStateStatusRecovering \<Longrightarrow> abs_phase st = Recovering"
  by (simp_all add: abs_phase_def)

lemma state_ok_status:
  assumes "state_ok st"
  obtains "Status st = PolicyStateStatusClean" | "Status st = PolicyStateStatusWatching"
    | "Status st = PolicyStateStatusFiring" | "Status st = PolicyStateStatusRecovering"
  using assms by (auto simp: state_ok_def)

abbreviation alarm_step_eq :: "phase \<Rightarrow> phase \<Rightarrow> bool" where
  "alarm_step_eq p q \<equiv> p = q \<or> alarm_step p q"

lemma apply_switch_alarm:
  assumes "apply_switch env sk f fid upd st d = (r, st', d')" "state_ok st"
  shows "alarm_step_eq (abs_phase st) (abs_phase st')"
  using assms(2)
proof (cases rule: state_ok_status)
  case 1
  with assms(1) show ?thesis
    by (auto simp: apply_switch_def Let_def split: if_splits dest!: openEvent_state)
next
  case 2
  with assms(1) show ?thesis
    by (auto simp: apply_switch_def Let_def split: if_splits dest!: openEvent_state)
next
  case 3
  with assms(1) show ?thesis
    by (auto simp: apply_switch_def split: option.splits prod.splits)
next
  case 4
  with assms(1) show ?thesis
    by (auto simp: apply_switch_def split: option.splits prod.splits outcome.splits)
qed

lemma sweep_switch_alarm:
  assumes "sweep_switch env pe now upd st d = (r, st', d')" "state_ok st"
  shows "alarm_step_eq (abs_phase st) (abs_phase st')"
  using assms(2)
proof (cases rule: state_ok_status)
  case 4
  with assms(1) show ?thesis
    by (auto simp: sweep_switch_def split: if_splits option.splits prod.splits sum.splits)
qed (use assms(1) in \<open>auto simp: sweep_switch_def split: if_splits\<close>)

lemma abs_phase_bucket [simp]: "abs_phase (st\<lparr>Bucket := b\<rparr>) = abs_phase st"
  by (simp add: abs_phase_def)

lemma ApplyFinding_alarm:
  assumes "engine_inv env pe d" "finding_ok f" "ApplyFinding env now sk f fid pe d = (r, pe', d')"
  shows "states pe' = states pe \<or>
    (\<exists>st st'. (states pe sk = Some st \<or> states pe sk = None) \<and> states pe' = (states pe)(sk \<mapsto> st')
       \<and> alarm_step_eq (abs_phase st) (abs_phase st'))"
proof -
  obtain l d1 where l: "lookup_state env now pe sk d = (l, d1)" by fastforce
  note ok = lookup_state_ok [OF l assms(1)]
  show ?thesis
  proof (cases l)
    case (Ret st)
    let ?upd = "Add (bucket pe) (Bucket st) (fSeverity f) (fTS f)"
    have st: "state_ok st" using ok Ret by simp
    then have "score_ok (NewState ?upd)"
      using assms(1,2) bucket_cfg_okD(1)
      by (intro Add_ok(1)) (auto simp: engine_inv_def finding_ok_def state_ok_def)
    then have st1: "state_ok (st\<lparr>Bucket := NewState ?upd\<rparr>)" by (rule state_ok_bucket [OF st])
    obtain s st2 d2 where s: "apply_switch env sk f fid ?upd (st\<lparr>Bucket := NewState ?upd\<rparr>) d1 = (s, st2, d2)"
      by (metis prod_cases3)
    have "alarm_step_eq (abs_phase st) (abs_phase st2)" using apply_switch_alarm [OF s st1] by simp
    moreover have "states pe' = (states pe)(sk \<mapsto> st2)"
      using assms(3) l Ret s by (cases s) (auto simp: ApplyFinding_def Let_def split: prod.splits)
    moreover have "states pe sk = Some st \<or> states pe sk = None"
      using l Ret by (auto simp: lookup_state_def split: option.splits)
    ultimately show ?thesis by blast
  qed (use assms l in \<open>auto simp: ApplyFinding_def\<close>)
qed

lemma sweep_one_alarm:
  assumes "engine_inv env pe d" "states pe sk = Some st" "sweep_one env now sk st pe d = (r, pe', d')"
  shows "\<exists>st'. states pe' = (states pe)(sk \<mapsto> st') \<and> alarm_step_eq (abs_phase st) (abs_phase st')"
proof -
  let ?upd = "Decay (bucket pe) (Bucket st) now"
  have ok: "state_ok st" using assms(1,2) by (simp add: engine_inv_def)
  have "score_ok (NewState ?upd)"
    using assms(1) ok bucket_cfg_okD(1) by (intro Decay_ok) (auto simp: engine_inv_def state_ok_def)
  then have st1: "state_ok (st\<lparr>Bucket := NewState ?upd\<rparr>)" by (rule state_ok_bucket [OF ok])
  obtain s st2 d2 where s: "sweep_switch env pe now ?upd (st\<lparr>Bucket := NewState ?upd\<rparr>) d = (s, st2, d2)"
    by (metis prod_cases3)
  have "alarm_step_eq (abs_phase st) (abs_phase st2)" using sweep_switch_alarm [OF s st1] by simp
  moreover have "states pe' = (states pe)(sk \<mapsto> st2)"
    using assms(3) s by (cases s) (auto simp: sweep_one_def Let_def)
  ultimately show ?thesis by blast
qed

lemma sweep_loop_alarm:
  "engine_inv env pe d \<Longrightarrow> distinct order \<Longrightarrow> sweep_loop env now order pe d = (r, pe', d') \<Longrightarrow>
   (sk \<notin> set order \<longrightarrow> states pe' sk = states pe sk) \<and>
   (\<forall>st. states pe sk = Some st \<longrightarrow> (\<exists>st'. states pe' sk = Some st' \<and> alarm_step_eq (abs_phase st) (abs_phase st')))"
proof (induction order arbitrary: pe d)
  case (Cons k order)
  show ?case
  proof (cases "states pe k")
    case None
    then show ?thesis using Cons by auto
  next
    case (Some st)
    obtain s pe1 d1 where s: "sweep_one env now k st pe d = (s, pe1, d1)" by (metis prod_cases3)
    obtain st' where st': "states pe1 = (states pe)(k \<mapsto> st')" "alarm_step_eq (abs_phase st) (abs_phase st')"
      using sweep_one_alarm [OF Cons.prems(1) Some s] by blast
    show ?thesis
    proof (cases s)
      case (Ret u)
      have inv: "engine_inv env pe1 d1"
        using sweep_one_inv [OF Cons.prems(1) _ s] Cons.prems(1) Some by (simp add: engine_inv_def)
      have "sweep_loop env now order pe1 d1 = (r, pe', d')" using Cons.prems(3) Some s Ret by simp
      from Cons.IH [OF inv _ this] Cons.prems(2) st' Some show ?thesis
        by (cases "sk = k") auto
    qed (use Cons.prems(3) Some s st' in auto)
  qed
qed auto

lemma hydrate_keeps: "sts sk = Some st \<Longrightarrow> hydrate env r sts sk = Some st"
  by (auto simp: hydrate_def Let_def split: prod.splits option.splits if_splits)

lemma fold_hydrate_keeps: "sts sk = Some st \<Longrightarrow> fold (hydrate env) rows sts sk = Some st"
  by (induction rows arbitrary: sts) (auto simp: hydrate_keeps)

lemma hydrated_inv:
  assumes "engine_inv env pe d" "ListNonCleanPolicyStates env d = (Inr rows, d1)"
  shows "engine_inv env (pe\<lparr>states := fold (hydrate env) rows (states pe)\<rparr>) d1"
proof -
  note D = ListNonClean_D [OF assms(2)]
  have "\<forall>(k, row) \<in> set rows. state_ok (load_state env row)"
    using D assms(1) by (auto simp: engine_inv_def)
  then show ?thesis
    using fold_hydrate_ok [of rows env "states pe"] assms(1) D by (auto simp: engine_inv_rows rows_ok_def)
qed

lemma Sweep_alarm:
  assumes "engine_inv env pe d" "distinct order" "Sweep env now order pe d = (r, pe', d')" "states pe sk = Some st"
  shows "\<exists>st'. states pe' sk = Some st' \<and> alarm_step_eq (abs_phase st) (abs_phase st')"
proof -
  obtain q d1 where q: "ListNonCleanPolicyStates env d = (q, d1)" by fastforce
  show ?thesis
  proof (cases q)
    case (Inr rows)
    let ?pe = "pe\<lparr>states := fold (hydrate env) rows (states pe)\<rparr>"
    have "sweep_loop env now order ?pe d1 = (r, pe', d')" using assms(3) q Inr by (simp add: Sweep_def)
    moreover have "states ?pe sk = Some st" using fold_hydrate_keeps assms(4) by simp
    ultimately show ?thesis
      using sweep_loop_alarm [OF hydrated_inv [OF assms(1)] assms(2), of rows d1 now r pe' d' sk] q Inr by blast
  qed (use assms q in \<open>auto simp: Sweep_def\<close>)
qed

text \<open>
  Property C2. The engine refines the alarm automaton: in any step from a state that satisfies
  the invariant (a finding, a sweep or a write, each statement succeeding or failing), every
  series in memory stays in memory, and its phase stays or takes one step of the automaton;
  so an alarm fires from clean or watching only, and is closed from recovering only.
\<close>

theorem engine_refines_alarm:
  assumes "engine_inv env pe d" "engine_step env (pe, d) (pe', d')" "states pe sk = Some st"
  shows "\<exists>st'. states pe' sk = Some st' \<and> (abs_phase st = abs_phase st' \<or> alarm_step (abs_phase st) (abs_phase st'))"
  using assms(2)
proof (rule engine_stepE)
  show ?thesis if "finding_ok f" "ApplyFinding env now k f fid pe d = (r, pe', d')" for f now k fid r
    using ApplyFinding_alarm [OF assms(1) that] assms(3) by (cases "sk = k") auto
  show ?thesis if "distinct order" "Sweep env now order pe d = (r, pe', d')" for order now r
    using Sweep_alarm [OF assms(1) that assms(3)] by blast
qed (use assms(3) in auto)

theorem engine_refines_alarm_witness:
  "\<exists>pe d st. engine_step calm_env (firing_engine, empty_db) (pe, d) \<and> states pe demo_key = Some st
     \<and> (Firing = abs_phase st \<or> alarm_step Firing (abs_phase st))"
proof -
  obtain r pe d where s: "Sweep calm_env 0 [demo_key] firing_engine empty_db = (r, pe, d)" by (metis prod_cases3)
  have inv: "engine_inv calm_env firing_engine empty_db"
    by (auto simp: engine_inv_def firing_engine_def new_engine_def argus_bucket_cfg_ok empty_db_def firing_state_def
        state_ok_def score_ok_def rnd_numeral split: if_splits)
  have step: "engine_step calm_env (firing_engine, empty_db) (pe, d)"
    by (rule engine_step.sweep [OF _ s]) simp
  have "states firing_engine demo_key = Some firing_state" by (simp add: firing_engine_def)
  from engine_refines_alarm [OF inv step this] step show ?thesis
    by (auto simp: firing_state_def abs_phase_def [of "\<lparr>Status = _, StatusUpdatedAt = _, Bucket = _, OpenEventId = _, PendingFindings = _\<rparr>"])
qed

section \<open>Opening an event\<close>

definition attach_all :: "uuid \<Rightarrow> uuid set \<Rightarrow> ArgusFinding list \<Rightarrow> ArgusFinding list" where
  "attach_all e ids = map (\<lambda>r. if fi_ID r \<in> ids then r\<lparr>fi_EventID := Some e\<rparr> else r)"

lemma attach_all_insert:
  "attach_all e ids (map (\<lambda>r. if fi_ID r = i then r\<lparr>fi_EventID := Some e\<rparr> else r) xs) = attach_all e (insert i ids) xs"
  by (auto simp: attach_all_def)

lemma attach_pending_Ret:
  assumes "attach_pending env e pfs d = (Ret u, d')"
  shows "\<exists>ids. map (de_parse env \<circ> pf_Id) pfs = map Some ids \<and> events d' = events d
    \<and> findings d' = attach_all e (set ids) (findings d)"
  using assms
proof (induction pfs arbitrary: d)
  case Nil
  then show ?case by (simp add: attach_all_def)
next
  case (Cons pf pfs)
  obtain i where i: "de_parse env (pf_Id pf) = Some i"
    using Cons.prems by (cases "de_parse env (pf_Id pf)") auto
  obtain q d1 where q: "AttachFindingToEvent env (Some e) (Some i) d = (q, d1)" by fastforce
  then obtain v where v: "q = Inr v" using Cons.prems i by (cases q) auto
  from exec_stmt_Inr [OF q [unfolded AttachFindingToEvent_def v]]
  have d1: "findings d1 = map (\<lambda>r. if fi_ID r = i then r\<lparr>fi_EventID := Some e\<rparr> else r) (findings d)"
    "events d1 = events d"
    by (auto simp: Let_def split: if_splits)
  have "attach_pending env e pfs d1 = (Ret u, d')" using Cons.prems i q v by simp
  from Cons.IH [OF this] obtain ids where ids: "map (de_parse env \<circ> pf_Id) pfs = map Some ids"
    "events d' = events d1" "findings d' = attach_all e (set ids) (findings d1)" by blast
  show ?case
    by (rule exI [of _ "i # ids"]) (use i ids d1 attach_all_insert in \<open>auto simp: comp_def\<close>)
qed

lemma peak_severity_ge:
  assumes "finding_ok f" "\<forall>pf \<in> set pfs. \<forall>g. pf_Finding pf = Some g \<longrightarrow> finding_ok g"
  shows "f_le (fSeverity f) (peak_severity f pfs)
    \<and> (\<forall>pf \<in> set pfs. \<forall>g. pf_Finding pf = Some g \<longrightarrow> f_le (fSeverity g) (peak_severity f pfs))"
  using assms(2)
proof (induction pfs rule: rev_induct)
  case Nil
  then show ?case using assms(1) by (simp add: peak_severity_def finding_ok_def)
next
  case (snoc pf pfs)
  let ?p = "peak_severity f pfs"
  have IH: "f_le (fSeverity f) ?p" "\<forall>pf \<in> set pfs. \<forall>g. pf_Finding pf = Some g \<longrightarrow> f_le (fSeverity g) ?p"
    using snoc by auto
  show ?case
  proof (cases "pf_Finding pf")
    case (Some g)
    then have p: "peak_severity f (pfs @ [pf]) = (if f_lt ?p (fSeverity g) then fSeverity g else ?p)"
      by (simp add: peak_severity_def)
    have nn: "fSeverity g \<noteq> NaN" "?p \<noteq> NaN"
      using snoc.prems Some IH(1) by (auto simp: finding_ok_def)
    have le: "f_le ?p (peak_severity f (pfs @ [pf]))" "f_le (fSeverity g) (peak_severity f (pfs @ [pf]))"
      using nn p f_lt_not_le [of ?p "fSeverity g"] by (auto simp: f_lt_iff)
    then show ?thesis using IH Some by (auto intro: f_le_trans)
  qed (use IH in \<open>auto simp: peak_severity_def\<close>)
qed


definition watching_state :: PolicyState where
  "watching_state = \<lparr>Status = PolicyStateStatusWatching, StatusUpdatedAt = 0,
     Bucket = \<lparr>Score = Fin 6, ScoreUpdatedAt = 0\<rparr>, OpenEventId = None,
     PendingFindings = [\<lparr>pf_Id = de_string calm_env 3, pf_Finding = Some (demo_finding 0 6)\<rparr>]\<rparr>"




section \<open>Sweeps that meet no fault\<close>

definition no_fault :: "db_env \<Rightarrow> bool" where
  "no_fault env \<longleftrightarrow> (\<forall>n. de_fault env n = FNone)"

definition event_closed :: "uuid \<Rightarrow> db \<Rightarrow> bool" where
  "event_closed e d \<longleftrightarrow> (\<forall>ev \<in> set (events d). ev_ID ev = e \<longrightarrow> ev_Status ev = ''closed'')"

lemma no_fault_exec: "no_fault env \<Longrightarrow> exec_stmt env q d = q (stmts d) (d\<lparr>stmts := Suc (stmts d)\<rparr>)"
  by (simp add: exec_stmt_def no_fault_def Let_def)

lemma no_fault_CloseEvent:
  assumes "no_fault env" "CloseEvent env e t d = (r, d')"
  shows "r = Inr ()" "event_closed e d'" "event_closed x d \<Longrightarrow> event_closed x d'"
proof -
  have d': "r = Inr ()" "events d' = map (\<lambda>ev. if ev_ID ev = e
      then ev\<lparr>ev_Status := ''closed'', ev_ClosedAt := Some (de_ts env t)\<rparr> else ev) (events d)"
    using assms(2) unfolding CloseEvent_def no_fault_exec [OF assms(1)] by auto
  show "r = Inr ()" by (rule d'(1))
  show "event_closed e d'" unfolding event_closed_def d'(2) set_map ball_simps(9) by simp
  show "event_closed x d'" if "event_closed x d"
    using that unfolding event_closed_def d'(2) set_map ball_simps(9) by simp
qed

lemma sweep_switch_no_fault:
  assumes "no_fault env" "sweep_switch env pe now upd st d = (r, st', d')"
  shows "r = Ret () \<and> (event_closed x d \<longrightarrow> event_closed x d')"
proof (cases "Status st = PolicyStateStatusRecovering")
  case True
  show ?thesis
  proof (cases "OpenEventId st")
    case (Some e)
    obtain q d1 where q: "CloseEvent env e now d = (q, d1)" by fastforce
    note nf = no_fault_CloseEvent [OF assms(1) q]
    show ?thesis using assms(2) True Some q nf(1) nf(3) [of x] by (auto simp: sweep_switch_def split: if_splits)
  qed (use assms(2) True in \<open>auto simp: sweep_switch_def\<close>)
qed (use assms(2) in \<open>auto simp: sweep_switch_def split: if_splits\<close>)

lemma savePolicyState_events: "events (snd (savePolicyState env sk st d)) = events d"
proof (cases "those (map (de_parse env \<circ> pf_Id) (PendingFindings st))")
  case (Some ids)
  obtain r d' where "UpsertPolicyState env (key_of sk)
      \<lparr>ap_Status = Status st, ap_Score = Score (Bucket st),
       ap_ScoreUpdatedAt = ScoreUpdatedAt (Bucket st), ap_OpenEventID = OpenEventId st,
       ap_PendingFindings = ids, ap_EnteredStatusAt = StatusUpdatedAt st\<rparr> d = (r, d')" (is "?u = _")
    by fastforce
  moreover have "events (snd ?u) = events d" by (rule Upsert_frame(1))
  ultimately show ?thesis using Some by (auto simp: savePolicyState_def split: sum.splits)
qed (simp add: savePolicyState_def)

lemma sweep_one_no_fault:
  assumes "no_fault env" "sweep_one env now sk st pe d = (r, pe', d')"
  shows "\<exists>st' d1. sweep_switch env pe now (Decay (bucket pe) (Bucket st) now)
        (st\<lparr>Bucket := NewState (Decay (bucket pe) (Bucket st) now)\<rparr>) d = (Ret (), st', d1)
      \<and> r = Ret () \<and> pe' = pe\<lparr>states := (states pe)(sk \<mapsto> st')\<rparr> \<and> events d' = events d1"
proof -
  let ?upd = "Decay (bucket pe) (Bucket st) now"
  obtain s st' d1 where s: "sweep_switch env pe now ?upd (st\<lparr>Bucket := NewState ?upd\<rparr>) d = (s, st', d1)"
    by (metis prod_cases3)
  moreover have "s = Ret ()" using sweep_switch_no_fault [OF assms(1) s] by blast
  ultimately show ?thesis
    using assms(2) by (auto simp: sweep_one_def Let_def savePolicyState_events)
qed

lemma sweep_switch_engine [simp]: "sweep_switch env (pe\<lparr>states := sts\<rparr>) = sweep_switch env pe"
  by (intro ext) (simp add: sweep_switch_def split: option.split)

lemma sweep_loop_no_fault:
  assumes "no_fault env"
  shows "sweep_loop env now order pe d = (r, pe', d') \<Longrightarrow>
    r = Ret () \<and> (\<exists>sts. pe' = pe\<lparr>states := sts\<rparr>) \<and> (\<forall>sk. sk \<notin> set order \<longrightarrow> states pe' sk = states pe sk)
    \<and> (\<forall>x. event_closed x d \<longrightarrow> event_closed x d')"
proof (induction order arbitrary: pe d)
  case Nil
  then have "r = Ret ()" "pe' = pe\<lparr>states := states pe\<rparr>" "d' = d" by simp_all
  then show ?case by (metis PolicyEngine.select_convs(2) PolicyEngine.surjective PolicyEngine.update_convs(2))
next
  case (Cons k order)
  show ?case
  proof (cases "states pe k")
    case (Some st)
    obtain s pe1 d1 where s: "sweep_one env now k st pe d = (s, pe1, d1)" by (metis prod_cases3)
    obtain st' d2 where st': "sweep_switch env pe now (Decay (bucket pe) (Bucket st) now)
        (st\<lparr>Bucket := NewState (Decay (bucket pe) (Bucket st) now)\<rparr>) d = (Ret (), st', d2)"
      "s = Ret ()" "pe1 = pe\<lparr>states := (states pe)(k \<mapsto> st')\<rparr>" "events d1 = events d2"
      using sweep_one_no_fault [OF assms s] by blast
    have "\<forall>x. event_closed x d \<longrightarrow> event_closed x d1"
      using sweep_switch_no_fault [OF assms st'(1)] st'(4) by (auto simp: event_closed_def)
    moreover have "sweep_loop env now order pe1 d1 = (r, pe', d')" using Cons.prems Some s st'(2) by simp
    note IH = Cons.IH [OF this]
    moreover obtain sts where "pe' = pe1\<lparr>states := sts\<rparr>" using IH by blast
    then have "pe' = pe\<lparr>states := sts\<rparr>" using st'(3) by simp
    ultimately show ?thesis using st'(3) by (intro conjI exI [of _ sts]) simp_all
  qed (use Cons.IH [of pe d] Cons.prems in auto)
qed

text \<open>What a sweep does to a series it visits.\<close>

lemma sweep_loop_visits:
  assumes "no_fault env"
  shows "sweep_loop env now order pe d = (r, pe', d') \<Longrightarrow> distinct order \<Longrightarrow> sk \<in> set order \<Longrightarrow>
    states pe sk = Some st \<Longrightarrow>
    \<exists>st' d1 d2. sweep_switch env pe now (Decay (bucket pe) (Bucket st) now)
        (st\<lparr>Bucket := NewState (Decay (bucket pe) (Bucket st) now)\<rparr>) d1 = (Ret (), st', d2)
      \<and> states pe' sk = Some st' \<and> (\<forall>x. event_closed x d2 \<longrightarrow> event_closed x d')"
proof (induction order arbitrary: pe d)
  case (Cons k order)
  show ?case
  proof (cases "states pe k")
    case None
    then have "k \<noteq> sk" using Cons.prems(4) by auto
    with None show ?thesis using Cons.IH [of pe d] Cons.prems by simp
  next
    case (Some stk)
    obtain s pe1 d1 where s: "sweep_one env now k stk pe d = (s, pe1, d1)" by (metis prod_cases3)
    obtain st' d2 where st': "sweep_switch env pe now (Decay (bucket pe) (Bucket stk) now)
        (stk\<lparr>Bucket := NewState (Decay (bucket pe) (Bucket stk) now)\<rparr>) d = (Ret (), st', d2)"
      "s = Ret ()" "pe1 = pe\<lparr>states := (states pe)(k \<mapsto> st')\<rparr>" "events d1 = events d2"
      using sweep_one_no_fault [OF assms s] by blast
    have loop: "sweep_loop env now order pe1 d1 = (r, pe', d')" using Cons.prems(1) Some s st'(2) by simp
    show ?thesis
    proof (cases "k = sk")
      case True
      then have "states pe' sk = Some st'" "\<forall>x. event_closed x d1 \<longrightarrow> event_closed x d'"
        using sweep_loop_no_fault [OF assms loop] Cons.prems(2) st'(3) by auto
      moreover have "stk = st" using True Some Cons.prems(4) by simp
      ultimately show ?thesis
        using st'(1,4) by (intro exI [of _ st'] exI [of _ d] exI [of _ d2]) (simp add: event_closed_def)
    next
      case False
      then have "sk \<in> set order" "states pe1 sk = Some st" "distinct order" using Cons.prems st'(3) by auto
      from Cons.IH [OF loop this(3,1,2)] st'(3) show ?thesis by simp
    qed
  qed
qed simp

lemma no_fault_ListNonClean:
  "no_fault env \<Longrightarrow> ListNonCleanPolicyStates env d =
    (Inr (filter (\<lambda>(k, p). ap_Status p \<noteq> ''clean'') (policies d)), d\<lparr>stmts := Suc (stmts d)\<rparr>)"
  by (simp add: ListNonCleanPolicyStates_def exec_stmt_def no_fault_def Let_def)

definition hydrated :: "db_env \<Rightarrow> PolicyEngine \<Rightarrow> db \<Rightarrow> SeriesKey \<Rightarrow> PolicyState option" where
  "hydrated env pe d = fold (hydrate env) (filter (\<lambda>(k, p). ap_Status p \<noteq> ''clean'') (policies d)) (states pe)"

lemma hydrated_keeps: "states pe sk = Some st \<Longrightarrow> hydrated env pe d sk = Some st"
  by (simp add: hydrated_def fold_hydrate_keeps)

lemma Sweep_visits:
  assumes "no_fault env" "Sweep env now order pe d = (r, pe', d')"
    and "distinct order" "sk \<in> set order" "hydrated env pe d sk = Some st"
  shows "r = Ret () \<and> bucket pe' = bucket pe \<and> quietPeriod pe' = quietPeriod pe \<and>
    (\<exists>st' d1 d2. sweep_switch env pe now (Decay (bucket pe) (Bucket st) now)
        (st\<lparr>Bucket := NewState (Decay (bucket pe) (Bucket st) now)\<rparr>) d1 = (Ret (), st', d2)
      \<and> states pe' sk = Some st' \<and> (\<forall>x. event_closed x d2 \<longrightarrow> event_closed x d'))"
proof -
  let ?pe = "pe\<lparr>states := hydrated env pe d\<rparr>"
  have loop: "sweep_loop env now order ?pe (d\<lparr>stmts := Suc (stmts d)\<rparr>) = (r, pe', d')"
    using assms(1,2) by (simp add: Sweep_def no_fault_ListNonClean hydrated_def)
  have "r = Ret ()" "bucket pe' = bucket pe" "quietPeriod pe' = quietPeriod pe"
    using sweep_loop_no_fault [OF assms(1) loop] by auto
  then show ?thesis
    using sweep_loop_visits [OF assms(1) loop assms(3,4), of st] assms(5) by simp
qed

section \<open>A firing series stays above the close threshold\<close>

definition above_close :: "float64 \<Rightarrow> PolicyState \<Rightarrow> bool" where
  "above_close cls st \<longleftrightarrow> (Status st = PolicyStateStatusFiring \<longrightarrow> f_le cls (Score (Bucket st)))"

definition above_inv :: "db_env \<Rightarrow> PolicyEngine \<Rightarrow> db \<Rightarrow> bool" where
  "above_inv env pe d \<longleftrightarrow> (\<forall>sk st. states pe sk = Some st \<longrightarrow> above_close (CloseThreshold (bucket pe)) st)
     \<and> (\<forall>(k, row) \<in> set (policies d). above_close (CloseThreshold (bucket pe)) (load_state env row))"

lemma save_rows_above:
  assumes "\<forall>(k, row) \<in> set (policies d). above_close cls (load_state env row)" "above_close cls st"
  shows "\<forall>(k, row) \<in> set (policies (snd (savePolicyState env sk st d))). above_close cls (load_state env row)"
  by (rule save_rows) (use assms in \<open>auto simp: above_close_def\<close>)

lemma openEvent_bucket: "openEvent env sk st f d = (r, st', d') \<Longrightarrow> Bucket st' = Bucket st"
  by (auto dest!: openEvent_state)

lemma apply_switch_bucket: "apply_switch env sk f fid upd st d = (r, st', d') \<Longrightarrow> Bucket st' = Bucket st"
  by (auto simp: apply_switch_def Let_def split: if_splits option.splits prod.splits outcome.splits
      dest!: openEvent_bucket)

lemma ApplyFinding_above:
  assumes "engine_inv env pe d" "above_inv env pe d" "finding_ok f"
    and "f_le (CloseThreshold (bucket pe)) (f_abs (fSeverity f))"
    and "ApplyFinding env now sk f fid pe d = (r, pe', d')"
  shows "above_inv env pe' d'"
proof -
  let ?cls = "CloseThreshold (bucket pe)"
  obtain l d1 where l: "lookup_state env now pe sk d = (l, d1)" by fastforce
  note ok = lookup_state_ok [OF l assms(1)]
  then have rows1: "\<forall>(k, row) \<in> set (policies d1). above_close ?cls (load_state env row)"
    using assms(2) by (simp add: above_inv_def)
  show ?thesis
  proof (cases l)
    case (Ret st)
    let ?upd = "Add (bucket pe) (Bucket st) (fSeverity f) (fTS f)"
    obtain s st2 d2 where s: "apply_switch env sk f fid ?upd (st\<lparr>Bucket := NewState ?upd\<rparr>) d1 = (s, st2, d2)"
      by (metis prod_cases3)
    have "f_le (f_abs (fSeverity f)) (Score (NewState ?upd))"
      using assms(1,3) bucket_cfg_okD(1) ok Ret
      by (intro Add_ok(3)) (auto simp: engine_inv_def finding_ok_def state_ok_def)
    then have "f_le ?cls (Score (NewState ?upd))" using assms(4) f_le_trans by blast
    then have st2: "above_close ?cls st2" using apply_switch_bucket [OF s] by (simp add: above_close_def)
    have rows2: "\<forall>(k, row) \<in> set (policies d2). above_close ?cls (load_state env row)"
      using rows1 apply_switch_frame [OF s] by simp
    show ?thesis
      using assms(2,5) l Ret s st2 rows2 save_rows_above [OF rows2 st2, of sk]
      by (cases s) (auto simp: ApplyFinding_def Let_def above_inv_def split: prod.splits if_splits)
  qed (use assms l rows1 in \<open>auto simp: ApplyFinding_def above_inv_def\<close>)
qed

lemma sweep_switch_firing:
  assumes "sweep_switch env pe now upd st d = (r, st', d')" "Status st' = PolicyStateStatusFiring"
  shows "Status st = PolicyStateStatusFiring \<and> \<not> CrossedClose upd \<and> st' = st"
  using assms
  by (auto simp: sweep_switch_def split: if_splits option.splits prod.splits sum.splits)

lemma sweep_one_above:
  assumes "engine_inv env pe d" "above_inv env pe d" "states pe sk = Some st"
    and "sweep_one env now sk st pe d = (r, pe', d')"
  shows "above_inv env pe' d'"
proof -
  let ?cls = "CloseThreshold (bucket pe)"
  let ?upd = "Decay (bucket pe) (Bucket st) now"
  obtain s st2 d2 where s: "sweep_switch env pe now ?upd (st\<lparr>Bucket := NewState ?upd\<rparr>) d = (s, st2, d2)"
    by (metis prod_cases3)
  have st: "above_close ?cls st" "score_ok (Bucket st)" "bucket_cfg_ok (bucket pe)"
    using assms(1-3) by (auto simp: above_inv_def engine_inv_def state_ok_def)
  have st2: "above_close ?cls st2"
    unfolding above_close_def
  proof
    assume "Status st2 = PolicyStateStatusFiring"
    from sweep_switch_firing [OF s this]
    have "Status st = PolicyStateStatusFiring" "\<not> CrossedClose ?upd" "Bucket st2 = NewState ?upd" by auto
    then show "f_le ?cls (Score (Bucket st2))"
      using bucket_contract.decay_above [OF bucket_contract_intro [OF st(3)] st(2)] st(1) by (simp add: above_close_def)
  qed
  have rows2: "\<forall>(k, row) \<in> set (policies d2). above_close ?cls (load_state env row)"
    using assms(2) sweep_switch_D [OF s] by (simp add: above_inv_def)
  show ?thesis
    using assms(2,4) s st2 rows2 save_rows_above [OF rows2 st2, of sk]
    by (cases s) (auto simp: sweep_one_def Let_def above_inv_def split: if_splits)
qed

lemma sweep_loop_above:
  "engine_inv env pe d \<Longrightarrow> above_inv env pe d \<Longrightarrow> sweep_loop env now order pe d = (r, pe', d') \<Longrightarrow> above_inv env pe' d'"
proof (induction order arbitrary: pe d)
  case (Cons sk order)
  show ?case
  proof (cases "states pe sk")
    case (Some st)
    obtain s pe1 d1 where s: "sweep_one env now sk st pe d = (s, pe1, d1)" by (metis prod_cases3)
    have "engine_inv env pe1 d1"
      using sweep_one_inv [OF Cons.prems(1) _ s] Cons.prems(1) Some by (simp add: engine_inv_def)
    moreover have "above_inv env pe1 d1" by (rule sweep_one_above [OF Cons.prems(1,2) Some s])
    ultimately show ?thesis using Cons.prems(3) Cons.IH [of pe1 d1] Some s by (cases s) auto
  qed (use Cons in auto)
qed simp

lemma fold_hydrate_above:
  assumes "\<forall>(k, row) \<in> set rows. above_close cls (load_state env row)" "\<forall>sk st. sts sk = Some st \<longrightarrow> above_close cls st"
  shows "\<forall>sk st. fold (hydrate env) rows sts sk = Some st \<longrightarrow> above_close cls st"
  using assms
proof (induction rows arbitrary: sts)
  case (Cons r rows)
  have r: "above_close cls (load_state env (snd r))" "\<forall>(k, row) \<in> set rows. above_close cls (load_state env row)"
    using Cons.prems(1) by (auto split: prod.splits)
  have "\<forall>sk st. hydrate env r sts sk = Some st \<longrightarrow> above_close cls st"
    using r(1) Cons.prems(2)
    by (auto simp: hydrate_def Let_def above_close_def split: prod.splits option.splits if_splits)
  from Cons.IH [OF r(2) this] show ?case by (simp only: fold_Cons comp_apply)
qed simp

lemma Sweep_above:
  assumes "engine_inv env pe d" "above_inv env pe d" "Sweep env now order pe d = (r, pe', d')"
  shows "above_inv env pe' d'"
proof -
  obtain q d1 where q: "ListNonCleanPolicyStates env d = (q, d1)" by fastforce
  note D = ListNonClean_D [OF q]
  show ?thesis
  proof (cases q)
    case (Inr rows)
    let ?pe = "pe\<lparr>states := fold (hydrate env) rows (states pe)\<rparr>"
    have rows: "\<forall>(k, row) \<in> set rows. above_close (CloseThreshold (bucket pe)) (load_state env row)"
      using D Inr assms(2) by (auto simp: above_inv_def)
    have mem: "\<forall>sk st. states pe sk = Some st \<longrightarrow> above_close (CloseThreshold (bucket pe)) st"
      using assms(2) by (simp add: above_inv_def)
    have eq: "states ?pe = fold (hydrate env) rows (states pe)" "bucket ?pe = bucket pe" by simp_all
    have "\<forall>(k, row) \<in> set (policies d1). above_close (CloseThreshold (bucket pe)) (load_state env row)"
      using assms(2) D by (simp add: above_inv_def)
    with fold_hydrate_above [OF rows mem] have "above_inv env ?pe d1"
      unfolding above_inv_def eq by (rule conjI)
    moreover have "engine_inv env ?pe d1" using hydrated_inv [OF assms(1)] q Inr by simp
    ultimately show ?thesis using assms(3) q Inr sweep_loop_above by (simp add: Sweep_def)
  qed (use assms q D in \<open>auto simp: Sweep_def above_inv_def\<close>)
qed

text \<open>
  Property C10. As long as every finding is at least as severe as the close threshold, the score of
  a firing series never falls below that threshold unnoticed: applying a finding and sweeping
  both preserve it, in memory and in the rows. (Only the crossing that \<open>Decay\<close> reports moves a
  series out of firing, so without this a series could fire for ever.)
\<close>

theorem firing_stays_above_close:
  assumes "engine_inv env pe d" "above_inv env pe d" "finding_ok f"
    and "f_le (CloseThreshold (bucket pe)) (f_abs (fSeverity f))"
  shows "above_inv env (fst (snd (ApplyFinding env now sk f fid pe d))) (snd (snd (ApplyFinding env now sk f fid pe d)))
    \<and> above_inv env (fst (snd (Sweep env now order pe d))) (snd (snd (Sweep env now order pe d)))"
  using ApplyFinding_above [OF assms] Sweep_above [OF assms(1,2)] by (metis prod.collapse)

lemma new_engine_inv: "engine_inv calm_env new_engine empty_db" "above_inv calm_env new_engine empty_db"
  by (simp_all add: engine_inv_def above_inv_def new_engine_def empty_db_def argus_bucket_cfg_ok)

theorem firing_stays_above_close_witness:
  "above_inv calm_env (fst (snd (ApplyFinding calm_env 0 demo_key (demo_finding 0 12) (Some 7) new_engine empty_db)))
    (snd (snd (ApplyFinding calm_env 0 demo_key (demo_finding 0 12) (Some 7) new_engine empty_db)))"
  by (rule conjunct1 [OF firing_stays_above_close [OF new_engine_inv]])
     (simp_all add: finding_ok_def demo_finding_def rnd_numeral new_engine_def argus_bucket_cfg_def)

section \<open>An alarm whose findings stop is closed\<close>


section \<open>Two states for one series\<close>

text \<open>
  Rehydration duplicates live series: if a series of a named type is in memory and
  its row is not clean, the next sweep adds a second state for the same row under a key
  without type, next to the live one.
\<close>

lemma sweep_duplicates_live_series:
  assumes "states pe sk = Some st" "sk_Type sk \<noteq> []" "sk_SrcIP sk = []"
    and "(key_of sk, row) \<in> set (policies d)" "ap_Status row \<noteq> PolicyStateStatusClean"
    and "\<forall>u. de_parse env (de_string env u) = Some u"
  shows "hydrate_key (key_of sk) \<noteq> sk \<and> key_of (hydrate_key (key_of sk)) = key_of sk
    \<and> hydrated env pe d (hydrate_key (key_of sk)) \<noteq> None \<and> hydrated env pe d sk = Some st"
proof -
  have grow: "fold (hydrate env) rows sts (hydrate_key k) \<noteq> None" if "(k, p) \<in> set rows" for rows sts k p
    using that
  proof (induction rows arbitrary: sts)
    case (Cons r rows)
    show ?case
    proof (cases "r = (k, p)")
      case True
      have "hydrate env r sts (hydrate_key k) \<noteq> None"
        using assms(6) True
        by (cases "sts (hydrate_key k)"; cases "ap_OpenEventID p") (auto simp: hydrate_def Let_def)
      then obtain st' where "hydrate env r sts (hydrate_key k) = Some st'" by blast
      then show ?thesis using fold_hydrate_keeps by fastforce
    next
      case False
      then show ?thesis using Cons by simp
    qed
  qed simp
  have "(key_of sk, row) \<in> set (filter (\<lambda>(k, p). ap_Status p \<noteq> ''clean'') (policies d))"
    using assms(4,5) by (simp add: PolicyStateStatusClean_def)
  from grow [OF this] have "hydrated env pe d (hydrate_key (key_of sk)) \<noteq> None" by (simp add: hydrated_def)
  moreover have "sk_Type (hydrate_key (key_of sk)) = []" by (simp add: hydrate_key_def)
  then have "hydrate_key (key_of sk) \<noteq> sk" using assms(2) by metis
  moreover have "key_of (hydrate_key (key_of sk)) = key_of sk"
    using assms(3) by (simp add: hydrate_key_def key_of_def)
  ultimately show ?thesis using hydrated_keeps [OF assms(1)] by simp
qed


definition live_db :: db where
  "live_db = empty_db\<lparr>events := [\<lparr>ev_ID = 2, ev_SerialID = ''a1'', ev_Target = ''t'', ev_Port = 0,
     ev_Metric = ''rtt_p95_ns'', ev_Status = ''open'', ev_OpenedAt = 0, ev_LastSeenAt = 0, ev_ClosedAt = None,
     ev_FindingCount = 1, ev_PeakSeverity = Fin 12, ev_Detectors = [''EWMA'']\<rparr>],
     policies := [(key_of demo_key, \<lparr>ap_Status = ''firing'', ap_Score = Fin 12, ap_ScoreUpdatedAt = 0,
       ap_OpenEventID = Some 2, ap_PendingFindings = [], ap_EnteredStatusAt = 0\<rparr>)]\<rparr>"

lemma calm_no_fault: "no_fault calm_env"
  by (simp add: no_fault_def)

lemma firing_engine_inv: "engine_inv calm_env firing_engine live_db"
  by (auto simp: engine_inv_def firing_engine_def new_engine_def argus_bucket_cfg_ok live_db_def firing_state_def
      state_ok_def score_ok_def rnd_numeral PolicyStateStatusFiring_def split: if_splits)

lemma firing_drained:
  "f_le (Fin 12) (f_mul (DecayPerSecond argus_bucket_cfg) (dur_seconds (time_sub (200 * second) 0)))"
proof -
  have t: "time_sub (200 * second) 0 = 200 * second" by (simp add: time_sub_def second_def duration_bounds)
  have "f_le (Fin 12) (fl (200 / 16))" using fl_mono [of 12 "200 / 16"] by (simp add: fl_numeral)
  then show ?thesis unfolding t using tenth_drain [of 200] f_le_trans by simp
qed


definition ghost_engine :: PolicyEngine where
  "ghost_engine = new_engine\<lparr>states :=
     [demo_key \<mapsto> firing_state\<lparr>Bucket := \<lparr>Score = Fin 12, ScoreUpdatedAt = 200 * second\<rparr>\<rparr>,
      hydrate_key (key_of demo_key) \<mapsto> firing_state\<lparr>Status := PolicyStateStatusRecovering\<rparr>]\<rparr>"

lemma no_time_no_drain:
  assumes "rate_ok (DecayPerSecond cfg)" "wf64 (Fin s)" "0 \<le> s"
  shows "decayed_score cfg \<lparr>Score = Fin s, ScoreUpdatedAt = t\<rparr> t = Fin s"
proof -
  obtain r where "DecayPerSecond cfg = Fin r" using assms(1) by (cases "DecayPerSecond cfg") auto
  then have "f_sub (Fin s) (f_mul (DecayPerSecond cfg) (dur_seconds (time_sub t t))) = Fin s"
    using f_add_0 [OF assms(2)] by (simp add: dur_seconds_0 f_sub_def del: f_add.simps)
  then show ?thesis using assms(3) by (auto simp: decayed_score_def Let_def f_max_def)
qed


end
