(* ===== verification/Argus_Worker.thy ===== *)
theory Argus_Worker
  imports Common_Types Argus_Betab Argus_Policy_Props
begin

text \<open>
  The pipeline of Argus: the registry of extractors (\<^verbatim>\<open>services/argus/registry.go\<close>), the
  worker that owns the baselines of a series (\<^verbatim>\<open>worker.go\<close>) and the router that hands it
  measurement events (\<^verbatim>\<open>router.go\<close>). A worker is one goroutine per series; a batch is one
  step of it. A row of a sample is a value of \<open>row\<close>, the metrics type the router decoded.
\<close>

section \<open>The registry\<close>

definition SeriesTypeStamp :: string where "SeriesTypeStamp = ''STAMP''"
definition SeriesTypePing :: string where "SeriesTypePing = ''PING''"
definition SeriesTypeTrace :: string where "SeriesTypeTrace = ''TRACE''"

lemmas series_type_defs = SeriesTypeStamp_def SeriesTypePing_def SeriesTypeTrace_def

datatype row = RPing PingMetrics | RStamp StampMetrics | RTrace TraceMetrics

record Extractor =
  ex_Detectors :: "string list"
  ex_Extract :: "row \<Rightarrow> sample option"
  ex_MetricName :: string

type_synonym PipelineRegistry = "string \<Rightarrow> Extractor list"

fun on_stamp :: "(StampMetrics \<Rightarrow> sample) \<Rightarrow> row \<Rightarrow> sample option" where
  "on_stamp f (RStamp m) = Some (f m)"
| "on_stamp f _ = None"

fun on_ping :: "(PingMetrics \<Rightarrow> sample) \<Rightarrow> row \<Rightarrow> sample option" where
  "on_ping f (RPing m) = Some (f m)"
| "on_ping f _ = None"

fun on_trace :: "(TraceMetrics \<Rightarrow> sample) \<Rightarrow> row \<Rightarrow> sample option" where
  "on_trace f (RTrace m) = Some (f m)"
| "on_trace f _ = None"

definition CreateDefaultRegistry :: PipelineRegistry where
  "CreateDefaultRegistry ty =
     (if ty = SeriesTypeStamp then
        [\<lparr>ex_Detectors = [DetectorTypeEwma], ex_Extract = on_stamp (\<lambda>m. SFloat (f_of_int (sm_FwdP95Ns m))),
          ex_MetricName = ''fwd_p95_ns''\<rparr>,
         \<lparr>ex_Detectors = [DetectorTypeEwma], ex_Extract = on_stamp (\<lambda>m. SFloat (f_of_int (sm_BwdP95Ns m))),
          ex_MetricName = ''bwd_p95_ns''\<rparr>,
         \<lparr>ex_Detectors = [DetectorTypeEwma], ex_Extract = on_stamp (\<lambda>m. SFloat (f_of_int (sm_RttP95Ns m))),
          ex_MetricName = ''rtt_p95_ns''\<rparr>,
         \<lparr>ex_Detectors = [DetectorTypeBetaB],
          ex_Extract = on_stamp (\<lambda>m. SLoss \<lparr>ls_Sent = sm_Sent m, ls_Received = sm_Received m\<rparr>),
          ex_MetricName = ''loss''\<rparr>]
      else if ty = SeriesTypePing then
        [\<lparr>ex_Detectors = [DetectorTypeEwma], ex_Extract = on_ping (\<lambda>m. SFloat (f_of_int (pm_RttP95Ns m))),
          ex_MetricName = ''rtt_p95_ns''\<rparr>,
         \<lparr>ex_Detectors = [DetectorTypeBetaB],
          ex_Extract = on_ping (\<lambda>m. SLoss \<lparr>ls_Sent = pm_Sent m, ls_Received = pm_Received m\<rparr>),
          ex_MetricName = ''packet_loss_percent''\<rparr>]
      else if ty = SeriesTypeTrace then
        [\<lparr>ex_Detectors = [DetectorTypeFreq], ex_Extract = on_trace (\<lambda>m. SString (tm_AsnPathHash m)),
          ex_MetricName = ''asn_path_hash''\<rparr>,
         \<lparr>ex_Detectors = [DetectorTypeFreq], ex_Extract = on_trace (\<lambda>m. SString (tm_LinkPathHash m)),
          ex_MetricName = ''link_path_hash''\<rparr>]
      else [])"

section \<open>The worker\<close>

record DiscoveredSeries =
  ds_Type :: string
  ds_SerialId :: string
  ds_Target :: string
  ds_Port :: int
  ds_Src :: string

record RawSample =
  rs_TS :: time
  rs_Row :: row

type_synonym detector = "json option \<Rightarrow> time \<Rightarrow> sample \<Rightarrow> (det_error, json \<times> Finding option) outcome"

record monitor =
  m_key :: SeriesKey
  m_extractor :: Extractor
  m_detector :: detector
  m_state :: "json option"
  m_cursor :: time

record Worker =
  w_pr :: PipelineRegistry
  w_detectors :: "string \<Rightarrow> detector option"

text \<open>The detectors \<^verbatim>\<open>Argus.Start\<close> registers.\<close>

definition argus_worker :: "math_lib \<Rightarrow> Worker" where
  "argus_worker M = \<lparr>w_pr = CreateDefaultRegistry,
     w_detectors = [DetectorTypeEwma \<mapsto> ewma_Step argus_ewma_cfg, DetectorTypeBetaB \<mapsto> betab_Step M argus_betab_cfg]\<rparr>"

definition plan_key :: "DiscoveredSeries \<Rightarrow> Extractor \<Rightarrow> string \<Rightarrow> SeriesKey" where
  "plan_key series ex dt = \<lparr>sk_Type = ds_Type series, sk_SerialId = ds_SerialId series, sk_Target = ds_Target series,
     sk_SrcIP = [], sk_Port = ds_Port series, sk_Metric = ex_MetricName ex, sk_Detector = dt\<rparr>"

text \<open>One round of the loops of \<open>plan\<close>: the monitor of an extractor and a detector type, if any.\<close>

definition plan_one ::
  "db_env \<Rightarrow> Worker \<Rightarrow> DiscoveredSeries \<Rightarrow> Extractor \<Rightarrow> string \<Rightarrow> db \<Rightarrow> monitor option \<times> db" where
  "plan_one env w series ex dt d =
     (case w_detectors w dt of
        None \<Rightarrow> (None, d)
      | Some det \<Rightarrow>
          (let key = plan_key series ex dt in
           case GetBaseline env (key_of key) d of
             (Inl NoRows, d') \<Rightarrow>
               (Some \<lparr>m_key = key, m_extractor = ex, m_detector = det, m_state = None, m_cursor = time_zero\<rparr>, d')
           | (Inl _, d') \<Rightarrow> (None, d')
           | (Inr b, d') \<Rightarrow>
               (Some \<lparr>m_key = key, m_extractor = ex, m_detector = det, m_state = Some (ab_State b),
                  m_cursor = ab_LastSeen b\<rparr>, d')))"

fun plan_all ::
  "db_env \<Rightarrow> Worker \<Rightarrow> DiscoveredSeries \<Rightarrow> (Extractor \<times> string) list \<Rightarrow> db \<Rightarrow> monitor list \<times> db" where
  "plan_all env w series [] d = ([], d)"
| "plan_all env w series ((ex, dt) # xs) d =
     (case plan_one env w series ex dt d of
        (mo, d') \<Rightarrow> (case plan_all env w series xs d' of
          (ms, d'') \<Rightarrow> ((case mo of None \<Rightarrow> ms | Some m \<Rightarrow> m # ms), d'')))"

definition plan :: "db_env \<Rightarrow> Worker \<Rightarrow> DiscoveredSeries \<Rightarrow> db \<Rightarrow> monitor list \<times> db" where
  "plan env w series =
     plan_all env w series [(ex, dt). ex \<leftarrow> w_pr w (ds_Type series), dt \<leftarrow> ex_Detectors ex]"

text \<open>\<open>True\<close> in the first component of the results below: the goroutine has panicked.\<close>

definition report ::
  "db_env \<Rightarrow> time \<Rightarrow> SeriesKey \<Rightarrow> Finding \<Rightarrow> PolicyEngine \<Rightarrow> db \<Rightarrow> bool \<times> PolicyEngine \<times> db" where
  "report env now key finding pe d =
     (case InsertFinding env key finding d of
        (Ret fid, d1) \<Rightarrow> (case ApplyFinding env now key finding fid pe d1 of
           (r, pe', d2) \<Rightarrow> (r = Panic, pe', d2))
      | (Err _, d1) \<Rightarrow> (False, pe, d1)
      | (Panic, d1) \<Rightarrow> (True, pe, d1))"

text \<open>What one sample does to a monitor: the new monitor and the finding to report.\<close>

definition step_monitor :: "monitor \<Rightarrow> RawSample \<Rightarrow> monitor \<times> Finding option" where
  "step_monitor m rs =
     (if \<not> time_after (rs_TS rs) (m_cursor m) then (m, None)
      else case ex_Extract (m_extractor m) (rs_Row rs) of
             None \<Rightarrow> (m, None)
           | Some val \<Rightarrow>
               (case m_detector m (m_state m) (rs_TS rs) val of
                  Ret (nxt, finding) \<Rightarrow> (m\<lparr>m_state := Some nxt, m_cursor := rs_TS rs\<rparr>, finding)
                | _ \<Rightarrow> (m, None)))"

fun fold_rows ::
  "db_env \<Rightarrow> time \<Rightarrow> RawSample list \<Rightarrow> monitor \<Rightarrow> PolicyEngine \<Rightarrow> db \<Rightarrow> bool \<times> monitor \<times> PolicyEngine \<times> db" where
  "fold_rows env now [] m pe d = (False, m, pe, d)"
| "fold_rows env now (rs # rows) m pe d =
     (case step_monitor m rs of
        (m', None) \<Rightarrow> fold_rows env now rows m' pe d
      | (m', Some finding) \<Rightarrow>
          (case report env now (m_key m) finding pe d of
             (panicked, pe', d') \<Rightarrow>
               if panicked then (True, m', pe', d') else fold_rows env now rows m' pe' d'))"

definition saveBaseline :: "db_env \<Rightarrow> SeriesKey \<Rightarrow> json option \<Rightarrow> time \<Rightarrow> db \<Rightarrow> (db_error + unit) \<times> db" where
  "saveBaseline env key st lastSeen d =
     (case st of
        None \<Rightarrow> (Inl DbFail, d)
      | Some j \<Rightarrow> UpsertBaseline env (key_of key) j 0 lastSeen d)"

definition fold_monitor ::
  "db_env \<Rightarrow> time \<Rightarrow> RawSample list \<Rightarrow> monitor \<Rightarrow> PolicyEngine \<Rightarrow> db \<Rightarrow> bool \<times> monitor \<times> PolicyEngine \<times> db" where
  "fold_monitor env now rows m pe d =
     (case fold_rows env now rows m pe d of
        (panicked, m', pe', d') \<Rightarrow>
          if panicked then (True, m', pe', d')
          else if time_after (m_cursor m') (m_cursor m)
          then (False, m', pe', snd (saveBaseline env (m_key m') (m_state m') (m_cursor m') d'))
          else (False, m', pe', d'))"

fun fold_monitors ::
  "db_env \<Rightarrow> time \<Rightarrow> RawSample list \<Rightarrow> monitor list \<Rightarrow> PolicyEngine \<Rightarrow> db
   \<Rightarrow> bool \<times> monitor list \<times> PolicyEngine \<times> db" where
  "fold_monitors env now rows [] pe d = (False, [], pe, d)"
| "fold_monitors env now rows (m # ms) pe d =
     (case fold_monitor env now rows m pe d of
        (panicked, m', pe', d') \<Rightarrow>
          if panicked then (True, m' # ms, pe', d')
          else case fold_monitors env now rows ms pe' d' of
                 (p, ms', pe'', d'') \<Rightarrow> (p, m' # ms', pe'', d''))"

record inboxItem =
  it_sample :: RawSample
  it_msg :: nat

text \<open>\<open>queued\<close> is what the channel holds when it is drained.\<close>

definition drainInbox :: "inboxItem list \<Rightarrow> inboxItem \<Rightarrow> inboxItem list" where
  "drainInbox queued first = first # queued"

text \<open>One turn of the loop of \<open>process\<close>: fold the batch into every monitor, then acknowledge
  its messages; the last component lists the messages acknowledged.\<close>

definition process_batch ::
  "db_env \<Rightarrow> time \<Rightarrow> inboxItem list \<Rightarrow> monitor list \<Rightarrow> PolicyEngine \<Rightarrow> db
   \<Rightarrow> bool \<times> monitor list \<times> PolicyEngine \<times> db \<times> nat list" where
  "process_batch env now batch ms pe d =
     (case fold_monitors env now (map it_sample batch) ms pe d of
        (panicked, ms', pe', d') \<Rightarrow> (panicked, ms', pe', d', if panicked then [] else map it_msg batch))"

section \<open>The router\<close>

definition seriesFromEvent :: "MeasurementEvent \<Rightarrow> DiscoveredSeries option" where
  "seriesFromEvent e =
     (if me_Type e = ProbeTypePing then
        Some \<lparr>ds_Type = SeriesTypePing, ds_SerialId = me_SerialID e, ds_Target = me_Target e, ds_Port = 0, ds_Src = []\<rparr>
      else if me_Type e = ProbeTypeStamp then
        Some \<lparr>ds_Type = SeriesTypeStamp, ds_SerialId = me_SerialID e, ds_Target = me_Target e,
              ds_Port = me_Port e, ds_Src = []\<rparr>
      else if me_Type e = ProbeTypeTrace then
        Some \<lparr>ds_Type = SeriesTypeTrace, ds_SerialId = me_SerialID e, ds_Target = me_Target e, ds_Port = 0,
              ds_Src = me_Src e\<rparr>
      else None)"

definition decodeMetrics :: "MeasurementEvent \<Rightarrow> row option" where
  "decodeMetrics e =
     (if me_Type e = ProbeTypePing then map_option RPing (d_message PingMetrics_dec (me_Metrics e))
      else if me_Type e = ProbeTypeStamp then map_option RStamp (d_message StampMetrics_dec (me_Metrics e))
      else if me_Type e = ProbeTypeTrace then map_option RTrace (d_message TraceMetrics_dec (me_Metrics e))
      else None)"

datatype dispatch_result = Terminated | Delivered | Blocked

type_synonym routes = "DiscoveredSeries \<Rightarrow> inboxItem list option"

text \<open>A message carries its data as a parsed document, \<open>None\<close> if it is not JSON, and a number that
  stands for the handle to acknowledge it. A full inbox (64 items) blocks the router.\<close>

definition dispatch :: "json option \<Rightarrow> nat \<Rightarrow> routes \<Rightarrow> dispatch_result \<times> routes" where
  "dispatch data msg routes =
     (case d_message MeasurementEvent_dec data of
        None \<Rightarrow> (Terminated, routes)
      | Some event \<Rightarrow>
          (case seriesFromEvent event of
             None \<Rightarrow> (Terminated, routes)
           | Some series \<Rightarrow>
               (case decodeMetrics event of
                  None \<Rightarrow> (Terminated, routes)
                | Some metrics \<Rightarrow>
                    (let inbox = (case routes series of None \<Rightarrow> [] | Some q \<Rightarrow> q);
                         item = \<lparr>it_sample = \<lparr>rs_TS = me_Timestamp event, rs_Row = metrics\<rparr>, it_msg = msg\<rparr>
                     in if length inbox < 64 then (Delivered, routes(series \<mapsto> inbox @ [item]))
                        else (Blocked, routes(series \<mapsto> inbox))))))"

section \<open>Properties of the worker\<close>

definition monitor_run :: "RawSample list \<Rightarrow> monitor \<Rightarrow> monitor" where
  "monitor_run rows m = fold (\<lambda>rs m. fst (step_monitor m rs)) rows m"

lemma monitor_run_append: "monitor_run (xs @ ys) m = monitor_run ys (monitor_run xs m)"
  by (simp add: monitor_run_def)

lemma step_monitor_frame [simp]:
  "m_key (fst (step_monitor m rs)) = m_key m" "m_extractor (fst (step_monitor m rs)) = m_extractor m"
  "m_detector (fst (step_monitor m rs)) = m_detector m"
  by (auto simp: step_monitor_def split: option.splits outcome.splits)

lemma monitor_run_frame [simp]:
  "m_key (monitor_run rows m) = m_key m" "m_extractor (monitor_run rows m) = m_extractor m"
  "m_detector (monitor_run rows m) = m_detector m"
  by (induction rows arbitrary: m) (simp_all add: monitor_run_def)

text \<open>The baseline a fold computes depends on the samples only.\<close>

lemma fold_rows_monitor:
  "fold_rows env now rows m pe d = (False, m', pe', d') \<Longrightarrow> m' = monitor_run rows m"
proof (induction rows arbitrary: m pe d)
  case (Cons rs rows)
  obtain m1 fo where s: "step_monitor m rs = (m1, fo)" by fastforce
  show ?case
  proof (cases fo)
    case None
    then show ?thesis using Cons.IH [of m1 pe d] Cons.prems s by (simp add: monitor_run_def)
  next
    case (Some f)
    obtain p pe1 d1 where r: "report env now (m_key m) f pe d = (p, pe1, d1)" by (metis prod_cases3)
    then show ?thesis
      using Cons.IH [of m1 pe1 d1] Cons.prems s Some by (cases p) (simp_all add: monitor_run_def)
  qed
qed (simp add: monitor_run_def)

lemma fold_monitor_monitor:
  "fold_monitor env now rows m pe d = (False, m', pe', d') \<Longrightarrow> m' = monitor_run rows m"
  using fold_rows_monitor
  by (auto simp: fold_monitor_def split: prod.splits if_splits)

text \<open>
  Batching does not matter: folding a burst at once or in two parts, even with other
  database faults, clock readings and policy states in between, leaves the monitor with the
  same baseline and cursor.
\<close>

lemma fold_batch_independent:
  assumes "fold_monitor env now (xs @ ys) m pe d = (False, m', pe', d')"
    and "fold_monitor env1 now1 xs m pe1 d1 = (False, ma, pe1', d1')"
    and "fold_monitor env2 now2 ys ma pe2 d2 = (False, mb, pe2', d2')"
  shows "mb = m'"
  using fold_monitor_monitor [OF assms(1)] fold_monitor_monitor [OF assms(2)] fold_monitor_monitor [OF assms(3)]
  by (simp add: monitor_run_append)

definition demo_monitor :: monitor where
  "demo_monitor = \<lparr>m_key = demo_key,
     m_extractor = \<lparr>ex_Detectors = [DetectorTypeEwma], ex_Extract = on_ping (\<lambda>m. SFloat (f_of_int (pm_RttP95Ns m))),
       ex_MetricName = ''rtt_p95_ns''\<rparr>,
     m_detector = ewma_Step argus_ewma_cfg, m_state = None, m_cursor = time_zero\<rparr>"

definition demo_row :: RawSample where
  "demo_row = \<lparr>rs_TS = 5, rs_Row = RPing \<lparr>pm_RttP95Ns = 7, pm_Sent = 4, pm_Received = 4\<rparr>\<rparr>"

definition demo_state :: json where
  "demo_state = JObj [(''mean'', JNum 7), (''variance'', JNum 0), (''n'', JNum 1), (''last_seen'', JTime 5)]"

lemma demo_step:
  "step_monitor demo_monitor demo_row = (demo_monitor\<lparr>m_state := Some demo_state, m_cursor := 5\<rparr>, None)"
  by (simp add: step_monitor_def demo_monitor_def demo_row_def time_after_def time_zero_def second_def
      ewma_Step_def ewma_zero_def ewma_step_def ewma_enc_def j_object_def f_of_int_exact j_time_def json_time_ok_def
      j_int_def demo_state_def)

lemma demo_fold_rows:
  "fold_rows env now [demo_row] demo_monitor pe d = (False, demo_monitor\<lparr>m_state := Some demo_state, m_cursor := 5\<rparr>, pe, d)"
  by (simp add: demo_step)

lemma stale_rows:
  "\<forall>rs \<in> set rows. rs_TS rs \<le> m_cursor m \<Longrightarrow> fold_rows env now rows m pe d = (False, m, pe, d)"
  by (induction rows) (simp_all add: step_monitor_def time_after_def)

text \<open>
  Redelivery is harmless: samples at or before the cursor (which is where every
  successfully folded sample leaves it) change neither the monitor, nor the policy engine,
  nor the database.
\<close>

lemma redelivery_ignored:
  assumes "\<forall>rs \<in> set rows. rs_TS rs \<le> m_cursor m"
  shows "fold_monitor env now rows m pe d = (False, m, pe, d)"
  unfolding fold_monitor_def stale_rows [OF assms] by (simp add: time_after_def)

lemma monitor_run_moved:
  "m_cursor (monitor_run rows m) \<noteq> m_cursor m \<Longrightarrow> m_state (monitor_run rows m) \<noteq> None"
proof (induction rows arbitrary: m)
  case (Cons rs rows)
  let ?m = "fst (step_monitor m rs)"
  have keep: "m_state m \<noteq> None \<Longrightarrow> m_state (monitor_run xs m) \<noteq> None" for xs m
    by (induction xs arbitrary: m)
       (auto simp: monitor_run_def step_monitor_def split: option.splits outcome.splits)
  have "m_state ?m \<noteq> None \<or> ?m = m"
    by (auto simp: step_monitor_def split: option.splits outcome.splits)
  then show ?case using Cons keep [of ?m rows] by (auto simp: monitor_run_def)
qed (simp add: monitor_run_def)

text \<open>
  Property C17. A restart resumes: once a fold has moved the cursor and the database answered, a
  worker that plans the series again gets the same monitor back, with the cursor as the
  database stores it.
\<close>

theorem restart_resumes:
  assumes "no_fault env" "fold_monitor env now rows m pe d = (False, m', pe', d')"
    and "time_after (m_cursor m') (m_cursor m)"
    and "m_key m = plan_key series ex dt" "m_extractor m = ex" "w_detectors w dt = Some (m_detector m)"
  shows "fst (plan_one env w series ex dt d') = Some (m'\<lparr>m_cursor := de_ts env (m_cursor m')\<rparr>)"
proof -
  have m': "m' = monitor_run rows m" by (rule fold_monitor_monitor [OF assms(2)])
  then obtain j where j: "m_state m' = Some j"
    using monitor_run_moved [of rows m] assms(3) by (auto simp: time_after_def)
  obtain d1 where "fold_rows env now rows m pe d = (False, m', pe', d1)"
    "d' = snd (saveBaseline env (m_key m') (m_state m') (m_cursor m') d1)"
    using assms(2,3) by (auto simp: fold_monitor_def split: prod.splits if_splits)
  then have row: "map_of (baselines d') (key_of (m_key m)) =
      Some \<lparr>ab_State = j, ab_N = 0, ab_LastSeen = de_ts env (m_cursor m')\<rparr>"
    using j m' by (simp add: saveBaseline_def UpsertBaseline_def no_fault_exec [OF assms(1)] update_conv')
  have "m' = \<lparr>m_key = m_key m, m_extractor = ex, m_detector = m_detector m, m_state = Some j, m_cursor = m_cursor m'\<rparr>"
    using j m' assms(5) by (simp add: monitor.equality)
  then show ?thesis
    using row assms(4,6)
    by (simp add: plan_one_def GetBaseline_def no_fault_exec [OF assms(1)] Let_def) (metis monitor.update_convs(5))
qed

theorem restart_resumes_witness:
  "\<exists>d'. fold_monitor calm_env 0 [demo_row] demo_monitor new_engine empty_db
      = (False, demo_monitor\<lparr>m_state := Some demo_state, m_cursor := 5\<rparr>, new_engine, d')
    \<and> fst (plan_one calm_env (argus_worker flat_math) \<lparr>ds_Type = ''PING'', ds_SerialId = ''a1'', ds_Target = ''t'', ds_Port = 0, ds_Src = []\<rparr>
          (m_extractor demo_monitor) DetectorTypeEwma d')
      = Some (demo_monitor\<lparr>m_state := Some demo_state, m_cursor := 5\<rparr>)"
proof -
  let ?m = "demo_monitor\<lparr>m_state := Some demo_state, m_cursor := 5\<rparr>"
  let ?s = "\<lparr>ds_Type = ''PING'', ds_SerialId = ''a1'', ds_Target = ''t'', ds_Port = 0, ds_Src = []\<rparr>"
  have cur: "time_after (m_cursor ?m) (m_cursor demo_monitor)"
    by (simp add: time_after_def demo_monitor_def time_zero_def second_def)
  obtain d' where f: "fold_monitor calm_env 0 [demo_row] demo_monitor new_engine empty_db = (False, ?m, new_engine, d')"
    unfolding fold_monitor_def demo_fold_rows using cur by simp
  have k: "m_key demo_monitor = plan_key ?s (m_extractor demo_monitor) DetectorTypeEwma"
    by (simp add: demo_monitor_def demo_key_def plan_key_def DetectorTypeEwma_def)
  have w: "w_detectors (argus_worker flat_math) DetectorTypeEwma = Some (m_detector demo_monitor)"
    by (simp add: argus_worker_def demo_monitor_def detector_type_defs)
  from restart_resumes [OF calm_no_fault f cur k HOL.refl w] f show ?thesis by auto
qed

section \<open>The registry and the detectors fit\<close>

text \<open>The series type the router gives the rows of each metrics type.\<close>

fun row_series :: "row \<Rightarrow> string" where
  "row_series (RPing _) = SeriesTypePing"
| "row_series (RStamp _) = SeriesTypeStamp"
| "row_series (RTrace _) = SeriesTypeTrace"

lemma registry_typed:
  assumes "ex \<in> set (CreateDefaultRegistry (row_series r))" "dt \<in> set (ex_Detectors ex)"
  obtains (ewma) x where "dt = DetectorTypeEwma" "ex_Extract ex r = Some (SFloat (f_of_int x))"
  | (beta) l where "dt = DetectorTypeBetaB" "ex_Extract ex r = Some (SLoss l)"
  | (freq) s where "dt = DetectorTypeFreq" "ex_Extract ex r = Some (SString s)"
  using assms by (cases r) (auto simp: CreateDefaultRegistry_def series_type_defs)

text \<open>
  The pipeline is well typed: for every measurement type, every extractor of the
  default registry reads its rows, and hands the detector registered for it a value of the
  type that detector asserts; no sample is ever dropped for its type.
\<close>

lemma registry_fits_detectors:
  assumes "ex \<in> set (CreateDefaultRegistry (row_series r))" "dt \<in> set (ex_Detectors ex)"
    and "w_detectors (argus_worker M) dt = Some det"
  shows "\<exists>v. ex_Extract ex r = Some v \<and> sample_wf v \<and> det s ts v \<noteq> Err WrongType"
  using assms(1,2)
proof (cases rule: registry_typed)
  case (ewma x)
  then have "det = ewma_Step argus_ewma_cfg"
    using assms(3) by (simp add: argus_worker_def detector_type_defs)
  with ewma show ?thesis using argus_ewma.typed by (auto simp: is_float_sample_def)
next
  case (beta l)
  then have "det = betab_Step M argus_betab_cfg"
    using assms(3) by (simp add: argus_worker_def detector_type_defs)
  with beta show ?thesis using betab.typed by (auto simp: is_loss_sample_def)
next
  case (freq s)
  then show ?thesis using assms(3) by (simp add: argus_worker_def detector_type_defs)
qed

section \<open>Properties of the router\<close>

lemma decode_row_series:
  "seriesFromEvent e = Some series \<Longrightarrow> decodeMetrics e = Some r \<Longrightarrow> row_series r = ds_Type series"
  by (auto simp: seriesFromEvent_def decodeMetrics_def probe_type_defs split: if_splits)

text \<open>
  Routing keeps order and isolation: a message either is terminated and changes no
  inbox, or goes to the end of the inbox of its own series, and no other inbox changes.
\<close>

lemma dispatch_appends_to_own_inbox:
  "(case dispatch data msg routes of
      (Terminated, routes') \<Rightarrow> routes' = routes
    | (Delivered, routes') \<Rightarrow> (\<exists>e series metrics. d_message MeasurementEvent_dec data = Some e
         \<and> seriesFromEvent e = Some series \<and> decodeMetrics e = Some metrics \<and> row_series metrics = ds_Type series
         \<and> routes' = routes(series \<mapsto> (case routes series of None \<Rightarrow> [] | Some q \<Rightarrow> q)
             @ [\<lparr>it_sample = \<lparr>rs_TS = me_Timestamp e, rs_Row = metrics\<rparr>, it_msg = msg\<rparr>]))
    | (Blocked, routes') \<Rightarrow> (\<exists>series q. routes series = Some q \<and> 64 \<le> length q \<and> routes' = routes))"
proof (cases "d_message MeasurementEvent_dec data")
  case (Some e)
  show ?thesis
  proof (cases "seriesFromEvent e")
    case (Some series)
    note s = this
    show ?thesis
    proof (cases "decodeMetrics e")
      case (Some r)
      have "row_series r = ds_Type series" by (rule decode_row_series [OF s Some])
      then show ?thesis
        using \<open>d_message MeasurementEvent_dec data = Some e\<close> s Some
        by (cases "routes series") (auto simp: dispatch_def Let_def fun_upd_idem not_less)
    qed (simp add: dispatch_def s \<open>d_message MeasurementEvent_dec data = Some e\<close>)
  qed (simp add: dispatch_def \<open>d_message MeasurementEvent_dec data = Some e\<close>)
qed (simp add: dispatch_def)

end
