(* ===== verification/Nats_Base.thy ===== *)
theory Nats_Base
  imports Go_Json
begin

text \<open>
  JetStream as the processors use it. The server is a parameter: whether connecting, creating a stream or
  a consumer succeeds, and how a publication under \<^verbatim>\<open>retry.Do\<close> ends: with or without an error, and
  with how many copies stored. \<open>start_processor\<close> is the start-up sequence the three processors
  share; each of them has its own instance.
\<close>

record StreamConfig =
  st_Name :: string
  st_Description :: string
  st_Subjects :: "string list"
  st_MaxAge :: duration

record ConsumerConfig =
  cc_Name :: string
  cc_Stream :: string
  cc_FilterSubject :: string

record nats_env =
  ne_pool :: "string \<Rightarrow> bool"
  ne_connect :: "string \<Rightarrow> bool"
  ne_jetstream :: bool
  ne_stream :: "StreamConfig \<Rightarrow> bool"
  ne_consumer :: "ConsumerConfig \<Rightarrow> bool"

record ProcessorConfig =
  pc_OtelSink :: string
  pc_OtelEndpoint :: string
  pc_NatsListenSubject :: string
  pc_NatsConnectURL :: string
  pc_DatabaseURL :: string

text \<open>The environment of the process; a missing or empty variable ends it with exit status 1, here \<open>Err\<close>.\<close>

definition TryGetFromEnv :: "(string \<Rightarrow> string) \<Rightarrow> string \<Rightarrow> (string, string) outcome" where
  "TryGetFromEnv getenv k =
     (let val = getenv k in if val = [] then Err (''missing environment variable: '' @ k) else Ret val)"

definition processor_config :: "(string \<Rightarrow> string) \<Rightarrow> (string, ProcessorConfig) outcome" where
  "processor_config getenv =
     obind (TryGetFromEnv getenv ''OTEL_SINK'') (\<lambda>otelSink.
     obind (TryGetFromEnv getenv ''OTEL_ENDPOINT'') (\<lambda>otelEndpoint.
     obind (TryGetFromEnv getenv ''NATS_LISTEN_SUBJECT'') (\<lambda>natsListenSubject.
     obind (TryGetFromEnv getenv ''NATS_LISTEN_URL'') (\<lambda>natsConnectUrl.
     obind (TryGetFromEnv getenv ''CEPHEUS_DB_URL'') (\<lambda>databaseUrl.
       Ret \<lparr>pc_OtelSink = otelSink, pc_OtelEndpoint = otelEndpoint, pc_NatsListenSubject = natsListenSubject,
         pc_NatsConnectURL = natsConnectUrl, pc_DatabaseURL = databaseUrl\<rparr>)))))"

definition measurements_stream :: StreamConfig where
  "measurements_stream = \<lparr>st_Name = ''MEASUREMENTS'',
     st_Description = ''Stream for processed measurement events consumed by argus'',
     st_Subjects = [''cepheus.measurement.>''], st_MaxAge = 24 * 3600 * second\<rparr>"

text \<open>The streams created and the consumer, or the first error.\<close>

definition start_processor ::
  "nats_env \<Rightarrow> ProcessorConfig \<Rightarrow> StreamConfig \<Rightarrow> string \<Rightarrow>
   StreamConfig list \<times> (string, ConsumerConfig) outcome" where
  "start_processor env cfg probes name =
     (if \<not> ne_pool env (pc_DatabaseURL cfg) then ([], Err ''failed to connect to database'')
      else if \<not> ne_connect env (pc_NatsConnectURL cfg) then ([], Err ''failed to connect to nats'')
      else if \<not> ne_jetstream env then ([], Err ''failed to connect to jetstream'')
      else if \<not> ne_stream env probes then ([], Err ''failed to create or update stream'')
      else if \<not> ne_stream env measurements_stream then ([probes], Err ''failed to create or update measurements stream'')
      else let cons = \<lparr>cc_Name = name, cc_Stream = st_Name probes, cc_FilterSubject = pc_NatsListenSubject cfg\<rparr>
        in if \<not> ne_consumer env cons then ([probes, measurements_stream], Err ''failed to create or update consumer'')
           else ([probes, measurements_stream], Ret cons))"

section \<open>Publishing\<close>

text \<open>What \<^verbatim>\<open>retry.Do\<close> makes of a publication: its error, and the copies the stream stored.\<close>

record pub_result =
  po_ok :: bool
  po_copies :: nat

definition pub_sound :: "pub_result \<Rightarrow> bool" where
  "pub_sound r \<longleftrightarrow> (po_ok r \<longrightarrow> 0 < po_copies r)"

type_synonym published = "(string \<times> json) list"

definition publish :: "pub_result \<Rightarrow> string \<Rightarrow> json \<Rightarrow> bool \<times> published" where
  "publish r subject data = (po_ok r, replicate (po_copies r) (subject, data))"

text \<open>What becomes of a fetched message: rejected, handed to the flusher, or dropped on shutdown.\<close>

datatype 'p handled =
    Rejected
  | Enqueued 'p
  | Dropped

end
