(* ===== verification/Argus_System.thy ===== *)
theory Argus_System
  imports Argus_Worker Nats_Base
begin

text \<open>
  Argus as a running process: its start-up (\<^verbatim>\<open>services/argus/runner.go\<close>, \<^verbatim>\<open>config.go\<close>), the router
  that reads measurement messages, the goroutine of every series (\<^verbatim>\<open>Worker.process\<close>) and the sweeps of the
  policy engine, in every interleaving. A goroutine of a worker advances in turns: receiving an item, running one sample
  through one detector, one statement or one call of the engine (which holds its lock) at a time.
\<close>

section \<open>Start-up\<close>

record DetectorConfig =
  dc_OtelSink :: string
  dc_OtelEndpoint :: string
  dc_DatabaseURL :: string
  dc_NatsConnectURL :: string
  dc_DetectionIntervalSeconds :: int

text \<open>\<^verbatim>\<open>strconv.Atoi\<close>: a sign and decimal digits, within 64 bits.\<close>

definition Atoi :: "string \<Rightarrow> int option" where
  "Atoi s = (case (case s of c # t \<Rightarrow> if c = CHR ''-'' then (- 1, t) else if c = CHR ''+'' then (1, t) else (1, s) | [] \<Rightarrow> (1, [])) of
     (sign, t) \<Rightarrow> let n = sign * digits_value 0 t in if t \<noteq> [] \<and> list_all is_digit t \<and> in_s 64 n then Some n else None)"

definition argus_GetConfig :: "(string \<Rightarrow> string) \<Rightarrow> (string, DetectorConfig) outcome" where
  "argus_GetConfig getenv =
     obind (TryGetFromEnv getenv ''OTEL_SINK'') (\<lambda>otelSink.
     obind (TryGetFromEnv getenv ''OTEL_ENDPOINT'') (\<lambda>otelEndpoint.
     obind (TryGetFromEnv getenv ''CEPHEUS_DB_URL'') (\<lambda>databaseUrl.
     obind (TryGetFromEnv getenv ''NATS_CONNECT_URL'') (\<lambda>natsConnectUrl.
     obind (TryGetFromEnv getenv ''DETECTION_INTERVAL_SECONDS'') (\<lambda>intervalStr.
       case Atoi intervalStr of
         None \<Rightarrow> Err (''strconv.Atoi: parsing '' @ intervalStr)
       | Some interval \<Rightarrow> Ret \<lparr>dc_OtelSink = otelSink, dc_OtelEndpoint = otelEndpoint, dc_DatabaseURL = databaseUrl,
           dc_NatsConnectURL = natsConnectUrl, dc_DetectionIntervalSeconds = interval\<rparr>)))))"

datatype worker_phase =
    Planning
  | Waiting
  | Draining "inboxItem list"
  | Folding "inboxItem list" nat time "RawSample list"
  | Reporting "inboxItem list" nat time "RawSample list" Finding
  | Applying "inboxItem list" nat time "RawSample list" Finding "uuid option"
  | Acking "inboxItem list"

record worker_state =
  ws_phase :: worker_phase
  ws_monitors :: "monitor list"

text \<open>What has become of a message: acknowledged, or terminated.\<close>

datatype mark = MsgAck nat | MsgTerm nat

record argus_state =
  ar_pe :: PolicyEngine
  ar_db :: db
  ar_routes :: routes
  ar_workers :: "DiscoveredSeries \<Rightarrow> worker_state option"
  ar_marks :: "mark list"
  ar_crashed :: bool

definition argus_consumer :: ConsumerConfig where
  "argus_consumer = \<lparr>cc_Name = ''argus'', cc_Stream = ''MEASUREMENTS'', cc_FilterSubject = ''cepheus.measurement.>''\<rparr>"

text \<open>The tables are those after the first sweep, also when the start fails later.\<close>

definition argus_Start ::
  "nats_env \<Rightarrow> db_env \<Rightarrow> time \<Rightarrow> SeriesKey list \<Rightarrow> DetectorConfig \<Rightarrow> db \<Rightarrow> (string, argus_state) outcome \<times> db" where
  "argus_Start ne env now order cfg d =
     (if \<not> ne_pool ne (dc_DatabaseURL cfg) then (Err ''failed to connect to database'', d)
      else case NewPolicyEngine argus_policy_cfg of
        Ret pe \<Rightarrow> (case Start env now order pe d of
            (Ret _, pe', d') \<Rightarrow>
              (if \<not> ne_connect ne (dc_NatsConnectURL cfg) then Err ''failed to connect to nats''
               else if \<not> ne_jetstream ne then Err ''failed to connect to jetstream''
               else if \<not> ne_stream ne measurements_stream then Err ''failed to create or update measurements stream''
               else if \<not> ne_consumer ne argus_consumer then Err ''failed to create or update consumer''
               else Ret \<lparr>ar_pe = pe', ar_db = d', ar_routes = (\<lambda>_. None), ar_workers = (\<lambda>_. None), ar_marks = [], ar_crashed = False\<rparr>, d')
          | (Err _, _, d') \<Rightarrow> (Err ''failed to start PolicyEngine'', d')
          | (Panic, _, d') \<Rightarrow> (Panic, d'))
      | _ \<Rightarrow> (Err ''failed to init PolicyEngine'', d))"

section \<open>A worker\<close>

record turn =
  tu_phase :: worker_phase
  tu_monitors :: "monitor list"
  tu_inbox :: "inboxItem list"
  tu_pe :: PolicyEngine
  tu_db :: db
  tu_acks :: "nat list"
  tu_panic :: bool

text \<open>The fold of the next monitor, or the end of the batch.\<close>

definition fold_from :: "inboxItem list \<Rightarrow> nat \<Rightarrow> monitor list \<Rightarrow> worker_phase" where
  "fold_from batch i ms =
     (if i < length ms then Folding batch i (m_cursor (ms ! i)) (map it_sample batch) else Acking batch)"

fun worker_turn ::
  "db_env \<Rightarrow> Worker \<Rightarrow> DiscoveredSeries \<Rightarrow> time \<Rightarrow> worker_phase \<Rightarrow> monitor list \<Rightarrow> inboxItem list \<Rightarrow> PolicyEngine \<Rightarrow> db \<Rightarrow> turn" where
  "worker_turn env w q now Planning ms inbox pe d = (case plan env w q d of (ms', d') \<Rightarrow>
     \<lparr>tu_phase = Waiting, tu_monitors = ms', tu_inbox = inbox, tu_pe = pe, tu_db = d', tu_acks = [], tu_panic = False\<rparr>)"
| "worker_turn env w q now Waiting ms inbox pe d = (case inbox of
       [] \<Rightarrow> \<lparr>tu_phase = Waiting, tu_monitors = ms, tu_inbox = [], tu_pe = pe, tu_db = d, tu_acks = [], tu_panic = False\<rparr>
     | item # rest \<Rightarrow>
         \<lparr>tu_phase = Draining [item], tu_monitors = ms, tu_inbox = rest, tu_pe = pe, tu_db = d, tu_acks = [], tu_panic = False\<rparr>)"
| "worker_turn env w q now (Draining batch) ms inbox pe d = (case inbox of
       [] \<Rightarrow> \<lparr>tu_phase = fold_from batch 0 ms, tu_monitors = ms, tu_inbox = [], tu_pe = pe, tu_db = d, tu_acks = [], tu_panic = False\<rparr>
     | item # rest \<Rightarrow>
         \<lparr>tu_phase = Draining (batch @ [item]), tu_monitors = ms, tu_inbox = rest, tu_pe = pe, tu_db = d, tu_acks = [], tu_panic = False\<rparr>)"
| "worker_turn env w q now (Folding batch i start (rs # rows)) ms inbox pe d = (case step_monitor (ms ! i) rs of (m', fo) \<Rightarrow>
     \<lparr>tu_phase = (case fo of None \<Rightarrow> Folding batch i start rows | Some f \<Rightarrow> Reporting batch i start rows f),
       tu_monitors = ms[i := m'], tu_inbox = inbox, tu_pe = pe, tu_db = d, tu_acks = [], tu_panic = False\<rparr>)"
| "worker_turn env w q now (Folding batch i start []) ms inbox pe d = (let m = ms ! i in
     \<lparr>tu_phase = fold_from batch (Suc i) ms, tu_monitors = ms, tu_inbox = inbox, tu_pe = pe,
       tu_db = (if time_after (m_cursor m) start then snd (saveBaseline env (m_key m) (m_state m) (m_cursor m) d) else d),
       tu_acks = [], tu_panic = False\<rparr>)"
| "worker_turn env w q now (Reporting batch i start rows f) ms inbox pe d = (case InsertFinding env (m_key (ms ! i)) f d of (r, d') \<Rightarrow>
     \<lparr>tu_phase = (case r of Ret fid \<Rightarrow> Applying batch i start rows f fid | _ \<Rightarrow> Folding batch i start rows),
       tu_monitors = ms, tu_inbox = inbox, tu_pe = pe, tu_db = d', tu_acks = [], tu_panic = (r = Panic)\<rparr>)"
| "worker_turn env w q now (Applying batch i start rows f fid) ms inbox pe d =
     (case ApplyFinding env now (m_key (ms ! i)) f fid pe d of (r, pe', d') \<Rightarrow>
     \<lparr>tu_phase = Folding batch i start rows, tu_monitors = ms, tu_inbox = inbox, tu_pe = pe', tu_db = d', tu_acks = [],
       tu_panic = (r = Panic)\<rparr>)"
| "worker_turn env w q now (Acking batch) ms inbox pe d =
     \<lparr>tu_phase = Waiting, tu_monitors = ms, tu_inbox = inbox, tu_pe = pe, tu_db = d, tu_acks = map it_msg batch, tu_panic = False\<rparr>"

section \<open>The process\<close>

text \<open>The router handles a message, \<open>None\<close> while the inbox of its series is full. A series that is new gets a worker.\<close>

definition receive :: "json option \<Rightarrow> nat \<Rightarrow> argus_state \<Rightarrow> argus_state option" where
  "receive data msg s = (case dispatch data msg (ar_routes s) of
       (Terminated, _) \<Rightarrow> Some (s\<lparr>ar_marks := ar_marks s @ [MsgTerm msg]\<rparr>)
     | (Blocked, _) \<Rightarrow> None
     | (Delivered, routes') \<Rightarrow> Some (s\<lparr>ar_routes := routes', ar_workers := (\<lambda>q.
         if ar_workers s q = None \<and> routes' q \<noteq> None then Some \<lparr>ws_phase = Planning, ws_monitors = []\<rparr> else ar_workers s q)\<rparr>))"

definition turn_of :: "db_env \<Rightarrow> Worker \<Rightarrow> DiscoveredSeries \<Rightarrow> time \<Rightarrow> argus_state \<Rightarrow> argus_state" where
  "turn_of env w q now s = (case (ar_workers s q, ar_routes s q) of
       (Some ws, Some inbox) \<Rightarrow>
         if ar_crashed s then s
         else (let t = worker_turn env w q now (ws_phase ws) (ws_monitors ws) inbox (ar_pe s) (ar_db s) in
           s\<lparr>ar_pe := tu_pe t, ar_db := tu_db t, ar_routes := (ar_routes s)(q \<mapsto> tu_inbox t),
             ar_workers := (ar_workers s)(q \<mapsto> \<lparr>ws_phase = tu_phase t, ws_monitors = tu_monitors t\<rparr>),
             ar_marks := ar_marks s @ map MsgAck (tu_acks t), ar_crashed := tu_panic t\<rparr>)
     | _ \<Rightarrow> s)"

definition sweep_tick :: "db_env \<Rightarrow> time \<Rightarrow> SeriesKey list \<Rightarrow> argus_state \<Rightarrow> argus_state" where
  "sweep_tick env now order s = (case Sweep env now order (ar_pe s) (ar_db s) of (r, pe', d') \<Rightarrow>
     s\<lparr>ar_pe := pe', ar_db := d', ar_crashed := (r = Panic)\<rparr>)"

text \<open>The states Argus reaches and the messages it has received; the handle of a message is its position.\<close>

inductive argus_reach :: "db_env \<Rightarrow> Worker \<Rightarrow> argus_state \<Rightarrow> json option list \<Rightarrow> argus_state \<Rightarrow> bool" for env w s0 where
  started: "argus_reach env w s0 [] s0"
| message: "argus_reach env w s0 hist s \<Longrightarrow> \<not> ar_crashed s \<Longrightarrow> receive data (length hist) s = Some s'
    \<Longrightarrow> argus_reach env w s0 (hist @ [data]) s'"
| worker: "argus_reach env w s0 hist s \<Longrightarrow> argus_reach env w s0 hist (turn_of env w q now s)"
| sweep: "argus_reach env w s0 hist s \<Longrightarrow> \<not> ar_crashed s \<Longrightarrow> distinct order
    \<Longrightarrow> argus_reach env w s0 hist (sweep_tick env now order s)"

section \<open>One worker, step by step\<close>

fun in_hand :: "worker_phase \<Rightarrow> inboxItem list" where
  "in_hand (Draining b) = b"
| "in_hand (Folding b i start rows) = b"
| "in_hand (Reporting b i start rows f) = b"
| "in_hand (Applying b i start rows f fid) = b"
| "in_hand (Acking b) = b"
| "in_hand _ = []"

abbreviation samples :: "inboxItem list \<Rightarrow> RawSample list" where
  "samples \<equiv> map it_sample"

text \<open>The monitors when the first \<open>i\<close> have folded a whole batch and the next one the rows before \<open>rows\<close>.\<close>

definition folded :: "RawSample list \<Rightarrow> monitor list \<Rightarrow> RawSample list \<Rightarrow> nat \<Rightarrow> RawSample list \<Rightarrow> monitor list \<Rightarrow> bool" where
  "folded old planned batch i rows ms \<longleftrightarrow> i < length planned \<and> (\<exists>seen. batch = seen @ rows \<and> length ms = length planned
     \<and> (\<forall>j < length ms. ms ! j = monitor_run (if j < i then old @ batch else if j = i then old @ seen else old) (planned ! j)))"

fun monitors_at :: "RawSample list \<Rightarrow> monitor list \<Rightarrow> worker_phase \<Rightarrow> monitor list \<Rightarrow> bool" where
  "monitors_at old planned Planning ms = (old = [])"
| "monitors_at old planned Waiting ms = (ms = map (monitor_run old) planned)"
| "monitors_at old planned (Draining b) ms = (ms = map (monitor_run old) planned)"
| "monitors_at old planned (Folding b i start rows) ms = folded old planned (samples b) i rows ms"
| "monitors_at old planned (Reporting b i start rows f) ms = folded old planned (samples b) i rows ms"
| "monitors_at old planned (Applying b i start rows f fid) ms = folded old planned (samples b) i rows ms"
| "monitors_at old planned (Acking b) ms = (ms = map (monitor_run (old @ samples b)) planned)"

lemma folded_start:
  "ms = map (monitor_run old) planned \<Longrightarrow> monitors_at old planned (fold_from b 0 ms) ms \<and> in_hand (fold_from b 0 ms) = b"
  by (auto simp: fold_from_def folded_def)

lemma folded_next:
  assumes "folded old planned (samples b) i [] ms"
  shows "monitors_at old planned (fold_from b (Suc i) ms) ms \<and> in_hand (fold_from b (Suc i) ms) = b"
proof (cases "Suc i < length ms")
  case True
  then show ?thesis using assms by (auto simp: fold_from_def folded_def less_Suc_eq)
next
  case False
  then have "ms = map (monitor_run (old @ samples b)) planned"
    using assms by (intro nth_equalityI) (auto simp: folded_def)
  then show ?thesis using False by (simp add: fold_from_def)
qed

lemma folded_row:
  assumes "folded old planned batch i (rs # rows) ms"
  shows "folded old planned batch i rows (ms[i := fst (step_monitor (ms ! i) rs)])"
proof -
  obtain seen where seen: "batch = seen @ rs # rows" "length ms = length planned" "i < length planned"
    "\<forall>j < length ms. ms ! j = monitor_run (if j < i then old @ batch else if j = i then old @ seen else old) (planned ! j)"
    using assms by (auto simp: folded_def)
  have "fst (step_monitor (ms ! i) rs) = monitor_run (old @ seen @ [rs]) (planned ! i)"
    using seen(2-4) by (simp add: monitor_run_append) (simp add: monitor_run_def)
  then show ?thesis
    unfolding folded_def using seen by (intro conjI exI [of _ "seen @ [rs]"]) (auto simp: nth_list_update)
qed

lemma monitor_run_Nil [simp]: "monitor_run [] = (\<lambda>m. m)"
  by (simp add: monitor_run_def fun_eq_iff)

text \<open>A turn keeps the order of the items, acknowledges what it takes out, and keeps the monitors at their place.\<close>

lemma worker_turn_keeps:
  assumes "monitors_at (samples taken) planned ph ms" "t = worker_turn env w q now ph ms inbox pe d"
    and "ph = Planning \<Longrightarrow> planned' = fst (plan env w q d)" "ph \<noteq> Planning \<Longrightarrow> planned' = planned"
  shows "\<exists>now_taken. taken @ in_hand ph @ inbox = (taken @ now_taken) @ in_hand (tu_phase t) @ tu_inbox t
    \<and> tu_acks t = map it_msg now_taken \<and> monitors_at (samples (taken @ now_taken)) planned' (tu_phase t) (tu_monitors t)
    \<and> tu_phase t \<noteq> Planning \<and> length (tu_inbox t) \<le> length inbox"
proof (cases ph)
  case Planning
  then show ?thesis using assms by (auto split: prod.splits intro!: exI [of _ "[]"])
next
  case (Draining b)
  then show ?thesis using assms folded_start [of ms "samples taken" planned b]
    by (cases inbox) (auto simp: fold_from_def split: if_splits intro!: exI [of _ "[]"])
next
  case (Folding b i start rows)
  show ?thesis
  proof (cases rows)
    case Nil
    then show ?thesis using assms Folding folded_next [of "samples taken" planned b i ms]
      by (auto simp: Let_def fold_from_def split: if_splits intro!: exI [of _ "[]"])
  next
    case (Cons rs rest)
    then show ?thesis using assms Folding folded_row [of "samples taken" planned "samples b" i rs rest ms]
      by (auto split: prod.splits option.splits intro!: exI [of _ "[]"])
  qed
next
  case (Acking b)
  then show ?thesis using assms by (auto intro!: exI [of _ b])
next
  case Waiting
  then show ?thesis using assms by (cases inbox) (auto intro!: exI [of _ "[]"])
next
  case (Reporting b i start rows f)
  then show ?thesis using assms by (auto split: prod.splits outcome.splits intro!: exI [of _ "[]"])
next
  case (Applying b i start rows f fid)
  then show ?thesis using assms by (auto split: prod.splits intro!: exI [of _ "[]"])
qed

section \<open>Messages and series\<close>

text \<open>The series and the sample of a message, if the router accepts it; and what has been routed to a series.\<close>

definition routable :: "json option \<Rightarrow> (DiscoveredSeries \<times> RawSample) option" where
  "routable data = Option.bind (d_message MeasurementEvent_dec data) (\<lambda>e. Option.bind (seriesFromEvent e) (\<lambda>q.
     map_option (\<lambda>m. (q, \<lparr>rs_TS = me_Timestamp e, rs_Row = m\<rparr>)) (decodeMetrics e)))"

definition routed :: "json option list \<Rightarrow> DiscoveredSeries \<Rightarrow> inboxItem list" where
  "routed hist q = concat (map (\<lambda>(n, data). case routable data of
       Some (q', x) \<Rightarrow> if q' = q then [\<lparr>it_sample = x, it_msg = n\<rparr>] else [] | None \<Rightarrow> []) (enumerate 0 hist))"

lemma routed_Nil [simp]: "routed [] q = []"
  by (simp add: routed_def)

lemma routed_snoc:
  "routed (hist @ [data]) q = routed hist q @ (case routable data of
     Some (q', x) \<Rightarrow> if q' = q then [\<lparr>it_sample = x, it_msg = length hist\<rparr>] else [] | None \<Rightarrow> [])"
  by (simp add: routed_def enumerate_append_eq)

lemma routed_msg:
  "item \<in> set (routed hist q) \<Longrightarrow> it_msg item < length hist \<and> routable (hist ! it_msg item) = Some (q, it_sample item)"
proof (induction hist rule: rev_induct)
  case (snoc data hist)
  then show ?case by (auto simp: routed_snoc nth_append split: option.splits if_splits)
qed simp

lemma routed_distinct: "distinct (map it_msg (routed hist q))"
proof (induction hist rule: rev_induct)
  case (snoc data hist)
  then show ?case using routed_msg [of _ hist q] by (fastforce simp: routed_snoc split: option.splits)
qed simp

lemma dispatch_routable:
  "dispatch data n routes = (case routable data of
     None \<Rightarrow> (Terminated, routes)
   | Some (q, x) \<Rightarrow> (let inbox = (case routes q of None \<Rightarrow> [] | Some b \<Rightarrow> b) in
       if length inbox < 64 then (Delivered, routes(q \<mapsto> inbox @ [\<lparr>it_sample = x, it_msg = n\<rparr>]))
       else (Blocked, routes(q \<mapsto> inbox))))"
  by (auto simp: dispatch_def routable_def Let_def split: option.splits)

section \<open>The invariant of the process\<close>

definition series_inv ::
  "db_env \<Rightarrow> Worker \<Rightarrow> json option list \<Rightarrow> DiscoveredSeries \<Rightarrow> inboxItem list \<Rightarrow> worker_state option \<Rightarrow> inboxItem list option \<Rightarrow> bool" where
  "series_inv env w hist q taken worker route = (case (worker, route) of
       (None, None) \<Rightarrow> routed hist q = [] \<and> taken = []
     | (Some ws, Some inbox) \<Rightarrow> routed hist q = taken @ in_hand (ws_phase ws) @ inbox \<and> length inbox \<le> 64
         \<and> (\<exists>planned. monitors_at (samples taken) planned (ws_phase ws) (ws_monitors ws)
              \<and> (ws_phase ws \<noteq> Planning \<longrightarrow> (\<exists>d. planned = fst (plan env w q d))))
     | _ \<Rightarrow> False)"

definition marked :: "json option list \<Rightarrow> (DiscoveredSeries \<Rightarrow> inboxItem list) \<Rightarrow> mark set" where
  "marked hist taken = MsgTerm ` {n. n < length hist \<and> routable (hist ! n) = None} \<union> (\<Union>q. MsgAck ` it_msg ` set (taken q))"

definition argus_inv :: "db_env \<Rightarrow> Worker \<Rightarrow> json option list \<Rightarrow> (DiscoveredSeries \<Rightarrow> inboxItem list) \<Rightarrow> argus_state \<Rightarrow> bool" where
  "argus_inv env w hist taken s \<longleftrightarrow> (\<forall>q. series_inv env w hist q (taken q) (ar_workers s q) (ar_routes s q))
     \<and> distinct (ar_marks s) \<and> set (ar_marks s) = marked hist taken"

lemma taken_routed: "argus_inv env w hist taken s \<Longrightarrow> \<exists>rest. routed hist q = taken q @ rest"
  unfolding argus_inv_def by (elim conjE allE [of _ q]) (auto simp: series_inv_def split: option.splits)

lemma marked_bound:
  assumes "argus_inv env w hist taken s" "x \<in> set (ar_marks s)"
  shows "x \<noteq> MsgTerm (length hist) \<and> x \<noteq> MsgAck (length hist)"
proof -
  have "it_msg item < length hist" if "item \<in> set (taken q)" for item q
    using taken_routed [OF assms(1), of q] that routed_msg [of item hist q] by auto
  then show ?thesis using assms by (fastforce simp: argus_inv_def marked_def)
qed

lemma marked_snoc:
  "marked (hist @ [data]) taken = (if routable data = None then insert (MsgTerm (length hist)) (marked hist taken) else marked hist taken)"
  by (auto simp: marked_def nth_append less_Suc_eq)

lemma receive_inv:
  assumes "argus_inv env w hist taken s" "receive data (length hist) s = Some s'"
  shows "argus_inv env w (hist @ [data]) taken s'"
proof (cases "routable data")
  case None
  then have "s' = s\<lparr>ar_marks := ar_marks s @ [MsgTerm (length hist)]\<rparr>"
    using assms(2) by (simp add: receive_def dispatch_routable)
  moreover have "series_inv env w (hist @ [data]) = series_inv env w hist"
    using None by (auto simp: fun_eq_iff series_inv_def routed_snoc split: option.split)
  ultimately show ?thesis using assms(1) marked_bound [OF assms(1)] None by (fastforce simp: argus_inv_def marked_snoc)
next
  case (Some p)
  then obtain q x where p: "routable data = Some (q, x)" by (cases p) auto
  let ?inbox = "case ar_routes s q of None \<Rightarrow> [] | Some b \<Rightarrow> b"
  let ?item = "\<lparr>it_sample = x, it_msg = length hist\<rparr>"
  let ?routes = "(ar_routes s)(q \<mapsto> ?inbox @ [?item])"
  have s': "length ?inbox < 64" "s' = s\<lparr>ar_routes := ?routes, ar_workers := (\<lambda>q.
         if ar_workers s q = None \<and> ?routes q \<noteq> None then Some \<lparr>ws_phase = Planning, ws_monitors = []\<rparr> else ar_workers s q)\<rparr>"
    using assms(2) p by (auto simp: receive_def dispatch_routable Let_def split: if_splits)
  have old: "series_inv env w hist q' (taken q') (ar_workers s q') (ar_routes s q')" for q'
    using assms(1) by (simp add: argus_inv_def)
  have "series_inv env w (hist @ [data]) q' (taken q') (ar_workers s' q') (ar_routes s' q')" for q'
    using old [of q'] s'(1) unfolding s'(2) by (auto simp: series_inv_def routed_snoc p split: option.splits)
  then show ?thesis using assms(1) p unfolding argus_inv_def s'(2) by (simp add: marked_snoc)
qed

lemma marked_take:
  "marked hist (taken(q := taken q @ xs)) = marked hist taken \<union> MsgAck ` it_msg ` set xs"
proof -
  have "(\<Union>q'. MsgAck ` it_msg ` set ((taken(q := taken q @ xs)) q')) = (\<Union>q'. MsgAck ` it_msg ` set (taken q')) \<union> MsgAck ` it_msg ` set xs"
    by (auto split: if_splits) (metis (no_types, lifting) UnI1 imageI)+
  then show ?thesis by (auto simp: marked_def)
qed

lemma turn_inv:
  assumes "argus_inv env w hist taken s"
  shows "\<exists>xs. argus_inv env w hist (taken(q := taken q @ xs)) (turn_of env w q now s)"
proof (cases "(\<exists>ws inbox. ar_workers s q = Some ws \<and> ar_routes s q = Some inbox) \<and> \<not> ar_crashed s")
  case True
  then obtain ws inbox where q: "ar_workers s q = Some ws" "ar_routes s q = Some inbox" "\<not> ar_crashed s" by blast
  have inv: "series_inv env w hist q' (taken q') (ar_workers s q') (ar_routes s q')" for q'
    using assms by (simp add: argus_inv_def)
  obtain planned where old: "routed hist q = taken q @ in_hand (ws_phase ws) @ inbox" "length inbox \<le> 64"
    "monitors_at (samples (taken q)) planned (ws_phase ws) (ws_monitors ws)"
    "ws_phase ws \<noteq> Planning \<longrightarrow> (\<exists>d. planned = fst (plan env w q d))"
    using inv [of q] q by (auto simp: series_inv_def)
  define t where "t = worker_turn env w q now (ws_phase ws) (ws_monitors ws) inbox (ar_pe s) (ar_db s)"
  define planned' where "planned' = (if ws_phase ws = Planning then fst (plan env w q (ar_db s)) else planned)"
  obtain xs where t: "taken q @ in_hand (ws_phase ws) @ inbox = (taken q @ xs) @ in_hand (tu_phase t) @ tu_inbox t"
    "tu_acks t = map it_msg xs" "monitors_at (samples (taken q @ xs)) planned' (tu_phase t) (tu_monitors t)"
    "tu_phase t \<noteq> Planning" "length (tu_inbox t) \<le> length inbox"
    using worker_turn_keeps [OF old(3) t_def, of planned'] by (auto simp: planned'_def)
  have "\<exists>d. planned' = fst (plan env w q d)" using old(4) by (auto simp: planned'_def)
  then have new: "series_inv env w hist q (taken q @ xs) (Some \<lparr>ws_phase = tu_phase t, ws_monitors = tu_monitors t\<rparr>) (Some (tu_inbox t))"
    using old(1,2) t(1,3,5) by (auto simp: series_inv_def)
  have fresh: "distinct (map it_msg (taken q @ xs))"
    using routed_distinct [of hist q] old(1) t(1) by auto
  have "MsgAck (it_msg x) \<notin> set (ar_marks s)" if "x \<in> set xs" for x
  proof
    assume "MsgAck (it_msg x) \<in> set (ar_marks s)"
    then obtain q' y where y: "y \<in> set (taken q')" "it_msg y = it_msg x" using assms by (auto simp: argus_inv_def marked_def)
    have "y \<in> set (routed hist q')" using taken_routed [OF assms, of q'] y(1) by auto
    moreover have "x \<in> set (routed hist q)" using that old(1) t(1) by simp
    ultimately have "q' = q" using routed_msg [of y hist q'] routed_msg [of x hist q] y(2) by simp
    then show False using fresh that y by (auto simp: image_iff)
  qed
  then have "distinct (ar_marks s @ map MsgAck (tu_acks t))"
    using assms fresh t(2) by (auto simp: argus_inv_def distinct_map inj_on_def)
  moreover have "set (ar_marks s @ map MsgAck (tu_acks t)) = marked hist (taken(q := taken q @ xs))"
    using assms by (simp add: argus_inv_def marked_take t(2) image_image)
  ultimately have "argus_inv env w hist (taken(q := taken q @ xs)) (turn_of env w q now s)"
    using inv new q by (auto simp: argus_inv_def turn_of_def Let_def t_def)
  then show ?thesis by blast
next
  case False
  then have "turn_of env w q now s = s" by (auto simp: turn_of_def split: option.splits)
  then show ?thesis using assms by (intro exI [of _ "[]"]) simp
qed

definition fresh_argus :: "argus_state \<Rightarrow> bool" where
  "fresh_argus s \<longleftrightarrow> ar_routes s = (\<lambda>_. None) \<and> ar_workers s = (\<lambda>_. None) \<and> ar_marks s = [] \<and> \<not> ar_crashed s"

lemma argus_Start_fresh: "argus_Start ne env now order cfg d = (Ret s, d') \<Longrightarrow> fresh_argus s \<and> ar_db s = d'"
  by (auto simp: argus_Start_def fresh_argus_def split: if_splits outcome.splits prod.splits)

lemma argus_reach_inv:
  assumes "argus_reach env w s0 hist s" "fresh_argus s0"
  shows "\<exists>taken. argus_inv env w hist taken s"
  using assms(1)
proof induction
  case started
  then show ?case using assms(2)
    by (intro exI [of _ "\<lambda>_. []"]) (simp add: argus_inv_def series_inv_def fresh_argus_def marked_def)
next
  case (message hist s data s')
  then show ?case using receive_inv by blast
next
  case (worker hist s q now)
  then show ?case using turn_inv by blast
next
  case (sweep hist s order now)
  then show ?case by (auto simp: sweep_tick_def argus_inv_def split: prod.splits)
qed

text \<open>
  Property C3. Argus processes every series in order and exactly once, however its goroutines interleave. In every state it
  reaches, the messages routed to a series are, in their order, those its worker is done with, those in its
  hands and those in its inbox, which never exceeds its 64 places; a worker that waits has run its monitors over the first group and
  nothing else, starting from the stored baselines; and the messages acknowledged are those the workers are done with,
  the messages terminated those no series accepts, each once.
\<close>

theorem argus_processes_in_order:
  assumes "argus_Start ne env now order cfg d = (Ret s0, d')" "argus_reach env w s0 hist s"
  shows "\<exists>taken. (\<forall>q. case (ar_workers s q, ar_routes s q) of
        (None, None) \<Rightarrow> routed hist q = [] \<and> taken q = []
      | (Some ws, Some inbox) \<Rightarrow> routed hist q = taken q @ in_hand (ws_phase ws) @ inbox \<and> length inbox \<le> 64
          \<and> (ws_phase ws = Waiting \<longrightarrow> (\<exists>d. ws_monitors ws = map (monitor_run (samples (taken q))) (fst (plan env w q d))))
      | _ \<Rightarrow> False)
    \<and> distinct (ar_marks s)
    \<and> set (ar_marks s) = MsgTerm ` {n. n < length hist \<and> routable (hist ! n) = None} \<union> (\<Union>q. MsgAck ` it_msg ` set (taken q))"
proof -
  obtain taken where t: "argus_inv env w hist taken s"
    using argus_reach_inv [OF assms(2)] argus_Start_fresh [OF assms(1)] by blast
  show ?thesis
  proof (intro exI [of _ taken] conjI allI)
    fix q
    have "series_inv env w hist q (taken q) (ar_workers s q) (ar_routes s q)" using t by (simp add: argus_inv_def)
    then show "case (ar_workers s q, ar_routes s q) of
        (None, None) \<Rightarrow> routed hist q = [] \<and> taken q = []
      | (Some ws, Some inbox) \<Rightarrow> routed hist q = taken q @ in_hand (ws_phase ws) @ inbox \<and> length inbox \<le> 64
          \<and> (ws_phase ws = Waiting \<longrightarrow> (\<exists>d. ws_monitors ws = map (monitor_run (samples (taken q))) (fst (plan env w q d))))
      | _ \<Rightarrow> False"
      by (auto simp: series_inv_def split: option.splits)
  qed (use t in \<open>simp_all add: argus_inv_def marked_def\<close>)
qed

section \<open>A worker comes to the end of its work\<close>

text \<open>How many turns are left for what a worker holds and has in its inbox.\<close>

fun work_left :: "nat \<Rightarrow> worker_phase \<Rightarrow> nat" where
  "work_left l (Draining b) = length b * (3 * l) + l + 2"
| "work_left l (Folding b i start rows) = 3 * length rows + (l - Suc i) * (3 * length b) + (l - i) + 1"
| "work_left l (Reporting b i start rows f) = 3 * length rows + 2 + (l - Suc i) * (3 * length b) + (l - i) + 1"
| "work_left l (Applying b i start rows f fid) = 3 * length rows + 1 + (l - Suc i) * (3 * length b) + (l - i) + 1"
| "work_left l (Acking b) = 1"
| "work_left l _ = 0"

definition turns_left :: "worker_phase \<Rightarrow> monitor list \<Rightarrow> inboxItem list \<Rightarrow> nat" where
  "turns_left ph ms inbox = length inbox * (4 * length ms + 3) + work_left (length ms) ph"

lemma fold_from_left:
  "i \<le> length ms \<Longrightarrow> work_left (length ms) (fold_from b i ms) = (length ms - i) * (3 * length b) + (length ms - i) + 1"
proof (cases "i < length ms")
  case True
  then obtain k where "length ms - i = Suc k" "length ms - Suc i = k" by (metis Suc_diff_Suc)
  then show ?thesis using True by (simp add: fold_from_def)
qed (simp add: fold_from_def)

lemma turn_shorter:
  assumes "monitors_at old planned ph ms" "ph \<noteq> Planning" "\<not> (ph = Waiting \<and> inbox = [])"
    and "t = worker_turn env w q now ph ms inbox pe d"
  shows "turns_left (tu_phase t) (tu_monitors t) (tu_inbox t) < turns_left ph ms inbox"
proof (cases ph)
  case (Draining b)
  then show ?thesis using assms(4) by (cases inbox) (auto simp: turns_left_def fold_from_left algebra_simps)
next
  case (Folding b i start rows)
  have i: "i < length ms" using assms(1) Folding by (auto simp: folded_def)
  show ?thesis
  proof (cases rows)
    case Nil
    then show ?thesis using assms(4) Folding i
      by (auto simp: turns_left_def fold_from_left Let_def Suc_diff_Suc simp del: mult_Suc) 
  next
    case (Cons rs rest)
    then show ?thesis using assms(4) Folding by (auto simp: turns_left_def split: prod.splits option.splits)
  qed
next
  case Waiting
  then show ?thesis using assms by (cases inbox) (auto simp: turns_left_def)
next
  case (Reporting b i start rows f)
  then show ?thesis using assms(4) by (auto simp: turns_left_def split: prod.splits outcome.splits)
next
  case (Applying b i start rows f fid)
  then show ?thesis using assms(4) by (auto simp: turns_left_def split: prod.splits)
next
  case (Acking b)
  then show ?thesis using assms(4) by (simp add: turns_left_def)
qed (use assms(2) in simp)

lemma turn_of_crashed [simp]: "ar_crashed s \<Longrightarrow> turn_of env w q now s = s"
  by (simp add: turn_of_def split: option.splits)

lemma turns_crashed: "ar_crashed s \<Longrightarrow> fold (turn_of env w q) nows s = s"
  by (induction nows) simp_all

lemma worker_drains:
  assumes "argus_inv env w hist taken s" "ar_workers s q = Some ws" "ar_routes s q = Some inbox" "ws_phase ws \<noteq> Planning"
    and "turns_left (ws_phase ws) (ws_monitors ws) inbox \<le> length nows"
  shows "let s' = fold (turn_of env w q) nows s in
    ar_crashed s' \<or> (\<exists>ms. ar_workers s' q = Some \<lparr>ws_phase = Waiting, ws_monitors = ms\<rparr> \<and> ar_routes s' q = Some [])"
  using assms
proof (induction nows arbitrary: s taken ws inbox)
  case Nil
  then have "inbox = []" "work_left (length (ws_monitors ws)) (ws_phase ws) = 0" by (simp_all add: turns_left_def)
  then have "ws = \<lparr>ws_phase = Waiting, ws_monitors = ws_monitors ws\<rparr>" using Nil(4) by (cases ws; cases "ws_phase ws") simp_all
  then show ?case using Nil(2,3) \<open>inbox = []\<close> by auto
next
  case (Cons now nows)
  show ?case
  proof (cases "ar_crashed s")
    case True
    then show ?thesis using turns_crashed [of s env w q nows] by simp
  next
    case False
    define t where "t = worker_turn env w q now (ws_phase ws) (ws_monitors ws) inbox (ar_pe s) (ar_db s)"
    obtain planned where p: "monitors_at (samples (taken q)) planned (ws_phase ws) (ws_monitors ws)"
      using Cons.prems(1) unfolding argus_inv_def
      by (elim conjE allE [of _ q]) (auto simp: series_inv_def Cons.prems(2,3))
    obtain xs where inv: "argus_inv env w hist (taken(q := taken q @ xs)) (turn_of env w q now s)"
      using turn_inv [OF Cons.prems(1)] by blast
    have s1: "ar_workers (turn_of env w q now s) q = Some \<lparr>ws_phase = tu_phase t, ws_monitors = tu_monitors t\<rparr>"
      "ar_routes (turn_of env w q now s) q = Some (tu_inbox t)"
      using Cons.prems(2,3) False by (simp_all add: turn_of_def Let_def t_def)
    have "tu_phase t \<noteq> Planning" using worker_turn_keeps [OF p t_def, of planned] Cons.prems(4) by blast
    moreover have "turns_left (tu_phase t) (tu_monitors t) (tu_inbox t) \<le> length nows"
    proof (cases "ws_phase ws = Waiting \<and> inbox = []")
      case True
      then show ?thesis by (simp add: t_def turns_left_def)
    next
      case False
      then show ?thesis using turn_shorter [OF p Cons.prems(4) _ t_def] Cons.prems(5) by simp
    qed
    ultimately show ?thesis using Cons.IH [OF inv s1] by simp
  qed
qed

lemma worker_drains_eventually:
  assumes "argus_inv env w hist taken s" "ar_workers s q = Some ws"
  shows "\<exists>n. \<forall>nows. n \<le> length nows \<longrightarrow> (let s' = fold (turn_of env w q) nows s in
    ar_crashed s' \<or> (\<exists>ms. ar_workers s' q = Some \<lparr>ws_phase = Waiting, ws_monitors = ms\<rparr> \<and> ar_routes s' q = Some []))"
proof -
  obtain inbox where inbox: "ar_routes s q = Some inbox"
    using assms unfolding argus_inv_def by (elim conjE allE [of _ q]) (auto simp: series_inv_def split: option.splits)
  consider "ar_crashed s" | "ws_phase ws \<noteq> Planning" | "ws_phase ws = Planning" "\<not> ar_crashed s" by blast
  then show ?thesis
  proof cases
    case 1
    then show ?thesis using turns_crashed [of s env w q] by (auto simp: Let_def)
  next
    case 2
    then show ?thesis using worker_drains [OF assms inbox] by blast
  next
    case 3
    let ?ms = "fst (plan env w q (ar_db s))"
    have "let s' = fold (turn_of env w q) nows s in
      ar_crashed s' \<or> (\<exists>ms. ar_workers s' q = Some \<lparr>ws_phase = Waiting, ws_monitors = ms\<rparr> \<and> ar_routes s' q = Some [])"
      if len: "Suc (turns_left Waiting ?ms inbox) \<le> length nows" for nows
    proof -
      obtain now rest where nows: "nows = now # rest" using len by (cases nows) auto
      obtain xs where inv: "argus_inv env w hist (taken(q := taken q @ xs)) (turn_of env w q now s)" using turn_inv [OF assms(1)] by blast
      have s1: "ar_workers (turn_of env w q now s) q = Some \<lparr>ws_phase = Waiting, ws_monitors = ?ms\<rparr>"
        "ar_routes (turn_of env w q now s) q = Some inbox"
        using assms(2) inbox 3 by (auto simp: turn_of_def Let_def split: prod.splits)
      show ?thesis using worker_drains [OF inv s1] len by (simp add: nows)
    qed
    then show ?thesis by blast
  qed
qed

lemma turns_reach: "argus_reach env w s0 hist s \<Longrightarrow> argus_reach env w s0 hist (fold (turn_of env w q) nows s)"
  by (induction nows arbitrary: s) (auto intro: argus_reach.worker)

lemma drained_acked:
  assumes "argus_inv env w hist taken s" "ar_workers s q = Some \<lparr>ws_phase = Waiting, ws_monitors = ms\<rparr>" "ar_routes s q = Some []"
    and "item \<in> set (routed hist q)"
  shows "MsgAck (it_msg item) \<in> set (ar_marks s)"
proof -
  have "routed hist q = taken q"
    using assms(1) unfolding argus_inv_def by (elim conjE allE [of _ q]) (simp add: series_inv_def assms(2,3))
  then have "MsgAck (it_msg item) \<in> marked hist taken"
    using assms(4) unfolding marked_def by (intro UnI2 UN_I [of q] imageI) simp_all
  then show ?thesis using assms(1) by (simp add: argus_inv_def)
qed

text \<open>
  Property C5. Every measurement is settled in the end. From every state of Argus there is a number of turns of the
  goroutine of a series after which all messages routed to that series so far have been acknowledged, whatever the
  clock says and whichever statements fail, unless the process has crashed: no worker is ever stuck.
\<close>

theorem argus_settles_every_message:
  assumes "argus_Start ne env now order cfg d = (Ret s0, d')" "argus_reach env w s0 hist s"
  shows "\<exists>n. \<forall>nows. n \<le> length nows \<longrightarrow> (let s' = fold (turn_of env w q) nows s in
    ar_crashed s' \<or> (\<forall>item \<in> set (routed hist q). MsgAck (it_msg item) \<in> set (ar_marks s')))"
proof -
  have fresh: "fresh_argus s0" using argus_Start_fresh [OF assms(1)] by blast
  obtain taken where t: "argus_inv env w hist taken s" using argus_reach_inv [OF assms(2) fresh] by blast
  have acked: "let s' = fold (turn_of env w q) nows s in ar_crashed s' \<or> (\<forall>item \<in> set (routed hist q). MsgAck (it_msg item) \<in> set (ar_marks s'))"
    if e: "let s' = fold (turn_of env w q) nows s in
      ar_crashed s' \<or> (\<exists>ms. ar_workers s' q = Some \<lparr>ws_phase = Waiting, ws_monitors = ms\<rparr> \<and> ar_routes s' q = Some [])" for nows
  proof -
    obtain taken' where inv: "argus_inv env w hist taken' (fold (turn_of env w q) nows s)"
      using argus_reach_inv [OF turns_reach [OF assms(2)] fresh] by blast
    show ?thesis using e drained_acked [OF inv, where q = q] unfolding Let_def by (elim disjE exE conjE) simp_all
  qed
  show ?thesis
  proof (cases "ar_workers s q")
    case None
    then have "routed hist q = []" using t unfolding argus_inv_def by (elim conjE allE [of _ q]) (auto simp: series_inv_def split: option.splits)
    then show ?thesis by simp
  next
    case (Some ws)
    then show ?thesis using worker_drains_eventually [OF t] acked by blast
  qed
qed

section \<open>The tables and the policy states of a running Argus\<close>

definition lawful :: "detector \<Rightarrow> bool" where
  "lawful det \<longleftrightarrow> (\<forall>st ts v j f. det st ts v = Ret (j, Some f) \<longrightarrow> finding_ok f)"

text \<open>What the special functions promise: \<^verbatim>\<open>math.Log10\<close> returns a double, and is finite and at most
  -3 between 1e-12 and 1e-4.\<close>

definition log10_double :: "math_lib \<Rightarrow> bool" where
  "log10_double M \<longleftrightarrow> log10_law M \<and> (\<forall>x. wf64 (m_Log10 M x))"

lemma ewma_lawful: "lawful (ewma_Step cfg)"
proof -
  have "finding_ok f" if step: "ewma_step cfg st ts v = (st', Some f)" for st ts v st' f
  proof -
    obtain z where z: "f_le (ec_Threshold cfg) (f_abs z)" "fSeverity f = f_min (Fin 12) (f_abs z)" "wf64 z"
      using step by (auto simp: ewma_step_def Let_def split: if_splits)
    then have "f_abs z \<noteq> NaN" by auto
    moreover have "wf64 (Fin 12)" by (simp add: rnd_numeral)
    ultimately show ?thesis using z by (auto simp: finding_ok_def f_min_def)
  qed
  then show ?thesis by (auto simp: lawful_def ewma_Step_Ret)
qed

lemma betab_lawful:
  assumes "log10_double M"
  shows "lawful (betab_Step M argus_betab_cfg)"
proof -
  have "finding_ok f" if step: "betab_step M argus_betab_cfg st ts x = (st', Some f)" for st ts x st' f
  proof -
    obtain tail where t: "f_le tail (fl (1 / 10000))" "fSeverity f = f_min (Fin 12) (f_neg (m_Log10 M (f_max tail (fl (1 / 10 ^ 12)))))"
      using step by (auto simp: betab_step_def Let_def argus_betab_cfg_def split: if_splits)
    have "f_le (fl (1 / 10 ^ 12)) (f_max tail (fl (1 / 10 ^ 12)))" using t(1) by (intro conjunct2 [OF f_max_ge]) auto
    moreover have "f_le (f_max tail (fl (1 / 10 ^ 12))) (fl (1 / 10000))" using t(1) by (intro f_max_le fl_mono) auto
    ultimately obtain y where "m_Log10 M (f_max tail (fl (1 / 10 ^ 12))) = Fin y"
      using assms by (auto simp: log10_double_def log10_law_def)
    moreover have "wf64 (m_Log10 M (f_max tail (fl (1 / 10 ^ 12))))" using assms by (simp add: log10_double_def)
    moreover have "wf64 (Fin 12)" by (simp add: rnd_numeral)
    ultimately show ?thesis using t(2) by (auto simp: finding_ok_def f_min_def)
  qed
  then show ?thesis by (auto simp: lawful_def betab_Step_def split: sample.splits option.splits prod.splits)
qed

lemma argus_lawful: "log10_double M \<Longrightarrow> w_detectors (argus_worker M) dt = Some det \<Longrightarrow> lawful det"
  using ewma_lawful betab_lawful by (auto simp: argus_worker_def split: if_splits)

lemma plan_one_frame:
  "plan_one env w q ex dt d = (mo, d') \<Longrightarrow> events d' = events d \<and> findings d' = findings d \<and> policies d' = policies d
     \<and> baselines d' = baselines d \<and> (\<forall>m. mo = Some m \<longrightarrow> w_detectors w dt = Some (m_detector m))"
proof -
  obtain b d1 where b: "GetBaseline env (key_of (plan_key q ex dt)) d = (b, d1)" by fastforce
  assume "plan_one env w q ex dt d = (mo, d')"
  then show ?thesis
    using reads_frame(9-12) [of env "key_of (plan_key q ex dt)" d] unfolding b
    by (auto simp: plan_one_def Let_def b split: option.splits sum.splits db_error.splits)
qed

lemma plan_all_frame:
  "plan_all env w q xs d = (ms, d') \<Longrightarrow> events d' = events d \<and> findings d' = findings d \<and> policies d' = policies d
     \<and> baselines d' = baselines d \<and> (\<forall>m \<in> set ms. \<exists>dt. w_detectors w dt = Some (m_detector m))"
proof (induction xs arbitrary: d ms d')
  case (Cons x xs)
  obtain ex dt where x: "x = (ex, dt)" by fastforce
  obtain mo d1 where o: "plan_one env w q ex dt d = (mo, d1)" by fastforce
  obtain ms' d2 where r: "plan_all env w q xs d1 = (ms', d2)" by fastforce
  show ?case using Cons.IH [OF r] Cons.prems plan_one_frame [OF o] by (auto simp: x o r split: option.splits)
qed simp

fun phase_ok :: "worker_phase \<Rightarrow> bool" where
  "phase_ok (Reporting b i start rows f) = finding_ok f"
| "phase_ok (Applying b i start rows f fid) = finding_ok f"
| "phase_ok _ = True"

definition tables_ok :: "db_env \<Rightarrow> PolicyEngine \<Rightarrow> db \<Rightarrow> bool" where
  "tables_ok env pe d \<longleftrightarrow> engine_inv env pe d \<and> db_ok d"

lemma tables_ok_policies:
  "tables_ok env pe d \<Longrightarrow> db_ok d' \<Longrightarrow> policies d' = policies d \<Longrightarrow> tables_ok env pe d'"
  by (simp add: tables_ok_def engine_inv_def)

lemma saveBaseline_ok: "tables_ok env pe d \<Longrightarrow> tables_ok env pe (snd (saveBaseline env k st t d))"
  using db_ok_UpsertBaseline [of d env "key_of k" "the st" 0 t] Upsert_frame(4-6) [of env "key_of k" "the st" 0 t d]
  by (auto simp: saveBaseline_def tables_ok_def intro: tables_ok_policies split: option.splits) (simp add: engine_inv_def)

lemma worker_turn_ok:
  assumes "tables_ok env pe d" "phase_ok ph" "\<forall>m \<in> set ms. lawful (m_detector m)"
    and "\<forall>dt det. w_detectors w dt = Some det \<longrightarrow> lawful det" "t = worker_turn env w q now ph ms inbox pe d"
    and "monitors_at old planned ph ms"
  shows "tables_ok env (tu_pe t) (tu_db t) \<and> phase_ok (tu_phase t) \<and> (\<forall>m \<in> set (tu_monitors t). lawful (m_detector m))"
proof (cases ph)
  case Planning
  obtain ms' d' where p: "plan env w q d = (ms', d')" by fastforce
  note f = plan_all_frame [OF p [unfolded plan_def]]
  have "db_ok d'" using assms(1) f by (auto simp: tables_ok_def intro: db_ok_same_ids)
  then have "tables_ok env pe d'" using assms(1) f by (blast intro: tables_ok_policies)
  then show ?thesis using assms(4,5) Planning f by (auto simp: p)
next
  case (Folding b i start rows)
  have i: "i < length ms" using assms(6) Folding by (auto simp: folded_def)
  show ?thesis
  proof (cases rows)
    case Nil
    then show ?thesis using assms(1,3,5) Folding saveBaseline_ok [OF assms(1)] by (auto simp: Let_def fold_from_def)
  next
    case (Cons rs rest)
    obtain m' fo where st: "step_monitor (ms ! i) rs = (m', fo)" by fastforce
    have "lawful (m_detector (ms ! i))" using assms(3) i by simp
    moreover have "m_detector m' = m_detector (ms ! i)" using step_monitor_frame(3) [of "ms ! i" rs] st by simp
    moreover have "finding_ok f" if "fo = Some f" for f
      using st that calculation(1) by (auto simp: step_monitor_def lawful_def split: if_splits option.splits outcome.splits)
    ultimately show ?thesis using assms(1,3,5) Folding Cons
      by (auto simp: st split: option.splits dest!: set_update_subset_insert [THEN subsetD])
  qed
next
  case (Reporting b i start rows f)
  obtain r d' where ins: "InsertFinding env (m_key (ms ! i)) f d = (r, d')" by fastforce
  have "tables_ok env pe d'"
    using assms(1) db_ok_InsertFinding_policy [OF _ ins] InsertFinding_D [OF ins] by (auto simp: tables_ok_def engine_inv_def)
  then show ?thesis using assms(2,3,5) Reporting by (auto simp: ins split: outcome.splits)
next
  case (Applying b i start rows f fid)
  obtain r pe' d' where ap: "ApplyFinding env now (m_key (ms ! i)) f fid pe d = (r, pe', d')" by (metis prod_cases3)
  have "tables_ok env pe' d'"
    using assms(1,2) Applying ApplyFinding_inv [OF _ _ ap] db_ok_ApplyFinding [OF _ ap] by (auto simp: tables_ok_def)
  then show ?thesis using assms(3,5) Applying by (auto simp: ap)
qed (use assms in \<open>auto simp: fold_from_def split: list.splits\<close>)

definition run_ok :: "db_env \<Rightarrow> argus_state \<Rightarrow> bool" where
  "run_ok env s \<longleftrightarrow> tables_ok env (ar_pe s) (ar_db s)
     \<and> (\<forall>q ws. ar_workers s q = Some ws \<longrightarrow> phase_ok (ws_phase ws) \<and> (\<forall>m \<in> set (ws_monitors ws). lawful (m_detector m)))"

lemma receive_run_ok: "run_ok env s \<Longrightarrow> receive data n s = Some s' \<Longrightarrow> run_ok env s'"
  by (auto simp: receive_def run_ok_def split: prod.splits dispatch_result.splits if_splits)

lemma turn_run_ok:
  assumes "run_ok env s" "argus_inv env w hist taken s" "\<forall>dt det. w_detectors w dt = Some det \<longrightarrow> lawful det"
  shows "run_ok env (turn_of env w q now s)"
proof (cases "(\<exists>ws inbox. ar_workers s q = Some ws \<and> ar_routes s q = Some inbox) \<and> \<not> ar_crashed s")
  case True
  then obtain ws inbox where q: "ar_workers s q = Some ws" "ar_routes s q = Some inbox" "\<not> ar_crashed s" by blast
  obtain planned where p: "monitors_at (samples (taken q)) planned (ws_phase ws) (ws_monitors ws)"
    using assms(2) unfolding argus_inv_def by (elim conjE allE [of _ q]) (auto simp: series_inv_def q)
  have ok: "tables_ok env (ar_pe s) (ar_db s)" "phase_ok (ws_phase ws)" "\<forall>m \<in> set (ws_monitors ws). lawful (m_detector m)"
    using assms(1) q(1) by (auto simp: run_ok_def)
  show ?thesis using worker_turn_ok [OF ok assms(3) HOL.refl p] assms(1) q by (auto simp: run_ok_def turn_of_def Let_def)
next
  case False
  then have "turn_of env w q now s = s" by (auto simp: turn_of_def split: option.splits)
  then show ?thesis using assms(1) by simp
qed

lemma argus_reach_run_ok:
  assumes "argus_reach env w s0 hist s" "fresh_argus s0" "run_ok env s0" "\<forall>dt det. w_detectors w dt = Some det \<longrightarrow> lawful det"
  shows "run_ok env s"
  using assms(1)
proof induction
  case (message hist s data s')
  then show ?case using receive_run_ok by blast
next
  case (worker hist s q now)
  then show ?case using turn_run_ok assms(4) argus_reach_inv [OF worker.hyps assms(2)] by blast
next
  case (sweep hist s order now)
  obtain r pe' d' where "Sweep env now order (ar_pe s) (ar_db s) = (r, pe', d')" by (metis prod_cases3)
  then show ?case using sweep.IH Sweep_inv [of env "ar_pe s" "ar_db s" now order] db_ok_Sweep [of "ar_db s" env now order "ar_pe s"]
    by (simp add: run_ok_def sweep_tick_def tables_ok_def)
qed (rule assms(3))

lemma argus_Start_run_ok:
  assumes "argus_Start ne env now order cfg d = (Ret s0, d')" "rows_ok env d" "db_ok d"
  shows "run_ok env s0"
proof -
  obtain r where st: "Sweep env now order new_engine d = (r, ar_pe s0, ar_db s0)" "ar_workers s0 = (\<lambda>_. None)"
    using assms(1) by (auto simp: argus_Start_def NewPolicyEngine_argus Start_def split: if_splits outcome.splits prod.splits)
  have "engine_inv env new_engine d" using assms(2) by (simp add: engine_inv_rows new_engine_def argus_bucket_cfg_ok)
  then show ?thesis using st Sweep_inv [OF _ st(1)] db_ok_Sweep [OF assms(3) st(1)] by (simp add: run_ok_def tables_ok_def)
qed

text \<open>
  Property C4. A running Argus keeps its policy states and its tables consistent. Whatever messages arrive, however the
  goroutines interleave and whichever statements fail: every policy state in memory and every stored row is in one of its four shapes with
  a nonnegative score, keys stay unique, and every event that a finding or a policy row names exists. Of the
  function library only \<^verbatim>\<open>math.Log10\<close> matters.
\<close>

theorem argus_run_consistent:
  assumes "argus_Start ne env now order cfg d = (Ret s0, d')" "rows_ok env d" "db_ok d" "log10_double M"
    and "argus_reach env (argus_worker M) s0 hist s"
  shows "(\<forall>sk st. states (ar_pe s) sk = Some st \<longrightarrow> state_ok st) \<and> rows_ok env (ar_db s) \<and> db_ok (ar_db s)"
proof -
  have "run_ok env s"
    by (rule argus_reach_run_ok [OF assms(5)])
      (use argus_Start_fresh [OF assms(1)] argus_Start_run_ok [OF assms(1-3)] argus_lawful [OF assms(4)] in auto)
  then show ?thesis by (simp add: run_ok_def tables_ok_def engine_inv_rows)
qed

section \<open>A series without a detector\<close>

lemma trace_series_unmonitored:
  "ds_Type series = SeriesTypeTrace \<Longrightarrow> plan env (argus_worker M) series d = ([], d)"
  by (simp add: plan_def argus_worker_def CreateDefaultRegistry_def series_type_defs plan_one_def
      DetectorTypeFreq_def DetectorTypeEwma_def DetectorTypeBetaB_def)

text \<open>Its worker acknowledges what it receives and never reaches the engine.\<close>

fun bystander :: "worker_phase \<Rightarrow> bool" where
  "bystander (Folding b i start rows) = False"
| "bystander (Reporting b i start rows f) = False"
| "bystander (Applying b i start rows f fid) = False"
| "bystander _ = True"

lemma bystander_turn:
  assumes "ds_Type q = SeriesTypeTrace" "bystander ph" "t = worker_turn env (argus_worker M) q now ph [] inbox pe d"
  shows "bystander (tu_phase t) \<and> tu_monitors t = [] \<and> \<not> tu_panic t"
  using assms by (cases ph) (auto simp: trace_series_unmonitored fold_from_def split: list.splits)

lemma bystander_never_crashes:
  assumes "ds_Type q = SeriesTypeTrace" "ar_workers s q = Some \<lparr>ws_phase = ph, ws_monitors = []\<rparr>" "bystander ph" "\<not> ar_crashed s"
  shows "\<not> ar_crashed (fold (turn_of env (argus_worker M) q) nows s)"
  using assms(2-4)
proof (induction nows arbitrary: s ph)
  case (Cons now nows)
  show ?case
  proof (cases "ar_routes s q")
    case None
    then have "turn_of env (argus_worker M) q now s = s" using Cons.prems by (simp add: turn_of_def)
    then show ?thesis using Cons by simp
  next
    case (Some inbox)
    define t where "t = worker_turn env (argus_worker M) q now ph [] inbox (ar_pe s) (ar_db s)"
    have t: "bystander (tu_phase t)" "tu_monitors t = []" "\<not> tu_panic t"
      using bystander_turn [OF assms(1) Cons.prems(2) t_def] by simp_all
    have "ar_workers (turn_of env (argus_worker M) q now s) q = Some \<lparr>ws_phase = tu_phase t, ws_monitors = []\<rparr>"
      "\<not> ar_crashed (turn_of env (argus_worker M) q now s)"
      using Cons.prems Some t by (simp_all add: turn_of_def Let_def t_def)
    then show ?thesis using Cons.IH t(1) by simp
  qed
qed simp

section \<open>An example\<close>

definition calm_nats :: nats_env where
  "calm_nats = \<lparr>ne_pool = (\<lambda>_. True), ne_connect = (\<lambda>_. True), ne_jetstream = True, ne_stream = (\<lambda>_. True), ne_consumer = (\<lambda>_. True)\<rparr>"

definition demo_detector_config :: DetectorConfig where
  "demo_detector_config = \<lparr>dc_OtelSink = ''otel'', dc_OtelEndpoint = ''e'', dc_DatabaseURL = ''db'', dc_NatsConnectURL = ''nats'',
     dc_DetectionIntervalSeconds = 30\<rparr>"

definition demo_path :: DiscoveredSeries where
  "demo_path = \<lparr>ds_Type = SeriesTypeTrace, ds_SerialId = ''s1'', ds_Target = ''10.0.0.3'', ds_Port = 0, ds_Src = ''10.0.0.9''\<rparr>"

definition demo_started :: argus_state where
  "demo_started = \<lparr>ar_pe = new_engine, ar_db = empty_db\<lparr>stmts := 1\<rparr>, ar_routes = (\<lambda>_. None), ar_workers = (\<lambda>_. None), ar_marks = [],
     ar_crashed = False\<rparr>"

lemma demo_Start: "argus_Start calm_nats calm_env 0 [] demo_detector_config empty_db = (Ret demo_started, empty_db\<lparr>stmts := 1\<rparr>)"
  by (simp add: argus_Start_def calm_nats_def NewPolicyEngine_argus Start_def Sweep_def ListNonCleanPolicyStates_def
      empty_db_def demo_started_def new_engine_def)

text \<open>A message that is not JSON, then the measurement of a path.\<close>

lemma demo_arrivals:
  obtains doc x where "argus_reach calm_env w demo_started [None, Some doc] (demo_started\<lparr>ar_routes := [demo_path \<mapsto> [\<lparr>it_sample = x, it_msg = 1\<rparr>]],
     ar_workers := [demo_path \<mapsto> \<lparr>ws_phase = Planning, ws_monitors = []\<rparr>], ar_marks := [MsgTerm 0]\<rparr>)"
    "routed [None, Some doc] demo_path = [\<lparr>it_sample = x, it_msg = 1\<rparr>]"
proof -
  let ?m = "\<lparr>tm_AsnPathHash = ''a'', tm_LinkPathHash = ''l''\<rparr>"
  obtain mj where mj: "TraceMetrics_enc ?m = Some mj" "TraceMetrics_dec mj = Some ?m"
    using TraceMetrics_codec.enc_total [of ?m] TraceMetrics_codec.dec_enc [of ?m] by auto
  let ?e = "\<lparr>me_Type = ProbeTypeTrace, me_SerialID = ''s1'', me_Target = ''10.0.0.3'', me_Port = 0, me_Src = ''10.0.0.9'',
    me_Timestamp = 5, me_Metrics = Some mj\<rparr>"
  have ok: "MeasurementEvent_ok ?e" by (simp add: MeasurementEvent_ok_def in_s_def json_time_ok_def second_def)
  obtain doc where doc: "MeasurementEvent_dec doc = Some ?e"
    using MeasurementEvent_codec.enc_total [OF ok] MeasurementEvent_codec.dec_enc [OF ok] by blast
  let ?x = "\<lparr>rs_TS = 5, rs_Row = RTrace ?m\<rparr>"
  have r: "routable None = None" "routable (Some doc) = Some (demo_path, ?x)"
    by (simp_all add: routable_def d_message_def doc mj(2) seriesFromEvent_def decodeMetrics_def probe_type_defs demo_path_def)
  let ?s1 = "demo_started\<lparr>ar_marks := [MsgTerm 0]\<rparr>"
  have "argus_reach calm_env w demo_started ([] @ [None]) ?s1"
    by (rule argus_reach.message [OF argus_reach.started]) (simp_all add: demo_started_def receive_def dispatch_routable r)
  then have "argus_reach calm_env w demo_started ([None] @ [Some doc]) (demo_started\<lparr>ar_routes := [demo_path \<mapsto> [\<lparr>it_sample = ?x, it_msg = 1\<rparr>]],
     ar_workers := [demo_path \<mapsto> \<lparr>ws_phase = Planning, ws_monitors = []\<rparr>], ar_marks := [MsgTerm 0]\<rparr>)"
    by (intro argus_reach.message [of _ _ _ "[None]"]) (auto simp: demo_started_def receive_def dispatch_routable r fun_eq_iff)
  moreover have "routed [None, Some doc] demo_path = [\<lparr>it_sample = ?x, it_msg = 1\<rparr>]" by (simp add: routed_def r)
  ultimately show thesis by (intro that) simp_all
qed

theorem argus_processes_in_order_witness:
  "\<exists>hist s. argus_reach calm_env (argus_worker flat_math) demo_started hist s \<and> length hist = 2
     \<and> map it_msg (routed hist demo_path) = [1] \<and> MsgTerm 0 \<in> set (ar_marks s) \<and> distinct (ar_marks s)"
proof -
  obtain doc x s where s: "argus_reach calm_env (argus_worker flat_math) demo_started [None, Some doc] s"
    "routed [None, Some doc] demo_path = [\<lparr>it_sample = x, it_msg = 1\<rparr>]"
    using demo_arrivals by metis
  have "\<exists>n. n < length [None, Some doc] \<and> routable ([None, Some doc] ! n) = None \<and> n = 0"
    by (simp add: routable_def d_message_def)
  then have "MsgTerm 0 \<in> set (ar_marks s) \<and> distinct (ar_marks s)"
    using argus_processes_in_order [OF demo_Start s(1)] by blast
  then show ?thesis using s by (intro exI [of _ "[None, Some doc]"] exI [of _ s]) simp
qed

theorem argus_settles_every_message_witness:
  "\<exists>hist s nows. argus_reach calm_env (argus_worker flat_math) demo_started hist s \<and> map it_msg (routed hist demo_path) = [1]
     \<and> MsgAck 1 \<notin> set (ar_marks s) \<and> MsgAck 1 \<in> set (ar_marks (fold (turn_of calm_env (argus_worker flat_math) demo_path) nows s))"
proof -
  let ?w = "argus_worker flat_math"
  obtain doc x s where s: "argus_reach calm_env ?w demo_started [None, Some doc] s" "ar_marks s = [MsgTerm 0]" "\<not> ar_crashed s"
    "ar_workers s demo_path = Some \<lparr>ws_phase = Planning, ws_monitors = []\<rparr>"
    "routed [None, Some doc] demo_path = [\<lparr>it_sample = x, it_msg = 1\<rparr>]"
    by (rule demo_arrivals [of ?w]) (auto simp: demo_started_def)
  obtain n where n: "\<forall>nows. n \<le> length nows \<longrightarrow> (let s' = fold (turn_of calm_env ?w demo_path) nows s in
    ar_crashed s' \<or> (\<forall>item \<in> set (routed [None, Some doc] demo_path). MsgAck (it_msg item) \<in> set (ar_marks s')))"
    using argus_settles_every_message [OF demo_Start s(1)] by blast
  have "\<not> ar_crashed (fold (turn_of calm_env ?w demo_path) (replicate n 0) s)"
    by (rule bystander_never_crashes [OF _ s(4)]) (use s(3) in \<open>simp_all add: demo_path_def\<close>)
  then have "MsgAck 1 \<in> set (ar_marks (fold (turn_of calm_env ?w demo_path) (replicate n 0) s))"
    using n [rule_format, of "replicate n 0"] s(5) by (simp add: Let_def)
  then show ?thesis using s by (intro exI [of _ "[None, Some doc]"] exI [of _ s] exI [of _ "replicate n 0"]) simp
qed

theorem argus_run_consistent_witness:
  "\<exists>hist s. argus_reach calm_env (argus_worker flat_math) demo_started hist s \<and> length hist = 2
     \<and> (\<forall>sk st. states (ar_pe s) sk = Some st \<longrightarrow> state_ok st) \<and> rows_ok calm_env (ar_db s) \<and> db_ok (ar_db s)"
proof -
  obtain doc s where s: "argus_reach calm_env (argus_worker flat_math) demo_started [None, Some doc] s"
    using demo_arrivals by metis
  have "rows_ok calm_env empty_db" "db_ok empty_db" by (simp_all add: rows_ok_def db_ok_def empty_db_def)
  moreover have "log10_double flat_math"
    using rnd_minus [of 4] by (simp add: log10_double_def log10_law_def flat_math_def rnd_numeral)
  ultimately show ?thesis
    using argus_run_consistent [OF demo_Start _ _ _ s] s by (intro exI [of _ "[None, Some doc]"] exI [of _ s]) simp
qed

end
