(* ===== verification/Common_Messages.thy ===== *)
theory Common_Messages
  imports Common_Types "HOL-Library.Monad_Syntax"
begin

text \<open>
  The reports an agent sends and the probe data they carry (\<^verbatim>\<open>libs/common/types.go\<close>). Structs that an
  agent writes have an encoder and a decoder and keep \<open>json_codec\<close>; scamper's own JSON is only read.
\<close>

section \<open>Nested structs and slices\<close>

fun d_obj :: "json \<Rightarrow> (string \<times> json) list option" where
  "d_obj (JObj ob) = Some ob"
| "d_obj _ = None"

text \<open>A struct inside a struct: the fields of every occurrence are stored in order.\<close>

definition d_nested :: "((string \<times> json) list \<Rightarrow> 'a option) \<Rightarrow> string \<Rightarrow> (string \<times> json) list \<Rightarrow> 'a option" where
  "d_nested f name ob = those (map d_obj (j_values name ob)) \<bind> (\<lambda>obs. f (concat obs))"

text \<open>A slice field; a \<open>null\<close> element keeps the zero value.\<close>

definition d_slice :: "(json \<Rightarrow> 'a option) \<Rightarrow> 'a \<Rightarrow> string \<Rightarrow> (string \<times> json) list \<Rightarrow> 'a list option" where
  "d_slice dec z name ob = d_field (d_list (\<lambda>j. if j = JNull then Some z else dec j)) [] name ob"

definition d_str :: "string \<Rightarrow> (string \<times> json) list \<Rightarrow> string option" where
  "d_str = d_field d_string []"

definition d_num :: "string \<Rightarrow> (string \<times> json) list \<Rightarrow> int option" where
  "d_num = d_field (d_int 64) 0"

definition d_real :: "string \<Rightarrow> (string \<times> json) list \<Rightarrow> float64 option" where
  "d_real = d_field d_float (Fin 0)"

definition d_instant :: "string \<Rightarrow> (string \<times> json) list \<Rightarrow> time option" where
  "d_instant = d_field d_time time_zero"

lemmas decode_defs = d_nested_def d_slice_def d_str_def d_num_def d_real_def d_instant_def

lemma those_map_Some [json_simps]: "(\<And>x. x \<in> set xs \<Longrightarrow> f x = Some (g x)) \<Longrightarrow> those (map f xs) = Some (map g xs)"
  by (induction xs) auto

section \<open>Reports\<close>

record ProbeResult =
  pr_TaskID :: string
  pr_ProbeType :: string
  pr_Kind :: string
  pr_Timestamp :: time
  pr_Data :: "json option"

record ReportPayload =
  re_Payload :: ProbeResult
  re_SerialID :: string
  re_SentTimestamp :: time
  re_AgentConfigId :: string

definition ProbeResult_enc :: "ProbeResult \<Rightarrow> json option" where
  "ProbeResult_enc r = j_object
     [(''task_id'', Some (JStr (pr_TaskID r))), (''probe_type'', Some (JStr (pr_ProbeType r))),
      (''kind'', Some (JStr (pr_Kind r))), (''timestamp'', j_time (pr_Timestamp r)),
      (''data'', Some (j_raw (pr_Data r)))]"

definition ProbeResult_fields :: "(string \<times> json) list \<Rightarrow> ProbeResult option" where
  "ProbeResult_fields ob = do {
     task \<leftarrow> d_str ''task_id'' ob;
     ty \<leftarrow> d_str ''probe_type'' ob;
     kind \<leftarrow> d_str ''kind'' ob;
     ts \<leftarrow> d_instant ''timestamp'' ob;
     Some \<lparr>pr_TaskID = task, pr_ProbeType = ty, pr_Kind = kind, pr_Timestamp = ts,
       pr_Data = d_rawfield ''data'' ob\<rparr> }"

definition ReportPayload_enc :: "ReportPayload \<Rightarrow> json option" where
  "ReportPayload_enc r = j_object
     [(''payload'', ProbeResult_enc (re_Payload r)), (''serial_id'', Some (JStr (re_SerialID r))),
      (''sent_timestamp'', j_time (re_SentTimestamp r)), (''agent_config_id'', Some (JStr (re_AgentConfigId r)))]"

definition ReportPayload_dec :: "json \<Rightarrow> ReportPayload option" where
  "ReportPayload_dec = d_struct (\<lambda>ob. do {
     p \<leftarrow> d_nested ProbeResult_fields ''payload'' ob;
     sid \<leftarrow> d_str ''serial_id'' ob;
     ts \<leftarrow> d_instant ''sent_timestamp'' ob;
     cid \<leftarrow> d_str ''agent_config_id'' ob;
     Some \<lparr>re_Payload = p, re_SerialID = sid, re_SentTimestamp = ts, re_AgentConfigId = cid\<rparr> })"

definition ReportPayload_ok :: "ReportPayload \<Rightarrow> bool" where
  "ReportPayload_ok r \<longleftrightarrow> json_time_ok (re_SentTimestamp r) \<and> json_time_ok (pr_Timestamp (re_Payload r))
     \<and> pr_Data (re_Payload r) \<noteq> None"

interpretation ReportPayload_codec: json_codec ReportPayload_enc ReportPayload_dec ReportPayload_ok
  by unfold_locales
    (auto simp: ReportPayload_enc_def ReportPayload_dec_def ReportPayload_ok_def ProbeResult_enc_def
      ProbeResult_fields_def decode_defs d_rawfield_def j_raw_def codec_eval)

section \<open>STAMP data\<close>

record StampProbeData =
  spd_Tx :: time
  spd_IsLost :: bool
  spd_Rx :: time
  spd_Rtt :: duration
  spd_ForwardDelay :: duration
  spd_BackwardDelay :: duration

record StampData =
  sd_Target :: string
  sd_Port :: int
  sd_Sent :: int
  sd_Received :: int
  sd_Loss :: float64
  sd_Probes :: "StampProbeData list"
  sd_Timestamp :: time

text \<open>\<^verbatim>\<open>omitempty\<close> drops a zero duration, but never an instant.\<close>

definition j_omit :: "string \<Rightarrow> int \<Rightarrow> (string \<times> json option) list" where
  "j_omit name n = (if n = 0 then [] else [(name, Some (j_int n))])"

definition StampProbeData_enc :: "StampProbeData \<Rightarrow> json option" where
  "StampProbeData_enc p = j_object
     ([(''tx'', j_time (spd_Tx p)), (''is_lost'', Some (JBool (spd_IsLost p))), (''rx'', j_time (spd_Rx p))]
      @ j_omit ''rtt'' (spd_Rtt p) @ j_omit ''forward_delay'' (spd_ForwardDelay p)
      @ j_omit ''backward_delay'' (spd_BackwardDelay p))"

definition StampProbeData_dec :: "json \<Rightarrow> StampProbeData option" where
  "StampProbeData_dec = d_struct (\<lambda>ob. do {
     tx \<leftarrow> d_instant ''tx'' ob;
     lost \<leftarrow> d_field d_bool False ''is_lost'' ob;
     rx \<leftarrow> d_instant ''rx'' ob;
     rtt \<leftarrow> d_num ''rtt'' ob;
     fwd \<leftarrow> d_num ''forward_delay'' ob;
     bwd \<leftarrow> d_num ''backward_delay'' ob;
     Some \<lparr>spd_Tx = tx, spd_IsLost = lost, spd_Rx = rx, spd_Rtt = rtt, spd_ForwardDelay = fwd,
       spd_BackwardDelay = bwd\<rparr> })"

definition stamp_probe_zero :: StampProbeData where
  "stamp_probe_zero = \<lparr>spd_Tx = time_zero, spd_IsLost = False, spd_Rx = time_zero, spd_Rtt = 0,
     spd_ForwardDelay = 0, spd_BackwardDelay = 0\<rparr>"

definition StampProbeData_ok :: "StampProbeData \<Rightarrow> bool" where
  "StampProbeData_ok p \<longleftrightarrow> json_time_ok (spd_Tx p) \<and> json_time_ok (spd_Rx p) \<and> in_s 64 (spd_Rtt p)
     \<and> in_s 64 (spd_ForwardDelay p) \<and> in_s 64 (spd_BackwardDelay p)"

definition StampData_enc :: "StampData \<Rightarrow> json option" where
  "StampData_enc d = j_object
     [(''target'', Some (JStr (sd_Target d))), (''port'', Some (j_int (sd_Port d))),
      (''sent'', Some (j_int (sd_Sent d))), (''received'', Some (j_int (sd_Received d))),
      (''loss'', j_float (sd_Loss d)), (''probes'', map_option JArr (those (map StampProbeData_enc (sd_Probes d)))),
      (''timestamp'', j_time (sd_Timestamp d))]"

definition StampData_dec :: "json \<Rightarrow> StampData option" where
  "StampData_dec = d_struct (\<lambda>ob. do {
     tg \<leftarrow> d_str ''target'' ob;
     po \<leftarrow> d_num ''port'' ob;
     se \<leftarrow> d_num ''sent'' ob;
     re \<leftarrow> d_num ''received'' ob;
     lo \<leftarrow> d_real ''loss'' ob;
     ps \<leftarrow> d_slice StampProbeData_dec stamp_probe_zero ''probes'' ob;
     ts \<leftarrow> d_instant ''timestamp'' ob;
     Some \<lparr>sd_Target = tg, sd_Port = po, sd_Sent = se, sd_Received = re, sd_Loss = lo, sd_Probes = ps,
       sd_Timestamp = ts\<rparr> })"

definition StampData_ok :: "StampData \<Rightarrow> bool" where
  "StampData_ok d \<longleftrightarrow> in_s 64 (sd_Port d) \<and> in_s 64 (sd_Sent d) \<and> in_s 64 (sd_Received d)
     \<and> is_fin (sd_Loss d) \<and> wf64 (sd_Loss d) \<and> list_all StampProbeData_ok (sd_Probes d) \<and> json_time_ok (sd_Timestamp d)"

interpretation StampProbeData_codec: json_codec StampProbeData_enc StampProbeData_dec StampProbeData_ok
  by unfold_locales
    (auto simp: StampProbeData_enc_def StampProbeData_dec_def StampProbeData_ok_def decode_defs j_omit_def codec_eval
      split: if_splits)

lemma StampProbeData_enc_obj: "StampProbeData_enc p \<noteq> Some JNull"
  by (auto simp: StampProbeData_enc_def j_object_def)

lemma those_enc:
  "those (map StampProbeData_enc ps) = Some js \<Longrightarrow> list_all StampProbeData_ok ps \<Longrightarrow>
   those (map (\<lambda>j. if j = JNull then Some stamp_probe_zero else StampProbeData_dec j) js) = Some ps"
proof (induction ps arbitrary: js)
  case (Cons p ps)
  then obtain j js' where j: "StampProbeData_enc p = Some j" "those (map StampProbeData_enc ps) = Some js'" "js = j # js'"
    by (auto split: option.splits)
  moreover have "j \<noteq> JNull" using j(1) StampProbeData_enc_obj [of p] by auto
  ultimately show ?case using Cons StampProbeData_codec.dec_enc [of p j] by simp
qed simp

lemma those_enc_total: "list_all StampProbeData_ok ps \<Longrightarrow> \<exists>js. those (map StampProbeData_enc ps) = Some js"
  using StampProbeData_codec.enc_total by (induction ps) fastforce+

interpretation StampData_codec: json_codec StampData_enc StampData_dec StampData_ok
proof
  fix d j
  assume ok: "StampData_ok d"
  then obtain js where js: "those (map StampProbeData_enc (sd_Probes d)) = Some js"
    using those_enc_total by (auto simp: StampData_ok_def)
  note dec = those_enc [OF js]
  obtain l where l: "sd_Loss d = Fin l" using ok by (cases "sd_Loss d") (auto simp: StampData_ok_def)
  show "StampData_enc d \<noteq> None" using ok by (simp add: StampData_enc_def StampData_ok_def js l codec_eval)
  assume "StampData_enc d = Some j"
  then show "StampData_dec j = Some d"
    using ok dec unfolding l
    by (auto simp: StampData_enc_def StampData_dec_def StampData_ok_def js l decode_defs codec_eval)
qed

section \<open>Ping data\<close>

text \<open>The JSON form of scamper's ping record.\<close>

record sec_usec =
  su_Sec :: int
  su_Usec :: int

record PingResponse =
  pg_From :: string
  pg_ReplySize :: int
  pg_ReplyTTL :: int
  pg_Seq :: int
  pg_Tx :: sec_usec
  pg_IcmpID :: int
  pg_IcmpSeq :: int
  pg_ProbeIpid :: int
  pg_ReplyProto :: string
  pg_Ifname :: string
  pg_Rx :: sec_usec
  pg_Rtt :: float64
  pg_ReplyIpid :: int
  pg_ReplyTos :: int
  pg_IcmpType :: int
  pg_IcmpCode :: int

record PingStatistics =
  pst_Replies :: int
  pst_Loss :: float64
  pst_Min :: float64
  pst_Max :: float64
  pst_Avg :: float64
  pst_Stddev :: float64

record PingDataPayload =
  pd_Type :: string
  pd_Version :: string
  pd_Method :: string
  pd_Src :: string
  pd_Dst :: string
  pd_Start :: sec_usec
  pd_StopReason :: string
  pd_StopData :: int
  pd_PingSent :: int
  pd_ProbeSize :: int
  pd_Userid :: int
  pd_TTL :: int
  pd_Tos :: int
  pd_Wait :: int
  pd_Timeout :: int
  pd_Responses :: "PingResponse list"
  pd_NoResponses :: "json list"
  pd_Statistics :: PingStatistics

definition sec_usec_fields :: "(string \<times> json) list \<Rightarrow> sec_usec option" where
  "sec_usec_fields ob = do {
     s \<leftarrow> d_num ''sec'' ob;
     u \<leftarrow> d_num ''usec'' ob;
     Some \<lparr>su_Sec = s, su_Usec = u\<rparr> }"

definition PingResponse_dec :: "json \<Rightarrow> PingResponse option" where
  "PingResponse_dec = d_struct (\<lambda>ob. do {
     from \<leftarrow> d_str ''from'' ob;
     rsize \<leftarrow> d_num ''reply_size'' ob;
     rttl \<leftarrow> d_num ''reply_ttl'' ob;
     sq \<leftarrow> d_num ''seq'' ob;
     tx \<leftarrow> d_nested sec_usec_fields ''tx'' ob;
     iid \<leftarrow> d_num ''icmp_id'' ob;
     iseq \<leftarrow> d_num ''icmp_seq'' ob;
     pip \<leftarrow> d_num ''probe_ipid'' ob;
     proto \<leftarrow> d_str ''reply_proto'' ob;
     ifn \<leftarrow> d_str ''ifname'' ob;
     rx \<leftarrow> d_nested sec_usec_fields ''rx'' ob;
     rtt \<leftarrow> d_real ''rtt'' ob;
     rip \<leftarrow> d_num ''reply_ipid'' ob;
     tos \<leftarrow> d_num ''reply_tos'' ob;
     ity \<leftarrow> d_num ''icmp_type'' ob;
     icd \<leftarrow> d_num ''icmp_code'' ob;
     Some \<lparr>pg_From = from, pg_ReplySize = rsize, pg_ReplyTTL = rttl, pg_Seq = sq, pg_Tx = tx, pg_IcmpID = iid,
       pg_IcmpSeq = iseq, pg_ProbeIpid = pip, pg_ReplyProto = proto, pg_Ifname = ifn, pg_Rx = rx, pg_Rtt = rtt,
       pg_ReplyIpid = rip, pg_ReplyTos = tos, pg_IcmpType = ity, pg_IcmpCode = icd\<rparr> })"

definition PingStatistics_fields :: "(string \<times> json) list \<Rightarrow> PingStatistics option" where
  "PingStatistics_fields ob = do {
     re \<leftarrow> d_num ''replies'' ob;
     lo \<leftarrow> d_real ''loss'' ob;
     mi \<leftarrow> d_real ''min'' ob;
     ma \<leftarrow> d_real ''max'' ob;
     av \<leftarrow> d_real ''avg'' ob;
     sd \<leftarrow> d_real ''stddev'' ob;
     Some \<lparr>pst_Replies = re, pst_Loss = lo, pst_Min = mi, pst_Max = ma, pst_Avg = av, pst_Stddev = sd\<rparr> }"

definition ping_response_zero :: PingResponse where
  "ping_response_zero = \<lparr>pg_From = [], pg_ReplySize = 0, pg_ReplyTTL = 0, pg_Seq = 0,
     pg_Tx = \<lparr>su_Sec = 0, su_Usec = 0\<rparr>, pg_IcmpID = 0, pg_IcmpSeq = 0, pg_ProbeIpid = 0, pg_ReplyProto = [],
     pg_Ifname = [], pg_Rx = \<lparr>su_Sec = 0, su_Usec = 0\<rparr>, pg_Rtt = Fin 0, pg_ReplyIpid = 0, pg_ReplyTos = 0,
     pg_IcmpType = 0, pg_IcmpCode = 0\<rparr>"

definition PingDataPayload_dec :: "json \<Rightarrow> PingDataPayload option" where
  "PingDataPayload_dec = d_struct (\<lambda>ob. do {
     ty \<leftarrow> d_str ''type'' ob;
     ver \<leftarrow> d_str ''version'' ob;
     meth \<leftarrow> d_str ''method'' ob;
     src \<leftarrow> d_str ''src'' ob;
     dst \<leftarrow> d_str ''dst'' ob;
     start \<leftarrow> d_nested sec_usec_fields ''start'' ob;
     sr \<leftarrow> d_str ''stop_reason'' ob;
     sdata \<leftarrow> d_num ''stop_data'' ob;
     sent \<leftarrow> d_num ''ping_sent'' ob;
     psize \<leftarrow> d_num ''probe_size'' ob;
     uid \<leftarrow> d_num ''userid'' ob;
     ttl \<leftarrow> d_num ''ttl'' ob;
     tos \<leftarrow> d_num ''tos'' ob;
     wait \<leftarrow> d_num ''wait'' ob;
     tmo \<leftarrow> d_num ''timeout'' ob;
     resp \<leftarrow> d_slice PingResponse_dec ping_response_zero ''responses'' ob;
     nores \<leftarrow> d_slice Some JNull ''no_responses'' ob;
     stats \<leftarrow> d_nested PingStatistics_fields ''statistics'' ob;
     Some \<lparr>pd_Type = ty, pd_Version = ver, pd_Method = meth, pd_Src = src, pd_Dst = dst, pd_Start = start,
       pd_StopReason = sr, pd_StopData = sdata, pd_PingSent = sent, pd_ProbeSize = psize, pd_Userid = uid,
       pd_TTL = ttl, pd_Tos = tos, pd_Wait = wait, pd_Timeout = tmo, pd_Responses = resp, pd_NoResponses = nores,
       pd_Statistics = stats\<rparr> })"

end
