(* ===== verification/Agent_Wire.thy ===== *)
theory Agent_Wire
  imports Common_Messages
begin

text \<open>
  The configuration contract between the control plane and the agents
  (\<^verbatim>\<open>proto/cepheus/agent/v1/agent.proto\<close>, whose Go form is generated): one record per message, one
  constructor per member of a oneof. The wire encoding itself belongs to the protobuf runtime. So do
  durations and timestamps: \<open>proto_lib\<close> has the runtime's conversions as parameters.
\<close>

record pb_Duration =
  du_seconds :: int
  du_nanos :: int

record proto_lib =
  pl_New :: "duration \<Rightarrow> pb_Duration"
  pl_AsDuration :: "pb_Duration option \<Rightarrow> duration"
  pl_AsTime :: "(int \<times> int) option \<Rightarrow> time"

text \<open>The runtime documents that a duration converted and converted again is unchanged.\<close>

definition duration_law :: "proto_lib \<Rightarrow> bool" where
  "duration_law L \<longleftrightarrow> (\<forall>d. in_s 64 d \<longrightarrow> pl_AsDuration L (Some (pl_New L d)) = d)"

datatype pb_TaskType =
    TT_UNSPECIFIED
  | TT_STAMP_SENDER
  | TT_STAMP_REFLECTOR
  | TT_TRACE
  | TT_TRACE_LB
  | TT_PING
  | TT_unknown int

record pb_TaskSchedule =
  ws_enabled :: bool
  ws_interval_seconds :: int
  ws_jitter_percent :: int

record pb_PingParams =
  wp_target :: string
  wp_source_ip :: string
  wp_count :: int
  wp_size :: int
  wp_dscp :: int
  wp_timeout_seconds :: int

record pb_TraceParams =
  wt_target :: string
  wt_source_ip :: string
  wt_method :: string
  wt_max_ttl :: int
  wt_first_ttl :: int
  wt_dscp :: int
  wt_wait_seconds :: int

record pb_TraceLbParams =
  wl_target :: string
  wl_source_ip :: string
  wl_max_ttl :: int
  wl_first_ttl :: int
  wl_dscp :: int
  wl_confidence :: float64

record pb_StampSenderParams =
  wss_target :: string
  wss_target_port :: int
  wss_source_ip :: string
  wss_dscp :: int
  wss_require_clock_sync :: bool
  wss_packet_count :: int
  wss_packet_interval :: "pb_Duration option"

record pb_StampReflectorParams =
  wsr_listen_port :: int
  wsr_source_ip :: string
  wsr_dscp :: int
  wsr_require_clock_sync :: bool

datatype pb_Params =
    W_Ping pb_PingParams
  | W_Trace pb_TraceParams
  | W_TraceLb pb_TraceLbParams
  | W_StampSender pb_StampSenderParams
  | W_StampReflector pb_StampReflectorParams

record pb_Task =
  wk_task_id :: string
  wk_type :: pb_TaskType
  wk_enabled :: bool
  wk_generation :: int
  wk_schedule :: "pb_TaskSchedule option"
  wk_params :: "pb_Params option"

datatype pb_PendingActionType = PA_UNSPECIFIED | PA_RESTART | PA_unknown int

record pb_PendingAction =
  wa_id :: string
  wa_type :: pb_PendingActionType
  wa_created_on :: int
  wa_scheduled_on :: "(int \<times> int) option"

record pb_AgentConfig =
  wc_id :: string
  wc_generation :: int
  wc_report_endpoint :: string
  wc_report_batch_size :: int
  wc_report_interval_seconds :: int
  wc_report_timeout_seconds :: int
  wc_pending_actions :: "pb_PendingAction list"
  wc_tasks :: "pb_Task list"
  wc_updated_at :: int
  wc_scamper_pps :: int

definition pb_config_zero :: pb_AgentConfig where
  "pb_config_zero = \<lparr>wc_id = [], wc_generation = 0, wc_report_endpoint = [], wc_report_batch_size = 0,
     wc_report_interval_seconds = 0, wc_report_timeout_seconds = 0, wc_pending_actions = [], wc_tasks = [],
     wc_updated_at = 0, wc_scamper_pps = 0\<rparr>"

end
