(* ===== verification/Server_Config.thy ===== *)
theory Server_Config
  imports Agent_Wire
begin

text \<open>
  The control plane's configuration service (\<^verbatim>\<open>services/server/handler/agent_config.go\<close>): the rows of the
  device query become the message for the agent. The query is a parameter: its rows in order, each of
  which may fail to scan, and whether the iteration ends with an error. The columns of the left-joined task are
  nullable.
\<close>

record config_row =
  cr_id :: string
  cr_generation :: int
  cr_report_endpoint :: string
  cr_report_batch :: int
  cr_report_interval :: int
  cr_report_timeout :: int
  cr_updated_at :: int
  cr_task_id :: "string option"
  cr_type :: "string option"
  cr_enabled :: "bool option"
  cr_task_generation :: "int option"
  cr_params :: "json option"
  cr_interval :: "int option"
  cr_jitter :: "int option"
  cr_schedule_enabled :: "bool option"

record query_result =
  qr_rows :: "config_row option list"
  qr_err :: bool

definition taskTypePing :: string where "taskTypePing = ''ping''"
definition taskTypeTrace :: string where "taskTypeTrace = ''trace''"
definition taskTypeTraceLb :: string where "taskTypeTraceLb = ''tracelb''"
definition taskTypeStampSender :: string where "taskTypeStampSender = ''stamp-sender''"
definition taskTypeStampReflector :: string where "taskTypeStampReflector = ''stamp-reflector''"

lemmas task_type_defs = taskTypePing_def taskTypeTrace_def taskTypeTraceLb_def taskTypeStampSender_def
  taskTypeStampReflector_def

definition taskTypeToProto :: "string \<Rightarrow> pb_TaskType" where
  "taskTypeToProto t =
     (if t = taskTypePing then TT_PING
      else if t = taskTypeTrace then TT_TRACE
      else if t = taskTypeTraceLb then TT_TRACE_LB
      else if t = taskTypeStampSender then TT_STAMP_SENDER
      else if t = taskTypeStampReflector then TT_STAMP_REFLECTOR
      else TT_UNSPECIFIED)"

section \<open>Task parameters\<close>

definition ping_params :: "json \<Rightarrow> pb_PingParams option" where
  "ping_params = d_struct (\<lambda>ob. do {
     tg \<leftarrow> d_str ''target'' ob;
     sip \<leftarrow> d_str ''source_ip'' ob;
     cnt \<leftarrow> d_num ''count'' ob;
     sz \<leftarrow> d_num ''size'' ob;
     dscp \<leftarrow> d_num ''dscp'' ob;
     tmo \<leftarrow> d_num ''timeout_seconds'' ob;
     Some \<lparr>wp_target = tg, wp_source_ip = sip, wp_count = int32 cnt, wp_size = int32 sz, wp_dscp = int32 dscp,
       wp_timeout_seconds = int32 tmo\<rparr> })"

definition trace_params :: "json \<Rightarrow> pb_TraceParams option" where
  "trace_params = d_struct (\<lambda>ob. do {
     tg \<leftarrow> d_str ''target'' ob;
     sip \<leftarrow> d_str ''source_ip'' ob;
     meth \<leftarrow> d_str ''method'' ob;
     mx \<leftarrow> d_num ''max_ttl'' ob;
     fs \<leftarrow> d_num ''first_ttl'' ob;
     dscp \<leftarrow> d_num ''dscp'' ob;
     wt \<leftarrow> d_num ''wait_seconds'' ob;
     Some \<lparr>wt_target = tg, wt_source_ip = sip, wt_method = meth, wt_max_ttl = int32 mx, wt_first_ttl = int32 fs,
       wt_dscp = int32 dscp, wt_wait_seconds = int32 wt\<rparr> })"

definition tracelb_params :: "json \<Rightarrow> pb_TraceLbParams option" where
  "tracelb_params = d_struct (\<lambda>ob. do {
     tg \<leftarrow> d_str ''target'' ob;
     sip \<leftarrow> d_str ''source_ip'' ob;
     mx \<leftarrow> d_num ''max_ttl'' ob;
     fs \<leftarrow> d_num ''first_ttl'' ob;
     dscp \<leftarrow> d_num ''dscp'' ob;
     conf \<leftarrow> d_real ''confidence'' ob;
     Some \<lparr>wl_target = tg, wl_source_ip = sip, wl_max_ttl = int32 mx, wl_first_ttl = int32 fs,
       wl_dscp = int32 dscp, wl_confidence = conf\<rparr> })"

definition stamp_sender_params :: "proto_lib \<Rightarrow> json \<Rightarrow> pb_StampSenderParams option" where
  "stamp_sender_params L = d_struct (\<lambda>ob. do {
     tg \<leftarrow> d_str ''target'' ob;
     po \<leftarrow> d_num ''target_port'' ob;
     sip \<leftarrow> d_str ''source_ip'' ob;
     dscp \<leftarrow> d_num ''dscp'' ob;
     sync \<leftarrow> d_field d_bool False ''require_clock_sync'' ob;
     cnt \<leftarrow> d_num ''packet_count'' ob;
     iv \<leftarrow> d_num ''packet_interval'' ob;
     Some \<lparr>wss_target = tg, wss_target_port = int32 po, wss_source_ip = sip, wss_dscp = int32 dscp,
       wss_require_clock_sync = sync, wss_packet_count = int32 cnt, wss_packet_interval = Some (pl_New L iv)\<rparr> })"

definition stamp_reflector_params :: "json \<Rightarrow> pb_StampReflectorParams option" where
  "stamp_reflector_params = d_struct (\<lambda>ob. do {
     po \<leftarrow> d_num ''listen_port'' ob;
     sip \<leftarrow> d_str ''source_ip'' ob;
     dscp \<leftarrow> d_num ''dscp'' ob;
     sync \<leftarrow> d_field d_bool False ''require_clock_sync'' ob;
     Some \<lparr>wsr_listen_port = int32 po, wsr_source_ip = sip, wsr_dscp = int32 dscp, wsr_require_clock_sync = sync\<rparr> })"

text \<open>The parameters set on the task, or an error.\<close>

definition setTaskParams :: "proto_lib \<Rightarrow> string \<Rightarrow> json \<Rightarrow> pb_Params option" where
  "setTaskParams L taskType raw =
     (if taskType = taskTypePing then map_option W_Ping (ping_params raw)
      else if taskType = taskTypeTrace then map_option W_Trace (trace_params raw)
      else if taskType = taskTypeTraceLb then map_option W_TraceLb (tracelb_params raw)
      else if taskType = taskTypeStampSender then map_option W_StampSender (stamp_sender_params L raw)
      else if taskType = taskTypeStampReflector then map_option W_StampReflector (stamp_reflector_params raw)
      else None)"

section \<open>Assembling the configuration\<close>

datatype server_error = CodeInvalidArgument | CodeNotFound | CodeInternal

datatype load_error = AgentNotFound | LoadFailed

definition opt :: "'a \<Rightarrow> 'a option \<Rightarrow> 'a" where
  "opt z x = (case x of None \<Rightarrow> z | Some a \<Rightarrow> a)"

definition row_config :: "config_row \<Rightarrow> pb_AgentConfig \<Rightarrow> pb_AgentConfig" where
  "row_config r cfg = cfg\<lparr>wc_id := cr_id r, wc_report_endpoint := cr_report_endpoint r,
     wc_generation := int32 (cr_generation r), wc_report_batch_size := int32 (cr_report_batch r),
     wc_report_interval_seconds := int32 (cr_report_interval r),
     wc_report_timeout_seconds := int32 (cr_report_timeout r), wc_updated_at := cr_updated_at r\<rparr>"

definition row_task :: "proto_lib \<Rightarrow> config_row \<Rightarrow> string \<Rightarrow> pb_Task option" where
  "row_task L r taskID =
     (let typeStr = opt [] (cr_type r);
          task = \<lparr>wk_task_id = taskID, wk_type = taskTypeToProto typeStr, wk_enabled = opt False (cr_enabled r),
            wk_generation = int32 (opt 0 (cr_task_generation r)),
            wk_schedule = Some \<lparr>ws_enabled = opt False (cr_schedule_enabled r),
              ws_interval_seconds = int32 (opt 0 (cr_interval r)), ws_jitter_percent = int32 (opt 0 (cr_jitter r))\<rparr>,
            wk_params = None\<rparr>
      in case cr_params r of
           None \<Rightarrow> Some task
         | Some raw \<Rightarrow> (case setTaskParams L typeStr raw of
             None \<Rightarrow> None
           | Some p \<Rightarrow> Some (task\<lparr>wk_params := Some p\<rparr>)))"

fun load_rows :: "proto_lib \<Rightarrow> config_row option list \<Rightarrow> pb_AgentConfig \<Rightarrow> (load_error, pb_AgentConfig) outcome" where
  "load_rows L [] cfg = Ret cfg"
| "load_rows L (None # rs) cfg = Err LoadFailed"
| "load_rows L (Some r # rs) cfg =
     (let cfg' = row_config r cfg in
      case cr_task_id r of
        None \<Rightarrow> load_rows L rs cfg'
      | Some taskID \<Rightarrow> (case row_task L r taskID of
          None \<Rightarrow> Err LoadFailed
        | Some task \<Rightarrow> load_rows L rs (cfg'\<lparr>wc_tasks := wc_tasks cfg' @ [task]\<rparr>)))"

text \<open>\<open>None\<close> is a query that fails.\<close>

definition loadAgentConfig :: "proto_lib \<Rightarrow> query_result option \<Rightarrow> (load_error, pb_AgentConfig) outcome" where
  "loadAgentConfig L q = (case q of
       None \<Rightarrow> Err LoadFailed
     | Some res \<Rightarrow> obind (load_rows L (qr_rows res) pb_config_zero) (\<lambda>cfg.
         if qr_err res then Err LoadFailed
         else if qr_rows res = [] then Err AgentNotFound
         else Ret cfg))"

definition GetAgentConfig ::
  "proto_lib \<Rightarrow> (string \<Rightarrow> query_result option) \<Rightarrow> string \<Rightarrow> (server_error, pb_AgentConfig) outcome" where
  "GetAgentConfig L query serialID =
     (if serialID = [] then Err CodeInvalidArgument
      else case loadAgentConfig L (query serialID) of
        Ret cfg \<Rightarrow> Ret cfg
      | Err AgentNotFound \<Rightarrow> Err CodeNotFound
      | Err LoadFailed \<Rightarrow> Err CodeInternal
      | Panic \<Rightarrow> Panic)"

end
