(* ===== verification/Agent_Config.thy ===== *)
theory Agent_Config
  imports Server_Config
begin

text \<open>
  The agent's own configuration model and its mapping from the wire
  (\<^verbatim>\<open>services/agent/domain.go\<close>, \<^verbatim>\<open>config_from_proto.go\<close>), and what control plane and agent
  together make of the stored configuration.
\<close>

section \<open>Domain types\<close>

definition TaskTypeStampSender :: string where "TaskTypeStampSender = ''stamp-sender''"
definition TaskTypeStampReflector :: string where "TaskTypeStampReflector = ''stamp-reflector''"
definition TaskTypeTrace :: string where "TaskTypeTrace = ''trace''"
definition TaskTypeTraceLb :: string where "TaskTypeTraceLb = ''tracelb''"
definition TaskTypePing :: string where "TaskTypePing = ''ping''"

lemmas TaskType_defs = TaskTypeStampSender_def TaskTypeStampReflector_def TaskTypeTrace_def TaskTypeTraceLb_def
  TaskTypePing_def

record PingParams =
  pp_Target :: string
  pp_SourceIP :: string
  pp_Count :: int
  pp_Size :: int
  pp_Dscp :: int
  pp_Timeout :: int

record TraceParams =
  tp_Target :: string
  tp_SourceIP :: string
  tp_Method :: string
  tp_MaxTTL :: int
  tp_FirstTTL :: int
  tp_Dscp :: int
  tp_WaitSeconds :: int

record TraceLbParams =
  lp_Target :: string
  lp_SourceIP :: string
  lp_MaxTTL :: int
  lp_FirstTTL :: int
  lp_Dscp :: int
  lp_Confidence :: float64

record StampSenderParams =
  ssp_Target :: string
  ssp_TargetPort :: int
  ssp_SourceIP :: string
  ssp_Dscp :: int
  ssp_RequireClockSync :: bool
  ssp_PacketCount :: int
  ssp_PacketInterval :: duration

record StampReflectorParams =
  srp_ListenPort :: int
  srp_SourceIP :: string
  srp_Dscp :: int
  srp_RequireClockSync :: bool

datatype TaskParams =
    P_Ping PingParams
  | P_Trace TraceParams
  | P_TraceLb TraceLbParams
  | P_StampSender StampSenderParams
  | P_StampReflector StampReflectorParams

record TaskSchedule =
  sch_Enabled :: bool
  sch_IntervalSeconds :: int
  sch_JitterPercent :: int

record Task =
  tk_TaskID :: string
  tk_Type :: string
  tk_Enabled :: bool
  tk_Generation :: int
  tk_Params :: "TaskParams option"
  tk_Schedule :: TaskSchedule

definition PendingActionRestart :: string where "PendingActionRestart = ''restart''"

record PendingAction =
  pa_ID :: string
  pa_Type :: string
  pa_CreatedOn :: int
  pa_ScheduledOn :: time

record AgentConfig =
  ac_ID :: string
  ac_Generation :: int
  ac_ReportEndpoint :: string
  ac_ReportBatchSize :: int
  ac_ReportIntervalSeconds :: int
  ac_ReportTimeoutSeconds :: int
  ac_PendingActions :: "PendingAction list"
  ac_Tasks :: "Task list"
  ac_UpdatedAt :: int
  ac_ScamperPPS :: int

section \<open>From the wire\<close>

definition taskTypeFromProto :: "pb_TaskType \<Rightarrow> (string, string) outcome" where
  "taskTypeFromProto t = (case t of
       TT_STAMP_SENDER \<Rightarrow> Ret TaskTypeStampSender
     | TT_STAMP_REFLECTOR \<Rightarrow> Ret TaskTypeStampReflector
     | TT_TRACE \<Rightarrow> Ret TaskTypeTrace
     | TT_TRACE_LB \<Rightarrow> Ret TaskTypeTraceLb
     | TT_PING \<Rightarrow> Ret TaskTypePing
     | _ \<Rightarrow> Err ''unknown task type'')"

definition pendingActionTypeFromProto :: "pb_PendingActionType \<Rightarrow> (string, string) outcome" where
  "pendingActionTypeFromProto t = (case t of
       PA_RESTART \<Rightarrow> Ret PendingActionRestart
     | _ \<Rightarrow> Err ''unknown pending action type'')"

definition taskParamsFromProto :: "proto_lib \<Rightarrow> pb_Params option \<Rightarrow> TaskParams option" where
  "taskParamsFromProto L p = (case p of
       None \<Rightarrow> None
     | Some (W_Ping v) \<Rightarrow> Some (P_Ping \<lparr>pp_Target = wp_target v, pp_SourceIP = wp_source_ip v, pp_Count = wp_count v,
         pp_Size = wp_size v, pp_Dscp = wp_dscp v, pp_Timeout = wp_timeout_seconds v\<rparr>)
     | Some (W_Trace v) \<Rightarrow> Some (P_Trace \<lparr>tp_Target = wt_target v, tp_SourceIP = wt_source_ip v, tp_Method = wt_method v,
         tp_MaxTTL = wt_max_ttl v, tp_FirstTTL = wt_first_ttl v, tp_Dscp = wt_dscp v, tp_WaitSeconds = wt_wait_seconds v\<rparr>)
     | Some (W_TraceLb v) \<Rightarrow> Some (P_TraceLb \<lparr>lp_Target = wl_target v, lp_SourceIP = wl_source_ip v, lp_MaxTTL = wl_max_ttl v,
         lp_FirstTTL = wl_first_ttl v, lp_Dscp = wl_dscp v, lp_Confidence = wl_confidence v\<rparr>)
     | Some (W_StampSender v) \<Rightarrow> Some (P_StampSender \<lparr>ssp_Target = wss_target v, ssp_TargetPort = wss_target_port v,
         ssp_SourceIP = wss_source_ip v, ssp_Dscp = wss_dscp v, ssp_RequireClockSync = wss_require_clock_sync v,
         ssp_PacketCount = wss_packet_count v, ssp_PacketInterval = pl_AsDuration L (wss_packet_interval v)\<rparr>)
     | Some (W_StampReflector v) \<Rightarrow> Some (P_StampReflector \<lparr>srp_ListenPort = wsr_listen_port v,
         srp_SourceIP = wsr_source_ip v, srp_Dscp = wsr_dscp v, srp_RequireClockSync = wsr_require_clock_sync v\<rparr>))"

definition schedule_of :: "pb_TaskSchedule option \<Rightarrow> TaskSchedule" where
  "schedule_of s = (case s of
       None \<Rightarrow> \<lparr>sch_Enabled = False, sch_IntervalSeconds = 0, sch_JitterPercent = 0\<rparr>
     | Some v \<Rightarrow> \<lparr>sch_Enabled = ws_enabled v, sch_IntervalSeconds = ws_interval_seconds v,
         sch_JitterPercent = ws_jitter_percent v\<rparr>)"

definition taskFromProto :: "proto_lib \<Rightarrow> pb_Task \<Rightarrow> (string, Task) outcome" where
  "taskFromProto L t = obind (taskTypeFromProto (wk_type t)) (\<lambda>taskType.
     Ret \<lparr>tk_TaskID = wk_task_id t, tk_Type = taskType, tk_Enabled = wk_enabled t, tk_Generation = wk_generation t,
       tk_Params = taskParamsFromProto L (wk_params t), tk_Schedule = schedule_of (wk_schedule t)\<rparr>)"

definition pendingActionFromProto :: "proto_lib \<Rightarrow> pb_PendingAction \<Rightarrow> (string, PendingAction) outcome" where
  "pendingActionFromProto L a = obind (pendingActionTypeFromProto (wa_type a)) (\<lambda>actionType.
     Ret \<lparr>pa_ID = wa_id a, pa_Type = actionType, pa_CreatedOn = wa_created_on a,
       pa_ScheduledOn = pl_AsTime L (wa_scheduled_on a)\<rparr>)"

fun omap :: "('a \<Rightarrow> ('e, 'b) outcome) \<Rightarrow> 'a list \<Rightarrow> ('e, 'b list) outcome" where
  "omap f [] = Ret []"
| "omap f (x # xs) = obind (f x) (\<lambda>y. obind (omap f xs) (\<lambda>ys. Ret (y # ys)))"

text \<open>\<open>None\<close> is a response without a configuration.\<close>

definition agentConfigFromProto :: "proto_lib \<Rightarrow> pb_AgentConfig option \<Rightarrow> (string, AgentConfig) outcome" where
  "agentConfigFromProto L resp = (case resp of
       None \<Rightarrow> Err ''response carries no agent config''
     | Some pb \<Rightarrow>
         obind (omap (taskFromProto L) (wc_tasks pb)) (\<lambda>tasks.
         obind (omap (pendingActionFromProto L) (wc_pending_actions pb)) (\<lambda>actions.
         Ret \<lparr>ac_ID = wc_id pb, ac_Generation = wc_generation pb, ac_ReportEndpoint = wc_report_endpoint pb,
           ac_ReportBatchSize = wc_report_batch_size pb, ac_ReportIntervalSeconds = wc_report_interval_seconds pb,
           ac_ReportTimeoutSeconds = wc_report_timeout_seconds pb, ac_PendingActions = actions, ac_Tasks = tasks,
           ac_UpdatedAt = wc_updated_at pb, ac_ScamperPPS = wc_scamper_pps pb\<rparr>)))"

section \<open>From the tables to the agent\<close>

definition known_type :: "string \<Rightarrow> bool" where
  "known_type t \<longleftrightarrow> t \<in> {TaskTypeStampSender, TaskTypeStampReflector, TaskTypeTrace, TaskTypeTraceLb, TaskTypePing}"

text \<open>The parameters that the executor of a task type asserts.\<close>

fun params_fit :: "string \<Rightarrow> TaskParams option \<Rightarrow> bool" where
  "params_fit t None = True"
| "params_fit t (Some (P_Ping _)) = (t = TaskTypePing)"
| "params_fit t (Some (P_Trace _)) = (t = TaskTypeTrace)"
| "params_fit t (Some (P_TraceLb _)) = (t = TaskTypeTraceLb)"
| "params_fit t (Some (P_StampSender _)) = (t = TaskTypeStampSender)"
| "params_fit t (Some (P_StampReflector _)) = (t = TaskTypeStampReflector)"

definition task_rows :: "config_row option list \<Rightarrow> config_row list" where
  "task_rows rows = filter (\<lambda>r. cr_task_id r \<noteq> None) (map the rows)"

text \<open>A task as the agent runs it against the row it is stored in.\<close>

definition serves :: "proto_lib \<Rightarrow> config_row \<Rightarrow> Task \<Rightarrow> bool" where
  "serves L r t \<longleftrightarrow> cr_task_id r = Some (tk_TaskID t) \<and> tk_Type t = opt [] (cr_type r)
     \<and> tk_Enabled t = opt False (cr_enabled r) \<and> tk_Generation t = int32 (opt 0 (cr_task_generation r))
     \<and> tk_Schedule t = \<lparr>sch_Enabled = opt False (cr_schedule_enabled r),
         sch_IntervalSeconds = int32 (opt 0 (cr_interval r)), sch_JitterPercent = int32 (opt 0 (cr_jitter r))\<rparr>
     \<and> tk_Params t = Option.bind (cr_params r) (\<lambda>raw. taskParamsFromProto L (setTaskParams L (tk_Type t) raw))
     \<and> (tk_Params t = None \<longleftrightarrow> cr_params r = None) \<and> params_fit (tk_Type t) (tk_Params t)"

lemma type_round_trip:
  "taskTypeFromProto (taskTypeToProto t) = (if known_type t then Ret t else Err ''unknown task type'')"
  by (auto simp: taskTypeFromProto_def taskTypeToProto_def known_type_def task_type_defs TaskType_defs)

lemma setTaskParams_fit:
  "setTaskParams L ty raw = Some p \<Longrightarrow> taskParamsFromProto L (Some p) \<noteq> None \<and> params_fit ty (taskParamsFromProto L (Some p))"
  by (auto simp: setTaskParams_def taskParamsFromProto_def task_type_defs TaskType_defs split: if_splits)

lemma row_task_serves:
  assumes "row_task L r i = Some pt" "cr_task_id r = Some i"
  shows "case taskFromProto L pt of Ret t \<Rightarrow> known_type (opt [] (cr_type r)) \<and> serves L r t
    | Err _ \<Rightarrow> \<not> known_type (opt [] (cr_type r)) | Panic \<Rightarrow> False"
  using assms setTaskParams_fit [of L "opt [] (cr_type r)"]
  by (auto simp: row_task_def Let_def taskFromProto_def type_round_trip serves_def schedule_of_def
      taskParamsFromProto_def [of L None] split: option.splits)

lemma load_rows_tasks:
  assumes "load_rows L rows cfg = Ret cfg'"
  shows "\<exists>ts. wc_tasks cfg' = wc_tasks cfg @ ts \<and> wc_pending_actions cfg' = wc_pending_actions cfg
    \<and> wc_scamper_pps cfg' = wc_scamper_pps cfg
    \<and> list_all2 (\<lambda>r t. \<exists>i. cr_task_id r = Some i \<and> row_task L r i = Some t) (task_rows rows) ts"
  using assms
proof (induction L rows cfg rule: load_rows.induct)
  case (3 L r rs cfg)
  show ?case
  proof (cases "cr_task_id r")
    case None
    then show ?thesis using 3 by (auto simp: Let_def task_rows_def row_config_def)
  next
    case (Some i)
    then obtain t where t: "row_task L r i = Some t" using 3(3) by (auto simp: Let_def split: option.splits)
    let ?cfg = "(row_config r cfg)\<lparr>wc_tasks := wc_tasks (row_config r cfg) @ [t]\<rparr>"
    have "load_rows L rs ?cfg = Ret cfg'" using 3(3) Some t by (simp add: Let_def)
    from 3(2) [OF HOL.refl Some t this] obtain ts where ts: "wc_tasks cfg' = wc_tasks ?cfg @ ts"
      "wc_pending_actions cfg' = wc_pending_actions ?cfg" "wc_scamper_pps cfg' = wc_scamper_pps ?cfg"
      "list_all2 (\<lambda>r t. \<exists>i. cr_task_id r = Some i \<and> row_task L r i = Some t) (task_rows rs) ts" by blast
    show ?thesis
      by (rule exI [of _ "t # ts"]) (use ts t Some in \<open>simp add: row_config_def task_rows_def\<close>)
  qed
qed (simp_all add: task_rows_def)

lemma omap_tasks:
  assumes "list_all2 (\<lambda>r t. \<exists>i. cr_task_id r = Some i \<and> row_task L r i = Some t) rs ts"
  shows "case omap (taskFromProto L) ts of
      Ret tasks \<Rightarrow> list_all2 (serves L) rs tasks \<and> list_all (\<lambda>r. known_type (opt [] (cr_type r))) rs
    | Err _ \<Rightarrow> \<not> list_all (\<lambda>r. known_type (opt [] (cr_type r))) rs | Panic \<Rightarrow> False"
  using assms
proof (induction rule: list_all2_induct)
  case (Cons r rs t ts)
  then obtain i where "cr_task_id r = Some i" "row_task L r i = Some t" by blast
  note 1 = row_task_serves [OF this(2,1)]
  show ?case using 1 Cons.IH
    by (cases "taskFromProto L t"; cases "omap (taskFromProto L) ts") auto
qed simp

lemma served_config:
  assumes "GetAgentConfig L query sid = Ret pb" "query sid = Some res"
  shows "case agentConfigFromProto L (Some pb) of
      Ret c \<Rightarrow> list_all2 (serves L) (task_rows (qr_rows res)) (ac_Tasks c)
        \<and> list_all (\<lambda>t. known_type (tk_Type t) \<and> params_fit (tk_Type t) (tk_Params t)) (ac_Tasks c)
        \<and> ac_PendingActions c = []
    | Err _ \<Rightarrow> \<not> list_all (\<lambda>r. known_type (opt [] (cr_type r))) (task_rows (qr_rows res))
    | Panic \<Rightarrow> False"
proof -
  have load: "load_rows L (qr_rows res) pb_config_zero = Ret pb"
    using assms by (auto simp: GetAgentConfig_def loadAgentConfig_def split: if_splits outcome.splits load_error.splits)
  obtain ts where ts: "wc_tasks pb = ts" "wc_pending_actions pb = []"
    "list_all2 (\<lambda>r t. \<exists>i. cr_task_id r = Some i \<and> row_task L r i = Some t) (task_rows (qr_rows res)) ts"
    using load_rows_tasks [OF load] by (auto simp: pb_config_zero_def)
  have known: "list_all (\<lambda>t. known_type (tk_Type t) \<and> params_fit (tk_Type t) (tk_Params t)) tasks"
    if "list_all2 (serves L) rs tasks" "list_all (\<lambda>r. known_type (opt [] (cr_type r))) rs" for rs tasks
    using that by (induction rule: list_all2_induct) (auto simp: serves_def)
  show ?thesis
    using omap_tasks [OF ts(3)] known ts(2)
    by (cases "omap (taskFromProto L) ts") (auto simp: agentConfigFromProto_def ts(1))
qed


definition demo_lib :: proto_lib where
  "demo_lib = \<lparr>pl_New = (\<lambda>d. \<lparr>du_seconds = d, du_nanos = 0\<rparr>),
     pl_AsDuration = (\<lambda>d. case d of None \<Rightarrow> 0 | Some x \<Rightarrow> du_seconds x), pl_AsTime = (\<lambda>_. 0)\<rparr>"

definition demo_row :: config_row where
  "demo_row = \<lparr>cr_id = ''c1'', cr_generation = 1, cr_report_endpoint = ''nats'', cr_report_batch = 1,
     cr_report_interval = 1, cr_report_timeout = 1, cr_updated_at = 0, cr_task_id = Some ''t1'', cr_type = Some ''ping'',
     cr_enabled = Some True, cr_task_generation = Some 1, cr_params = Some (JObj []), cr_interval = Some 10,
     cr_jitter = Some 5, cr_schedule_enabled = Some True\<rparr>"


end
