(* ===== verification/Agent_Supervisor.thy ===== *)
theory Agent_Supervisor
  imports Agent_Config
begin

text \<open>
  The task supervisor of an agent (\<^verbatim>\<open>services/agent/supervisor.go\<close>, \<^verbatim>\<open>supervisor_tasks.go\<close>,
  \<^verbatim>\<open>supervisor_reconciler.go\<close>, \<^verbatim>\<open>task.go\<close>, \<^verbatim>\<open>utils.go\<close>) and the buffer its tasks
  report into (\<^verbatim>\<open>data_stream.go\<close>). A running task is the handle of its goroutine with the
  specification it was started from; starts and stops are recorded in order. The order in which Go
  visits a map is an argument. A task loop is a function of the events it waits for.
\<close>

section \<open>The probe data stream\<close>

record 'r ProbeDataStream =
  ds_stream :: "'r list"
  ds_capacity :: nat
  ds_logger :: bool

definition NewProbeDataStream :: "nat \<Rightarrow> 'r ProbeDataStream" where
  "NewProbeDataStream streamSize = \<lparr>ds_stream = [], ds_capacity = streamSize, ds_logger = False\<rparr>"

text \<open>With both cases of the select ready Go picks one: \<open>pick\<close> says which. The warning about a full buffer goes to
  the logger, which is nil unless set.\<close>

definition Insert :: "bool \<Rightarrow> bool \<Rightarrow> 'r \<Rightarrow> 'r ProbeDataStream \<Rightarrow> (string, bool) outcome \<times> 'r ProbeDataStream" where
  "Insert ctx_done pick data p =
     (let room = length (ds_stream p) < ds_capacity p in
      if room \<and> (\<not> ctx_done \<or> pick) then (Ret True, p\<lparr>ds_stream := ds_stream p @ [data]\<rparr>)
      else if ctx_done then (Ret False, p)
      else if ds_logger p then (Ret False, p)
      else (Panic, p))"

text \<open>\<open>cancel i\<close> tells that the context is found done in round \<open>i\<close>.\<close>

fun pull_loop :: "(nat \<Rightarrow> bool) \<Rightarrow> nat \<Rightarrow> 'r list \<Rightarrow> 'r ProbeDataStream \<Rightarrow> 'r list option \<times> 'r ProbeDataStream" where
  "pull_loop cancel 0 buf p = (Some buf, p)"
| "pull_loop cancel (Suc n) buf p =
     (if cancel n then (None, p)
      else case ds_stream p of
        [] \<Rightarrow> (Some buf, p)
      | data # rest \<Rightarrow> pull_loop cancel n (buf @ [data]) (p\<lparr>ds_stream := rest\<rparr>))"

definition Pull :: "(nat \<Rightarrow> bool) \<Rightarrow> nat \<Rightarrow> 'r ProbeDataStream \<Rightarrow> 'r list option \<times> 'r ProbeDataStream" where
  "Pull cancel n p = pull_loop cancel n [] p"

section \<open>Jitter\<close>

text \<open>\<open>draw n\<close> is \<^verbatim>\<open>rand.Int63n\<close>, which panics unless \<open>n\<close> is positive.\<close>

definition computeJitter :: "(int \<Rightarrow> int) \<Rightarrow> duration \<Rightarrow> int \<Rightarrow> (string, duration) outcome" where
  "computeJitter draw interval jitterPerc =
     (if jitterPerc \<le> 0 then Ret interval
      else let maxJitter = int64 (interval * jitterPerc) sdiv 100;
               n = int64 (maxJitter * 2)
           in if n \<le> 0 then Panic
              else Ret (int64 (interval + int64 (draw n - maxJitter))))"

section \<open>Task loops\<close>

datatype loop_event = Fired | Cancelled

datatype loop_exit =
    NoParams
  | NegativeInterval
  | RanOnce
  | LoopCancelled
  | LoopWaiting
  | LoopPanic

fun ticker_loop :: "loop_event list \<Rightarrow> nat \<times> loop_exit" where
  "ticker_loop [] = (0, LoopWaiting)"
| "ticker_loop (Cancelled # es) = (0, LoopCancelled)"
| "ticker_loop (Fired # es) = (case ticker_loop es of (n, x) \<Rightarrow> (Suc n, x))"

text \<open>The number of runs of the task and how the loop ends, for the timer and cancellation events it waits
  for, in order.\<close>

definition startTaskLoop :: "(int \<Rightarrow> int) \<Rightarrow> Task \<Rightarrow> loop_event list \<Rightarrow> nat \<times> loop_exit" where
  "startTaskLoop draw spec es =
     (if tk_Params spec = None then (0, NoParams)
      else let interval = int64 (sch_IntervalSeconds (tk_Schedule spec) * second)
        in if interval < 0 then (0, NegativeInterval)
           else if \<not> sch_Enabled (tk_Schedule spec) then (1, RanOnce)
           else case computeJitter draw interval (sch_JitterPercent (tk_Schedule spec)) of
             Ret jitter \<Rightarrow> (case es of
                 [] \<Rightarrow> (0, LoopWaiting)
               | Cancelled # _ \<Rightarrow> (0, LoopCancelled)
               | Fired # es' \<Rightarrow> if interval \<le> 0 then (1, LoopPanic)
                   else (case ticker_loop es' of (n, x) \<Rightarrow> (Suc n, x)))
           | _ \<Rightarrow> (0, LoopPanic))"

section \<open>The supervisor\<close>

record RunningTask =
  rt_Spec :: Task
  rt_handle :: nat

datatype sup_event = Started nat string | Halted nat

record Supervisor =
  sv_running :: "string \<Rightarrow> RunningTask option"
  sv_desired :: "string \<Rightarrow> Task option"
  sv_next :: nat
  sv_trace :: "sup_event list"

definition NewSupervisor :: Supervisor where
  "NewSupervisor = \<lparr>sv_running = Map.empty, sv_desired = Map.empty, sv_next = 0, sv_trace = []\<rparr>"

definition startTask :: "Task \<Rightarrow> Supervisor \<Rightarrow> RunningTask \<times> Supervisor" where
  "startTask spec s = (\<lparr>rt_Spec = spec, rt_handle = sv_next s\<rparr>,
     s\<lparr>sv_next := Suc (sv_next s), sv_trace := sv_trace s @ [Started (sv_next s) (tk_TaskID spec)]\<rparr>)"

definition Stop :: "RunningTask \<Rightarrow> Supervisor \<Rightarrow> Supervisor" where
  "Stop rt s = s\<lparr>sv_trace := sv_trace s @ [Halted (rt_handle rt)]\<rparr>"

definition to_stop :: "string list \<Rightarrow> Supervisor \<Rightarrow> RunningTask list" where
  "to_stop ids s = List.map_filter (\<lambda>i. case sv_running s i of
     None \<Rightarrow> None | Some rt \<Rightarrow> if sv_desired s i = None then Some rt else None) ids"

definition remove_undesired :: "string list \<Rightarrow> Supervisor \<Rightarrow> Supervisor" where
  "remove_undesired ids s =
     (let rts = to_stop ids s;
          s1 = fold Stop rts s
      in s1\<lparr>sv_running := fold (\<lambda>rt m. m(tk_TaskID (rt_Spec rt) := None)) rts (sv_running s1)\<rparr>)"

definition converge_one :: "string \<Rightarrow> Supervisor \<Rightarrow> Supervisor" where
  "converge_one i s = (case sv_desired s i of
       None \<Rightarrow> s
     | Some desired \<Rightarrow> (case sv_running s i of
         None \<Rightarrow> (case startTask desired s of (rt, s') \<Rightarrow> s'\<lparr>sv_running := (sv_running s')(i \<mapsto> rt)\<rparr>)
       | Some running \<Rightarrow>
           if tk_Generation (rt_Spec running) = tk_Generation desired then s
           else (case startTask desired (Stop running s) of
               (newRt, s') \<Rightarrow> s'\<lparr>sv_running := (sv_running s')(i \<mapsto> newRt)\<rparr>)))"

text \<open>\<open>rs\<close> and \<open>ds\<close> are the orders in which the running and the desired tasks are visited.\<close>

definition reconcile :: "string list \<Rightarrow> string list \<Rightarrow> Supervisor \<Rightarrow> Supervisor" where
  "reconcile rs ds s = fold converge_one ds (remove_undesired rs s)"

definition SetDesiredTasks :: "string list \<Rightarrow> string list \<Rightarrow> Task list \<Rightarrow> Supervisor \<Rightarrow> Supervisor" where
  "SetDesiredTasks rs ds tasks s =
     reconcile rs ds (s\<lparr>sv_desired := fold (\<lambda>t m. m(tk_TaskID t \<mapsto> t)) tasks Map.empty\<rparr>)"

section \<open>One run of a task\<close>

text \<open>\<open>execs\<close> are the registered executors with the outcome of this execution.\<close>

definition runOnce :: "(string \<Rightarrow> (string, 'r) outcome option) \<Rightarrow> bool \<Rightarrow> bool \<Rightarrow> Task \<Rightarrow> 'r ProbeDataStream \<Rightarrow>
    (string, unit) outcome \<times> 'r ProbeDataStream" where
  "runOnce execs ctx_done pick spec p = (case execs (tk_Type spec) of
       None \<Rightarrow> (Ret (), p)
     | Some res \<Rightarrow> (case res of
         Err _ \<Rightarrow> (Ret (), p)
       | Panic \<Rightarrow> (Panic, p)
       | Ret r \<Rightarrow> (case Insert ctx_done pick r p of
           (Panic, p') \<Rightarrow> (Panic, p')
         | (_, p') \<Rightarrow> (Ret (), p'))))"

section \<open>The supervisor keeps the running tasks equal to the desired ones\<close>

text \<open>The goroutines started and not stopped.\<close>

definition live :: "sup_event list \<Rightarrow> nat set" where
  "live tr = {h. (\<exists>i. Started h i \<in> set tr) \<and> Halted h \<notin> set tr}"

definition handles :: "(string \<Rightarrow> RunningTask option) \<Rightarrow> nat set" where
  "handles m = rt_handle ` ran m"

lemma handles_upd: "handles (m(i \<mapsto> rt)) = insert (rt_handle rt) (handles (m(i := None)))"
  using ran_map_upd [of "m(i := None)" i rt] by (simp add: handles_def)

text \<open>Every running task is filed under its own identifier, has a goroutine of its own, and no other
  goroutine is alive.\<close>

definition sup_inv :: "Supervisor \<Rightarrow> bool" where
  "sup_inv s \<longleftrightarrow>
     (\<forall>i rt. sv_running s i = Some rt \<longrightarrow> tk_TaskID (rt_Spec rt) = i)
     \<and> (\<forall>i t. sv_desired s i = Some t \<longrightarrow> tk_TaskID t = i)
     \<and> (\<forall>i j r q. sv_running s i = Some r \<longrightarrow> sv_running s j = Some q \<longrightarrow> rt_handle r = rt_handle q \<longrightarrow> i = j)
     \<and> live (sv_trace s) = handles (sv_running s)
     \<and> (\<forall>h. (\<exists>i. Started h i \<in> set (sv_trace s)) \<or> Halted h \<in> set (sv_trace s) \<longrightarrow> h < sv_next s)"

lemma sup_invI:
  assumes "\<And>i rt. sv_running s i = Some rt \<Longrightarrow> tk_TaskID (rt_Spec rt) = i"
    and "\<And>i t. sv_desired s i = Some t \<Longrightarrow> tk_TaskID t = i"
    and "\<And>i j r q. sv_running s i = Some r \<Longrightarrow> sv_running s j = Some q \<Longrightarrow> rt_handle r = rt_handle q \<Longrightarrow> i = j"
    and "live (sv_trace s) = handles (sv_running s)"
    and "\<And>h k. Started h k \<in> set (sv_trace s) \<Longrightarrow> h < sv_next s"
    and "\<And>h. Halted h \<in> set (sv_trace s) \<Longrightarrow> h < sv_next s"
  shows "sup_inv s"
  using assms unfolding sup_inv_def by blast

lemma sup_invD:
  assumes "sup_inv s"
  shows "sv_running s i = Some rt \<Longrightarrow> tk_TaskID (rt_Spec rt) = i"
    and "sv_desired s i = Some t \<Longrightarrow> tk_TaskID t = i"
    and "sv_running s i = Some r \<Longrightarrow> sv_running s j = Some q \<Longrightarrow> rt_handle r = rt_handle q \<Longrightarrow> i = j"
    and "live (sv_trace s) = handles (sv_running s)"
    and "Started h k \<in> set (sv_trace s) \<Longrightarrow> h < sv_next s"
    and "Halted h \<in> set (sv_trace s) \<Longrightarrow> h < sv_next s"
  using assms unfolding sup_inv_def by blast+

lemma handle_less: "sup_inv s \<Longrightarrow> sv_running s i = Some rt \<Longrightarrow> rt_handle rt < sv_next s"
proof -
  assume inv: "sup_inv s" and "sv_running s i = Some rt"
  then have "rt_handle rt \<in> live (sv_trace s)" unfolding sup_invD(4) [OF inv] handles_def by (auto simp: ran_def)
  then show ?thesis using sup_invD(5) [OF inv] by (auto simp: live_def)
qed

lemma fold_del: "fold (\<lambda>x m. m(f x := None)) xs m k = (if k \<in> f ` set xs then None else m k)"
  by (induction xs arbitrary: m) auto

lemma fold_Stop: "fold Stop rts s = s\<lparr>sv_trace := sv_trace s @ map (\<lambda>rt. Halted (rt_handle rt)) rts\<rparr>"
  by (induction rts arbitrary: s) (simp_all add: Stop_def)

lemma set_to_stop:
  "set (to_stop ids s) = {rt. \<exists>i \<in> set ids. sv_running s i = Some rt \<and> sv_desired s i = None}"
  unfolding to_stop_def by (induction ids) (auto simp: map_filter_simps split: option.splits if_splits)

lemma live_Halted: "live (tr @ map (\<lambda>rt. Halted (rt_handle rt)) rts) = live tr - rt_handle ` set rts"
  by (auto simp: live_def)

lemma live_Started: "(\<forall>k. Started h k \<notin> set tr) \<Longrightarrow> Halted h \<notin> set tr \<Longrightarrow> live (tr @ [Started h i]) = insert h (live tr)"
  by (auto simp: live_def)

lemma remove_undesired_running:
  assumes "sup_inv s" "set rs = dom (sv_running s)"
  shows "sv_running (remove_undesired rs s) i = (if sv_desired s i = None then None else sv_running s i)"
proof -
  have "i \<in> (tk_TaskID \<circ> rt_Spec) ` set (to_stop rs s) \<longleftrightarrow> sv_desired s i = None \<and> sv_running s i \<noteq> None"
    using assms(2) sup_invD(1) [OF assms(1)] by (force simp: set_to_stop image_iff dom_def)
  then show ?thesis
    using fold_del [of "tk_TaskID \<circ> rt_Spec" "to_stop rs s" "sv_running s" i]
    by (auto simp: remove_undesired_def Let_def fold_Stop comp_def)
qed

lemma remove_undesired_desired [simp]:
  "sv_desired (remove_undesired rs s) = sv_desired s" "sv_next (remove_undesired rs s) = sv_next s"
  by (simp_all add: remove_undesired_def Let_def fold_Stop)

lemma remove_undesired_inv:
  assumes inv: "sup_inv s" and rs: "set rs = dom (sv_running s)"
  shows "sup_inv (remove_undesired rs s)"
proof -
  note run = remove_undesired_running [OF assms]
  have tr: "sv_trace (remove_undesired rs s) = sv_trace s @ map (\<lambda>rt. Halted (rt_handle rt)) (to_stop rs s)"
    by (simp add: remove_undesired_def Let_def fold_Stop)
  have "handles (sv_running (remove_undesired rs s)) = handles (sv_running s) - rt_handle ` set (to_stop rs s)"
  proof (intro equalityI subsetI)
    fix h assume "h \<in> handles (sv_running (remove_undesired rs s))"
    then obtain i rt where i: "sv_running s i = Some rt" "sv_desired s i \<noteq> None" "h = rt_handle rt"
      by (auto simp: handles_def ran_def run split: if_splits)
    moreover have "h \<notin> rt_handle ` set (to_stop rs s)"
    proof
      assume "h \<in> rt_handle ` set (to_stop rs s)"
      then obtain j q where j: "sv_running s j = Some q" "sv_desired s j = None" "h = rt_handle q"
        unfolding set_to_stop by blast
      then have "i = j" using sup_invD(3) [OF inv i(1) j(1)] i(3) by simp
      then show False using i(2) j(2) by simp
    qed
    ultimately show "h \<in> handles (sv_running s) - rt_handle ` set (to_stop rs s)" by (auto simp: handles_def ran_def)
  next
    fix h assume h: "h \<in> handles (sv_running s) - rt_handle ` set (to_stop rs s)"
    then obtain i rt where i: "sv_running s i = Some rt" "h = rt_handle rt" by (auto simp: handles_def ran_def)
    have "sv_desired s i \<noteq> None"
    proof
      assume "sv_desired s i = None"
      then have "rt \<in> set (to_stop rs s)" unfolding set_to_stop using i(1) rs by (auto simp: dom_def)
      then show False using h i(2) by simp
    qed
    then have "sv_running (remove_undesired rs s) i = Some rt" using i(1) by (simp add: run)
    then show "h \<in> handles (sv_running (remove_undesired rs s))" using i(2) unfolding handles_def by (blast intro: ranI)
  qed
  then have "live (sv_trace (remove_undesired rs s)) = handles (sv_running (remove_undesired rs s))"
    unfolding tr live_Halted using sup_invD(4) [OF inv] by simp
  moreover have "h < sv_next s" if "Halted h \<in> set (sv_trace (remove_undesired rs s))" for h
    using that sup_invD(6) [OF inv, of h] handle_less [OF inv] unfolding tr set_append set_map set_to_stop by blast
  moreover have "h < sv_next s" if "Started h k \<in> set (sv_trace (remove_undesired rs s))" for h k
    using that sup_invD(5) [OF inv, of h k] by (auto simp: tr)
  moreover have "sv_running s i = Some rt" if "sv_running (remove_undesired rs s) i = Some rt" for i rt
    using that by (simp add: run split: if_splits)
  ultimately show ?thesis
    by (intro sup_invI) (simp_all, (blast intro: sup_invD(1,2,3) [OF inv])+)
qed

lemma converge_one_effect:
  assumes inv: "sup_inv s"
  shows "sup_inv (converge_one i s)" "sv_desired (converge_one i s) = sv_desired s"
    and "k \<noteq> i \<Longrightarrow> sv_running (converge_one i s) k = sv_running s k"
    and "sv_desired s i = Some t \<Longrightarrow> \<exists>rt. sv_running (converge_one i s) i = Some rt
      \<and> tk_Generation (rt_Spec rt) = tk_Generation t
      \<and> (\<forall>old. sv_running s i = Some old \<longrightarrow> tk_Generation (rt_Spec old) = tk_Generation t \<longrightarrow> rt = old)
      \<and> (sv_running s i = None \<or> (\<exists>old. sv_running s i = Some old \<and> tk_Generation (rt_Spec old) \<noteq> tk_Generation t) \<longrightarrow> rt_Spec rt = t)"
proof -
  show "sv_desired (converge_one i s) = sv_desired s" "k \<noteq> i \<Longrightarrow> sv_running (converge_one i s) k = sv_running s k"
    by (auto simp: converge_one_def startTask_def Stop_def split: option.splits)
  show "sv_desired s i = Some t \<Longrightarrow> \<exists>rt. sv_running (converge_one i s) i = Some rt
      \<and> tk_Generation (rt_Spec rt) = tk_Generation t
      \<and> (\<forall>old. sv_running s i = Some old \<longrightarrow> tk_Generation (rt_Spec old) = tk_Generation t \<longrightarrow> rt = old)
      \<and> (sv_running s i = None \<or> (\<exists>old. sv_running s i = Some old \<and> tk_Generation (rt_Spec old) \<noteq> tk_Generation t) \<longrightarrow> rt_Spec rt = t)"
    by (auto simp: converge_one_def startTask_def Stop_def split: option.splits)
  have fresh: "Started (sv_next s) x \<notin> set (sv_trace s)" "Halted (sv_next s) \<notin> set (sv_trace s)" for x
    using sup_invD(5,6) [OF inv] by blast+
  show "sup_inv (converge_one i s)"
  proof (cases "sv_desired s i")
    case None
    then show ?thesis using inv by (simp add: converge_one_def)
  next
    case (Some t)
    then have t: "tk_TaskID t = i" by (rule sup_invD(2) [OF inv])
    let ?rt = "\<lparr>rt_Spec = t, rt_handle = sv_next s\<rparr>"
    have upd: "sup_inv (s\<lparr>sv_next := Suc (sv_next s), sv_trace := tr @ [Started (sv_next s) i],
        sv_running := (sv_running s)(i \<mapsto> ?rt)\<rparr>)"
      if tr: "live tr = handles ((sv_running s)(i := None))" "\<And>h k. Started h k \<in> set tr \<Longrightarrow> h < sv_next s"
        "\<And>h. Halted h \<in> set tr \<Longrightarrow> h < sv_next s" for tr
    proof -
      have "live (tr @ [Started (sv_next s) i]) = insert (sv_next s) (handles ((sv_running s)(i := None)))"
        using live_Started [of "sv_next s" tr i] tr by blast
      also have "\<dots> = handles ((sv_running s)(i \<mapsto> ?rt))"
        by (simp add: handles_upd)
      finally have lv: "live (tr @ [Started (sv_next s) i]) = handles ((sv_running s)(i \<mapsto> ?rt))" .
      have old: "sv_running s j = Some q \<Longrightarrow> rt_handle q \<noteq> sv_next s" for j q
        using handle_less [OF inv, of j q] by simp
      show ?thesis
      proof (rule sup_invI)
        fix j q assume "sv_running (s\<lparr>sv_next := Suc (sv_next s), sv_trace := tr @ [Started (sv_next s) i],
          sv_running := (sv_running s)(i \<mapsto> ?rt)\<rparr>) j = Some q"
        then show "tk_TaskID (rt_Spec q) = j" using t sup_invD(1) [OF inv, of j q] by (auto split: if_splits)
      next
        fix j q assume "sv_desired (s\<lparr>sv_next := Suc (sv_next s), sv_trace := tr @ [Started (sv_next s) i],
          sv_running := (sv_running s)(i \<mapsto> ?rt)\<rparr>) j = Some q"
        then show "tk_TaskID q = j" using sup_invD(2) [OF inv, of j q] by simp
      next
        fix j k p q assume "sv_running (s\<lparr>sv_next := Suc (sv_next s), sv_trace := tr @ [Started (sv_next s) i],
          sv_running := (sv_running s)(i \<mapsto> ?rt)\<rparr>) j = Some p"
          and "sv_running (s\<lparr>sv_next := Suc (sv_next s), sv_trace := tr @ [Started (sv_next s) i],
          sv_running := (sv_running s)(i \<mapsto> ?rt)\<rparr>) k = Some q" and "rt_handle p = rt_handle q"
        then show "j = k" using sup_invD(3) [OF inv, of j p k q] old [of j p] old [of k q] by (auto split: if_splits)
      qed (use lv tr(2,3) in \<open>auto simp: less_Suc_eq\<close>)
    qed
    show ?thesis
    proof (cases "sv_running s i")
      case None
      then have "(sv_running s)(i := None) = sv_running s" by auto
      then show ?thesis
        using upd [of "sv_trace s"] sup_invD(4,5,6) [OF inv] Some None t
        by (simp add: converge_one_def startTask_def)
    next
      case (Some old)
      have "handles ((sv_running s)(i := None)) = handles (sv_running s) - {rt_handle old}"
      proof (intro equalityI subsetI)
        fix h assume "h \<in> handles ((sv_running s)(i := None))"
        then obtain j rt where "j \<noteq> i" "sv_running s j = Some rt" "h = rt_handle rt"
          by (auto simp: handles_def ran_def split: if_splits)
        then show "h \<in> handles (sv_running s) - {rt_handle old}"
          using sup_invD(3) [OF inv _ Some] by (auto simp: handles_def ran_def)
      next
        fix h assume h: "h \<in> handles (sv_running s) - {rt_handle old}"
        then obtain j rt where j: "sv_running s j = Some rt" "h = rt_handle rt" by (auto simp: handles_def ran_def)
        then have "j \<noteq> i" using h Some by auto
        then have "((sv_running s)(i := None)) j = Some rt" using j(1) by simp
        then show "h \<in> handles ((sv_running s)(i := None))" using j(2) unfolding handles_def by (blast intro: ranI)
      qed
      then have l: "live (sv_trace s @ [Halted (rt_handle old)]) = handles ((sv_running s)(i := None))"
        using live_Halted [of "sv_trace s" "[old]"] sup_invD(4) [OF inv] by simp
      show ?thesis
      proof (cases "tk_Generation (rt_Spec old) = tk_Generation t")
        case True
        then show ?thesis using inv \<open>sv_desired s i = Some t\<close> Some by (simp add: converge_one_def)
      next
        case False
        then show ?thesis
          using upd [OF l] sup_invD(5,6) [OF inv] handle_less [OF inv Some] \<open>sv_desired s i = Some t\<close> Some t
          by (auto simp: converge_one_def startTask_def Stop_def)
      qed
    qed
  qed
qed

text \<open>Task \<open>k\<close> runs in the wanted generation, and was left alone if it did before.\<close>

definition settled_task :: "Supervisor \<Rightarrow> string \<Rightarrow> Task \<Rightarrow> Supervisor \<Rightarrow> bool" where
  "settled_task s k t s' \<longleftrightarrow> (\<exists>rt. sv_running s' k = Some rt \<and> tk_Generation (rt_Spec rt) = tk_Generation t
     \<and> (rt_Spec rt = t \<or> sv_running s k = Some rt)
     \<and> (\<forall>old. sv_running s k = Some old \<longrightarrow> tk_Generation (rt_Spec old) = tk_Generation t \<longrightarrow> rt = old))"

lemma converge_one_settled: "sv_desired s i = Some t \<Longrightarrow> settled_task s i t (converge_one i s)"
  by (auto simp: settled_task_def converge_one_def startTask_def Stop_def split: option.splits)

lemma settled_cong:
  "sv_running s k = sv_running q k \<Longrightarrow> sv_running s' k = sv_running q' k \<Longrightarrow> settled_task s k t s' = settled_task q k t q'"
  by (simp add: settled_task_def)

lemma converge_all:
  assumes "sup_inv s" "distinct ds"
  shows "sup_inv (fold converge_one ds s) \<and> sv_desired (fold converge_one ds s) = sv_desired s
    \<and> (\<forall>k. k \<notin> set ds \<longrightarrow> sv_running (fold converge_one ds s) k = sv_running s k)
    \<and> (\<forall>k t. k \<in> set ds \<longrightarrow> sv_desired s k = Some t \<longrightarrow> settled_task s k t (fold converge_one ds s))"
  using assms
proof (induction ds arbitrary: s)
  case (Cons i ds)
  let ?q = "converge_one i s" and ?e = "fold converge_one ds (converge_one i s)"
  note one = converge_one_effect(1,2) [OF Cons.prems(1), of i] and other = converge_one_effect(3) [OF Cons.prems(1), of _ i]
  from Cons.IH [OF one(1)] Cons.prems(2) have
    e: "sup_inv ?e" "sv_desired ?e = sv_desired s" and
    same: "\<And>k. k \<notin> set ds \<Longrightarrow> sv_running ?e k = sv_running ?q k" and
    fin: "\<And>k t. k \<in> set ds \<Longrightarrow> sv_desired s k = Some t \<Longrightarrow> settled_task ?q k t ?e"
    unfolding one(2) by simp_all
  have "settled_task s k t ?e" if k: "k \<in> set (i # ds)" "sv_desired s k = Some t" for k t
  proof (cases "k = i")
    case True
    then have "sv_running ?e i = sv_running ?q i" using same [of i] Cons.prems(2) by simp
    then show ?thesis
      using converge_one_settled [of s i t] k(2) True settled_cong [of s i s ?e ?q t] by simp
  next
    case False
    then show ?thesis using fin [of k t] k other [of k] settled_cong [of s k ?q ?e ?e t] by simp
  qed
  then show ?case using e same other by simp
qed simp

lemma desired_map:
  shows "fold (\<lambda>t m. m(tk_TaskID t \<mapsto> t)) tasks m i = Some t \<Longrightarrow> t \<in> set tasks \<and> tk_TaskID t = i \<or> m i = Some t"
    and "(fold (\<lambda>t m. m(tk_TaskID t \<mapsto> t)) tasks m i \<noteq> None) = (i \<in> tk_TaskID ` set tasks \<or> m i \<noteq> None)"
proof -
  show "fold (\<lambda>t m. m(tk_TaskID t \<mapsto> t)) tasks m i = Some t \<Longrightarrow> t \<in> set tasks \<and> tk_TaskID t = i \<or> m i = Some t"
  proof (induction tasks arbitrary: m)
    case (Cons x tasks)
    then show ?case using Cons.IH [of "m(tk_TaskID x \<mapsto> x)"] by (auto split: if_splits)
  qed simp
  show "(fold (\<lambda>t m. m(tk_TaskID t \<mapsto> t)) tasks m i \<noteq> None) = (i \<in> tk_TaskID ` set tasks \<or> m i \<noteq> None)"
    by (induction tasks arbitrary: m) auto
qed

lemma desired_map_empty:
  shows "fold (\<lambda>t m. m(tk_TaskID t \<mapsto> t)) tasks Map.empty i = Some t \<Longrightarrow> t \<in> set tasks \<and> tk_TaskID t = i"
    and "(fold (\<lambda>t m. m(tk_TaskID t \<mapsto> t)) tasks Map.empty i \<noteq> None) = (i \<in> tk_TaskID ` set tasks)"
  using desired_map [of tasks Map.empty i] by auto

text \<open>The states a supervisor reaches by setting desired tasks; the visiting orders enumerate the two maps.\<close>

definition visits :: "string list \<Rightarrow> string list \<Rightarrow> Task list \<Rightarrow> Supervisor \<Rightarrow> bool" where
  "visits rs ds tasks s \<longleftrightarrow> set rs = dom (sv_running s) \<and> distinct ds \<and> set ds = tk_TaskID ` set tasks"

inductive sup_reach :: "Supervisor \<Rightarrow> bool" where
  start: "sup_reach NewSupervisor"
| set: "sup_reach s \<Longrightarrow> visits rs ds tasks s \<Longrightarrow> sup_reach (SetDesiredTasks rs ds tasks s)"

lemma sup_inv_desired:
  "sup_inv s \<Longrightarrow> sup_inv (s\<lparr>sv_desired := fold (\<lambda>t m. m(tk_TaskID t \<mapsto> t)) tasks Map.empty\<rparr>)"
  using desired_map_empty(1) [of tasks] by (intro sup_invI) (auto dest: sup_invD)

lemma SetDesiredTasks_inv:
  assumes "sup_inv s" "visits rs ds tasks s"
  shows "sup_inv (SetDesiredTasks rs ds tasks s)"
  unfolding SetDesiredTasks_def reconcile_def
  using assms
  by (intro conjunct1 [OF converge_all] remove_undesired_inv sup_inv_desired) (auto simp: visits_def)

lemma sup_reach_inv: "sup_reach s \<Longrightarrow> sup_inv s"
proof (induction rule: sup_reach.induct)
  case start
  show ?case by (simp add: sup_inv_def NewSupervisor_def live_def handles_def)
qed (rule SetDesiredTasks_inv)

lemma SetDesiredTasks_effect:
  assumes inv: "sup_inv s" and "visits rs ds tasks s"
  defines "s' \<equiv> SetDesiredTasks rs ds tasks s"
  shows "dom (sv_running s') = tk_TaskID ` set tasks
    \<and> (\<forall>i rt. sv_running s' i = Some rt \<longrightarrow>
        (\<exists>t \<in> set tasks. tk_TaskID t = i \<and> tk_Generation (rt_Spec rt) = tk_Generation t
           \<and> (rt_Spec rt = t \<or> sv_running s i = Some rt)))
    \<and> (\<forall>i rt t. sv_running s i = Some rt \<longrightarrow> sv_desired s' i = Some t \<longrightarrow>
        tk_Generation (rt_Spec rt) = tk_Generation t \<longrightarrow> sv_running s' i = Some rt)"
proof -
  let ?d = "fold (\<lambda>t m. m(tk_TaskID t \<mapsto> t)) tasks Map.empty"
  let ?s1 = "s\<lparr>sv_desired := ?d\<rparr>"
  let ?s2 = "remove_undesired rs ?s1"
  have inv1: "sup_inv ?s1" by (rule sup_inv_desired [OF inv])
  have rs: "set rs = dom (sv_running ?s1)" and ds: "distinct ds" "set ds = tk_TaskID ` set tasks"
    using assms(2) by (simp_all add: visits_def)
  have inv2: "sup_inv ?s2" by (rule remove_undesired_inv [OF inv1 rs])
  have run2: "sv_running ?s2 i = (if ?d i = None then None else sv_running s i)" for i
    using remove_undesired_running [OF inv1 rs, of i] by simp
  have s': "s' = fold converge_one ds ?s2" by (simp add: s'_def SetDesiredTasks_def reconcile_def)
  have conv: "sv_desired (fold converge_one ds ?s2) = ?d"
    "\<And>k. k \<notin> set ds \<Longrightarrow> sv_running (fold converge_one ds ?s2) k = sv_running ?s2 k"
    "\<And>k t. k \<in> set ds \<Longrightarrow> ?d k = Some t \<Longrightarrow> settled_task ?s2 k t (fold converge_one ds ?s2)"
    using converge_all [OF inv2 ds(1)] by simp_all
  have d': "sv_desired s' = ?d" unfolding s' by (rule conv(1))
  have out: "sv_running s' i = None" if "i \<notin> tk_TaskID ` set tasks" for i
    using that conv(2) [of i] desired_map_empty(2) [of tasks i] ds(2) by (simp add: s' run2)
  have hit: "\<exists>rt t. sv_running s' i = Some rt \<and> ?d i = Some t \<and> tk_Generation (rt_Spec rt) = tk_Generation t
      \<and> (rt_Spec rt = t \<or> sv_running s i = Some rt)
      \<and> (\<forall>old. sv_running s i = Some old \<longrightarrow> tk_Generation (rt_Spec old) = tk_Generation t \<longrightarrow> rt = old)"
    if i: "i \<in> tk_TaskID ` set tasks" for i
  proof -
    obtain t where t: "?d i = Some t" using i desired_map_empty(2) [of tasks i] by blast
    then obtain rt where rt: "sv_running s' i = Some rt" "tk_Generation (rt_Spec rt) = tk_Generation t"
      "rt_Spec rt = t \<or> sv_running ?s2 i = Some rt"
      "\<forall>old. sv_running ?s2 i = Some old \<longrightarrow> tk_Generation (rt_Spec old) = tk_Generation t \<longrightarrow> rt = old"
      using conv(3) [of i t] i ds(2) unfolding s' [symmetric] settled_task_def by blast
    have "rt_Spec rt = t \<or> sv_running s i = Some rt" using rt(3) unfolding run2 by (auto split: if_splits)
    moreover have "\<forall>old. sv_running s i = Some old \<longrightarrow> tk_Generation (rt_Spec old) = tk_Generation t \<longrightarrow> rt = old"
      using rt(4) t unfolding run2 by simp
    ultimately show ?thesis using rt(1,2) t by blast
  qed
  have "i \<in> dom (sv_running s') \<longleftrightarrow> i \<in> tk_TaskID ` set tasks" for i
    using out [of i] hit [of i] by (cases "i \<in> tk_TaskID ` set tasks") (blast, simp add: domIff)
  then have "dom (sv_running s') = tk_TaskID ` set tasks" by blast
  moreover have "\<exists>t \<in> set tasks. tk_TaskID t = i \<and> tk_Generation (rt_Spec rt) = tk_Generation t
      \<and> (rt_Spec rt = t \<or> sv_running s i = Some rt)"
    if "sv_running s' i = Some rt" for i rt
  proof -
    have "i \<in> tk_TaskID ` set tasks" using that out [of i] by auto
    then obtain q t where q: "sv_running s' i = Some q" "?d i = Some t" "tk_Generation (rt_Spec q) = tk_Generation t"
      "rt_Spec q = t \<or> sv_running s i = Some q"
      using hit by blast
    show ?thesis using desired_map_empty(1) [OF q(2)] q(1,3,4) that by auto
  qed
  moreover have "sv_running s' i = Some rt"
    if keep: "sv_running s i = Some rt" "sv_desired s' i = Some t" "tk_Generation (rt_Spec rt) = tk_Generation t" for i rt t
  proof -
    have d: "?d i = Some t" using keep(2) unfolding d' .
    then have "i \<in> tk_TaskID ` set tasks" using desired_map_empty(1) [OF d] by auto
    then obtain q where "sv_running s' i = Some q" "q = rt" using hit [of i] d keep(1,3) by auto
    then show ?thesis by simp
  qed
  ultimately show ?thesis by blast
qed

lemma desired_after: "sv_desired (SetDesiredTasks rs ds tasks s) = fold (\<lambda>t m. m(tk_TaskID t \<mapsto> t)) tasks Map.empty"
proof -
  have one: "sv_desired (converge_one i q) = sv_desired q" for i q
    by (auto simp: converge_one_def startTask_def Stop_def split: option.splits)
  have "sv_desired (fold converge_one ds q) = sv_desired q" for ds q by (induction ds arbitrary: q) (simp_all add: one)
  moreover have "sv_desired (fold Stop ts q) = sv_desired q" for ts q by (induction ts arbitrary: q) (simp_all add: Stop_def)
  ultimately show ?thesis by (simp add: SetDesiredTasks_def reconcile_def remove_undesired_def Let_def)
qed

text \<open>
  Property C31. The supervisor runs exactly the desired tasks. In every state it reaches, setting a
  list of tasks leaves exactly their identifiers running, each in the generation the list asks for and as the list
  describes it, unless it ran in that generation before; a task whose generation did not change keeps its goroutine; and the goroutines alive are exactly those of the
  running tasks, one each, so that none is leaked or doubled.
\<close>

theorem supervisor_runs_the_desired_tasks:
  assumes "sup_reach s" "visits rs ds tasks s"
  defines "s' \<equiv> SetDesiredTasks rs ds tasks s"
  shows "dom (sv_running s') = tk_TaskID ` set tasks
    \<and> (\<forall>i rt. sv_running s' i = Some rt \<longrightarrow>
        (\<exists>t \<in> set tasks. tk_TaskID t = i \<and> tk_Generation (rt_Spec rt) = tk_Generation t
           \<and> (rt_Spec rt = t \<or> sv_running s i = Some rt)))
    \<and> (\<forall>i rt t. sv_running s i = Some rt \<longrightarrow> sv_desired s' i = Some t \<longrightarrow>
        tk_Generation (rt_Spec rt) = tk_Generation t \<longrightarrow> sv_running s' i = Some rt)
    \<and> live (sv_trace s') = rt_handle ` ran (sv_running s')
    \<and> inj_on (rt_handle \<circ> the \<circ> sv_running s') (dom (sv_running s'))"
proof -
  have inv: "sup_inv s" using assms(1) by (rule sup_reach_inv)
  have inv': "sup_inv s'" unfolding s'_def by (rule SetDesiredTasks_inv [OF inv assms(2)])
  have "inj_on (rt_handle \<circ> the \<circ> sv_running s') (dom (sv_running s'))"
  proof (rule inj_onI)
    fix i j assume "i \<in> dom (sv_running s')" "j \<in> dom (sv_running s')"
      "(rt_handle \<circ> the \<circ> sv_running s') i = (rt_handle \<circ> the \<circ> sv_running s') j"
    then show "i = j" using sup_invD(3) [OF inv', of i _ j] by auto
  qed
  then show ?thesis
    using SetDesiredTasks_effect [OF inv assms(2)] sup_invD(4) [OF inv'] unfolding handles_def s'_def by blast
qed

definition demo_task :: "string \<Rightarrow> int \<Rightarrow> Task" where
  "demo_task i g = \<lparr>tk_TaskID = i, tk_Type = TaskTypePing, tk_Enabled = True, tk_Generation = g, tk_Params = None,
     tk_Schedule = \<lparr>sch_Enabled = True, sch_IntervalSeconds = 10, sch_JitterPercent = 5\<rparr>\<rparr>"

theorem supervisor_runs_the_desired_tasks_witness:
  "let s = SetDesiredTasks [] [''a''] [demo_task ''a'' 1] NewSupervisor;
       s' = SetDesiredTasks [''a''] [''a'', ''b''] [demo_task ''a'' 1, demo_task ''b'' 1] s
   in dom (sv_running s') = {''a'', ''b''} \<and> sv_running s' ''a'' = sv_running s ''a''"
proof -
  let ?s = "SetDesiredTasks [] [''a''] [demo_task ''a'' 1] NewSupervisor"
  have s: "sup_reach ?s"
    by (intro sup_reach.intros) (simp add: visits_def NewSupervisor_def demo_task_def)
  have run: "sv_running ?s = [''a'' \<mapsto> \<lparr>rt_Spec = demo_task ''a'' 1, rt_handle = 0\<rparr>]"
    by (simp add: SetDesiredTasks_def reconcile_def NewSupervisor_def remove_undesired_def to_stop_def
        map_filter_def converge_one_def startTask_def demo_task_def)
  have v: "visits [''a''] [''a'', ''b''] [demo_task ''a'' 1, demo_task ''b'' 1] ?s"
    unfolding visits_def run by (simp add: demo_task_def)
  have d: "sv_desired (SetDesiredTasks [''a''] [''a'', ''b''] [demo_task ''a'' 1, demo_task ''b'' 1] ?s) ''a''
      = Some (demo_task ''a'' 1)"
    by (simp add: SetDesiredTasks_def reconcile_def remove_undesired_def to_stop_def map_filter_def converge_one_def
        startTask_def demo_task_def NewSupervisor_def)
  show ?thesis
    using supervisor_runs_the_desired_tasks [OF s v] run d unfolding Let_def by (simp add: demo_task_def)
qed

section \<open>Scheduling\<close>

definition draw_law :: "(int \<Rightarrow> int) \<Rightarrow> bool" where
  "draw_law draw \<longleftrightarrow> (\<forall>n. 0 < n \<longrightarrow> 0 \<le> draw n \<and> draw n < n)"

lemma computeJitter_positive:
  assumes "draw_law draw" "0 < perc" "0 \<le> interval" "interval * perc < 2 ^ 62" "perc \<le> 100"
  shows "computeJitter draw interval perc =
    (if interval * perc < 100 then Panic
     else let m = interval * perc div 100 in Ret (interval + (draw (m * 2) - m)))"
    and "100 \<le> interval * perc \<Longrightarrow> \<exists>j. computeJitter draw interval perc = Ret j
      \<and> interval - interval * perc div 100 \<le> j \<and> j < interval + interval * perc div 100"
proof -
  let ?x = "interval * perc" and ?m = "interval * perc div 100"
  have x: "0 \<le> ?x" using assms(2,3) by simp
  have m: "0 \<le> ?m" "?m * 100 \<le> ?x" using x by (simp_all add: pos_imp_zdiv_nonneg_iff)
  have i: "interval \<le> ?x" using mult_left_mono [of 1 perc interval] assms(2,3) by simp
  have w: "int64 ?x = ?x" "int64 (?m * 2) = ?m * 2"
    using x m assms(4) by (auto intro!: wrap_s_id simp: in_s_def)
  have sd: "?x sdiv 100 = ?m" using x by (simp add: signed_divide_int_def sgn_if)
  have zero: "?m = 0 \<longleftrightarrow> ?x < 100" using x by linarith
  have d: "0 \<le> draw (?m * 2) \<and> draw (?m * 2) < ?m * 2" if "0 < ?m" using assms(1) that by (simp add: draw_law_def)
  have w2: "int64 (draw (?m * 2) - ?m) = draw (?m * 2) - ?m"
      "int64 (interval + (draw (?m * 2) - ?m)) = interval + (draw (?m * 2) - ?m)" if "0 < ?m"
    using d [OF that] m x i assms(3,4) by (auto intro!: wrap_s_id simp: in_s_def)
  show eq: "computeJitter draw interval perc =
    (if ?x < 100 then Panic else let m = ?m in Ret (interval + (draw (m * 2) - m)))"
    using assms(2) zero m w2 by (auto simp: computeJitter_def Let_def w sd)
  show "\<exists>j. computeJitter draw interval perc = Ret j \<and> interval - ?m \<le> j \<and> j < interval + ?m" if "100 \<le> ?x"
  proof -
    have "0 < ?m" using that by (simp add: pos_imp_zdiv_pos_iff)
    then show ?thesis using d that by (auto simp: eq Let_def)
  qed
qed



text \<open>An enabled schedule with interval zero crashes the agent, with jitter at once and without it after the first run.\<close>

lemma zero_interval_crashes:
  assumes "tk_Params spec \<noteq> None" "sch_Enabled (tk_Schedule spec)" "sch_IntervalSeconds (tk_Schedule spec) = 0"
  shows "snd (startTaskLoop draw spec (Fired # es)) = LoopPanic"
  using assms by (auto simp: startTaskLoop_def Let_def computeJitter_def wrap_s_def)

text \<open>The buffer is first in, first out; a result that finds it full crashes the agent instead of being dropped.\<close>

lemma pull_loop_all:
  "(\<forall>i. \<not> cancel i) \<Longrightarrow> pull_loop cancel n buf p = (Some (buf @ take n (ds_stream p)), p\<lparr>ds_stream := drop n (ds_stream p)\<rparr>)"
  by (induction n arbitrary: buf p) (auto split: list.split)

lemma full_stream_crashes:
  "length (ds_stream p) = ds_capacity p \<Longrightarrow> p = (NewProbeDataStream n)\<lparr>ds_stream := xs\<rparr> \<Longrightarrow>
   fst (Insert False pick data p) = Panic"
  by (simp add: Insert_def NewProbeDataStream_def)

end
