(* ===== verification/Stamp_Codec.thy ===== *)
theory Stamp_Codec
  imports Go_Base
begin

unbundle bit_operations_syntax

text \<open>
  The wire format of STAMP (\<^verbatim>\<open>libs/stamp/error_estimate.go\<close>, \<^verbatim>\<open>timestamp.go\<close>,
  \<^verbatim>\<open>packet.go\<close>): error estimates, NTP timestamps, and the sender and reflector packets of 44
  octets. Wire integers are words of their width; a buffer is a list of octets.
  \<open>packet_codec\<close> is the contract of the two packet types.
\<close>

type_synonym octet = "8 word"
type_synonym buffer = "octet list"

named_theorems wire_simps "evaluation of the wire format"

section \<open>Big-endian integers in a buffer (encoding/binary)\<close>

definition be16 :: "16 word \<Rightarrow> buffer" where
  "be16 v = [ucast (drop_bit 8 v), ucast v]"

definition be32 :: "32 word \<Rightarrow> buffer" where
  "be32 v = [ucast (drop_bit 24 v), ucast (drop_bit 16 v), ucast (drop_bit 8 v), ucast v]"

definition put_at :: "nat \<Rightarrow> buffer \<Rightarrow> buffer \<Rightarrow> buffer" where
  "put_at i bs buf = take i buf @ bs @ drop (i + length bs) buf"

definition get16 :: "buffer \<Rightarrow> nat \<Rightarrow> 16 word" where
  "get16 b i = push_bit 8 (ucast (b ! i)) OR ucast (b ! (i + 1))"

definition get32 :: "buffer \<Rightarrow> nat \<Rightarrow> 32 word" where
  "get32 b i = push_bit 24 (ucast (b ! i)) OR push_bit 16 (ucast (b ! (i + 1)))
     OR push_bit 8 (ucast (b ! (i + 2))) OR ucast (b ! (i + 3))"

lemma length_be [simp]: "length (be16 v) = 2" "length (be32 w) = 4"
  by (simp_all add: be16_def be32_def)

lemma length_put_at [simp]: "i + length bs \<le> length buf \<Longrightarrow> length (put_at i bs buf) = length buf"
  by (simp add: put_at_def)

lemma nth_put_at:
  assumes "i + length bs \<le> length buf" "k < length buf"
  shows "put_at i bs buf ! k = (if i \<le> k \<and> k < i + length bs then bs ! (k - i) else buf ! k)"
  using assms by (auto simp: put_at_def nth_append min_def)

lemma be16_join: "push_bit 8 (ucast (ucast (drop_bit 8 v) :: octet)) OR ucast (ucast v :: octet) = (v :: 16 word)"
  by (rule bit_word_eqI) (auto simp: bit_simps not_less)

lemma be32_join:
  "push_bit 24 (ucast (ucast (drop_bit 24 v) :: octet)) OR push_bit 16 (ucast (ucast (drop_bit 16 v) :: octet))
   OR push_bit 8 (ucast (ucast (drop_bit 8 v) :: octet)) OR ucast (ucast v :: octet) = (v :: 32 word)"
proof (rule bit_word_eqI)
  fix n assume "n < LENGTH(32)"
  then consider "n < 8" | "8 \<le> n" "n < 16" | "16 \<le> n" "n < 24" | "24 \<le> n" "n < 32" by force
  then show "bit (push_bit 24 (ucast (ucast (drop_bit 24 v) :: octet))
      OR push_bit 16 (ucast (ucast (drop_bit 16 v) :: octet))
      OR push_bit 8 (ucast (ucast (drop_bit 8 v) :: octet)) OR ucast (ucast v :: octet) :: 32 word) n = bit v n"
    by cases (auto simp: bit_simps)
qed

text \<open>Reading back what was written, and what was written elsewhere.\<close>

lemma get16_put_same: "i + 2 \<le> length buf \<Longrightarrow> get16 (put_at i (be16 v) buf) i = v"
  by (simp add: get16_def nth_put_at be16_def be16_join)

lemma get32_put_same: "i + 4 \<le> length buf \<Longrightarrow> get32 (put_at i (be32 v) buf) i = v"
  by (simp add: get32_def nth_put_at be32_def be32_join)

lemma get16_put_other:
  "i + length bs \<le> length buf \<Longrightarrow> j + 2 \<le> length buf \<Longrightarrow> j + 2 \<le> i \<or> i + length bs \<le> j \<Longrightarrow>
   get16 (put_at i bs buf) j = get16 buf j"
  by (auto simp: get16_def nth_put_at)

lemma get32_put_other:
  "i + length bs \<le> length buf \<Longrightarrow> j + 4 \<le> length buf \<Longrightarrow> j + 4 \<le> i \<or> i + length bs \<le> j \<Longrightarrow>
   get32 (put_at i bs buf) j = get32 buf j"
  by (auto simp: get32_def nth_put_at)

lemmas get_put [wire_simps] = get16_put_same get32_put_same get16_put_other get32_put_other

section \<open>Error estimates\<close>

definition ClockFormatNTP :: string where "ClockFormatNTP = ''NTP''"

record ErrorEstimate =
  ee_Sync :: bool
  ee_ClockFormat :: string
  ee_ZBit :: bool
  ee_Scale :: "8 word"
  ee_Multiplier :: "8 word"

datatype stamp_error =
    ScaleOutOfRange
  | InvalidClockFormat
  | PacketTooShort
  | NoHMAC
  | NetError
  | Canceled

definition ErrorEstimateDecode :: "16 word \<Rightarrow> ErrorEstimate" where
  "ErrorEstimateDecode val =
     \<lparr>ee_Sync = (val AND 0x8000 \<noteq> 0), ee_ClockFormat = ClockFormatNTP, ee_ZBit = (val AND 0x4000 \<noteq> 0),
      ee_Scale = ucast (drop_bit 8 (val AND 0x3F00)), ee_Multiplier = ucast (val AND 0xFF)\<rparr>"

definition ErrorEstimate_Encode :: "ErrorEstimate \<Rightarrow> 16 word" where
  "ErrorEstimate_Encode e =
     (let v0 = (if ee_Sync e then 0 OR 0x8000 else 0);
          v1 = v0 OR 0;
          v2 = v1 OR push_bit 8 (ucast (ee_Scale e) AND 0x3F)
      in v2 OR ucast (ee_Multiplier e))"

definition NewErrorEstimate ::
  "bool \<Rightarrow> string \<Rightarrow> 8 word \<Rightarrow> 8 word \<Rightarrow> (stamp_error, ErrorEstimate) outcome" where
  "NewErrorEstimate synchronized clockFormat scale multiplier =
     (if 63 < scale then Err ScaleOutOfRange
      else Ret \<lparr>ee_Sync = synchronized, ee_ClockFormat = clockFormat, ee_ZBit = False, ee_Scale = scale,
        ee_Multiplier = multiplier\<rparr>)"

lemma numeral_bits [wire_simps]:
  "bit (32768 :: int) n \<longleftrightarrow> n = 15" "bit (16384 :: int) n \<longleftrightarrow> n = 14"
  "bit (16128 :: int) n \<longleftrightarrow> 8 \<le> n \<and> n < 14" "bit (255 :: int) n \<longleftrightarrow> n < 8" "bit (63 :: int) n \<longleftrightarrow> n < 6"
proof -
  have "bit (2 ^ 15 :: int) n \<longleftrightarrow> n = 15" "bit (2 ^ 14 :: int) n \<longleftrightarrow> n = 14"
    by (simp_all only: bit_exp_iff) auto
  then show "bit (32768 :: int) n \<longleftrightarrow> n = 15" "bit (16384 :: int) n \<longleftrightarrow> n = 14" by simp_all
  have "bit (push_bit 8 (mask 6) :: int) n \<longleftrightarrow> 8 \<le> n \<and> n < 14" "bit (mask 8 :: int) n \<longleftrightarrow> n < 8"
    "bit (mask 6 :: int) n \<longleftrightarrow> n < 6"
    by (auto simp only: bit_push_bit_iff_int bit_mask_iff possible_bit_def) auto
  then show "bit (16128 :: int) n \<longleftrightarrow> 8 \<le> n \<and> n < 14" "bit (255 :: int) n \<longleftrightarrow> n < 8"
    "bit (63 :: int) n \<longleftrightarrow> n < 6"
    by (simp_all add: mask_eq_exp_minus_1)
qed

lemma and_bit: "(v AND 0x8000 \<noteq> 0) = bit v 15" "(v AND 0x4000 \<noteq> 0) = bit v 14" for v :: "16 word"
  by (auto simp: bit_eq_iff [of "v AND _"] bit_simps numeral_bits)

lemma scale_bits: "(s :: 8 word) \<le> 63 \<Longrightarrow> 6 \<le> n \<Longrightarrow> \<not> bit s n"
proof -
  assume "s \<le> 63" "6 \<le> n"
  then have "unat s < 2 ^ 6" by (simp add: word_le_nat_alt)
  also have "(2 :: nat) ^ 6 \<le> 2 ^ n" using \<open>6 \<le> n\<close> by (rule power_increasing) simp
  finally have "\<not> bit (unat s) n" by (simp add: bit_iff_odd)
  then show ?thesis by (simp add: bit_unsigned_iff possible_bit_def)
qed

lemma estimate_bits:
  "bit (ErrorEstimate_Encode e) n \<longleftrightarrow>
     n < 16 \<and> (n = 15 \<and> ee_Sync e \<or> 8 \<le> n \<and> n < 14 \<and> bit (ee_Scale e) (n - 8) \<or> n < 8 \<and> bit (ee_Multiplier e) n)"
  by (auto simp: ErrorEstimate_Encode_def Let_def bit_simps numeral_bits dest: bit_imp_le_length)

lemma estimate_decode_encode:
  assumes "ee_Scale e \<le> 63" "\<not> ee_ZBit e" "ee_ClockFormat e = ClockFormatNTP"
  shows "ErrorEstimateDecode (ErrorEstimate_Encode e) = e"
proof (rule ErrorEstimate.equality)
  show "ee_Scale (ErrorEstimateDecode (ErrorEstimate_Encode e)) = ee_Scale e"
  proof (rule bit_word_eqI)
    fix n assume "n < LENGTH(8)"
    then show "bit (ee_Scale (ErrorEstimateDecode (ErrorEstimate_Encode e))) n = bit (ee_Scale e) n"
      using scale_bits [OF assms(1), of n]
      by (cases "n < 6") (simp_all add: ErrorEstimateDecode_def bit_simps numeral_bits estimate_bits)
  qed
  show "ee_Multiplier (ErrorEstimateDecode (ErrorEstimate_Encode e)) = ee_Multiplier e"
    by (rule bit_word_eqI) (auto simp: ErrorEstimateDecode_def bit_simps numeral_bits estimate_bits)
qed (use assms in \<open>simp_all add: ErrorEstimateDecode_def and_bit estimate_bits\<close>)

lemma estimate_encode_decode: "ErrorEstimate_Encode (ErrorEstimateDecode v) = v AND NOT 0x4000"
proof (rule bit_word_eqI)
  fix n assume "n < LENGTH(16)"
  then consider "n < 8" | "8 \<le> n" "n < 14" | "n = 14" | "n = 15" by force
  then show "bit (ErrorEstimate_Encode (ErrorEstimateDecode v)) n = bit (v AND NOT 0x4000) n"
    by cases (auto simp: estimate_bits ErrorEstimateDecode_def and_bit bit_simps numeral_bits)
qed

text \<open>
  Error estimates survive the wire: every estimate that \<open>NewErrorEstimate\<close> accepts
  for the NTP clock decodes from its own encoding, and it accepts exactly the scales up to 63.
  In the other direction encoding drops the Z bit, and nothing else.
\<close>

lemma error_estimate_round_trip:
  "(case NewErrorEstimate sync ClockFormatNTP scale mult of
      Ret e \<Rightarrow> scale \<le> 63 \<and> ErrorEstimateDecode (ErrorEstimate_Encode e) = e
    | Err er \<Rightarrow> er = ScaleOutOfRange \<and> 63 < scale
    | Panic \<Rightarrow> False)
   \<and> ErrorEstimate_Encode (ErrorEstimateDecode v) = v AND NOT 0x4000"
  using estimate_decode_encode [of "\<lparr>ee_Sync = sync, ee_ClockFormat = ClockFormatNTP, ee_ZBit = False,
    ee_Scale = scale, ee_Multiplier = mult\<rparr>"] estimate_encode_decode [of v]
  by (auto simp: NewErrorEstimate_def not_less)

section \<open>NTP timestamps\<close>

definition NtpUnixOffset :: int where "NtpUnixOffset = 2208988800"

record Timestamp =
  ts_Seconds :: "32 word"
  ts_Fraction :: "32 word"

definition generateNtpTimestamp :: "time \<Rightarrow> Timestamp" where
  "generateNtpTimestamp t =
     (let seconds = of_int (unix_sec t + NtpUnixOffset);
          nanos = (of_int (nanosecond t) :: 64 word);
          fraction = ucast (push_bit 32 nanos div 1000000000)
      in \<lparr>ts_Seconds = seconds, ts_Fraction = fraction\<rparr>)"

definition wireNTPTimestampToTime :: "32 word \<Rightarrow> 32 word \<Rightarrow> time" where
  "wireNTPTimestampToTime sec fract =
     (let seconds = uint sec - NtpUnixOffset;
          nanos = sint (drop_bit 32 ((ucast fract :: 64 word) * 1000000000))
      in time_unix seconds nanos)"

text \<open>\<open>now\<close> is the clock reading of \<^verbatim>\<open>time.Now\<close>.\<close>

definition NewTimestamp :: "string \<Rightarrow> time \<Rightarrow> (stamp_error, Timestamp) outcome" where
  "NewTimestamp clockFormat now =
     (if clockFormat = ClockFormatNTP then Ret (generateNtpTimestamp now) else Err InvalidClockFormat)"

definition FromTime :: "string \<Rightarrow> time \<Rightarrow> (stamp_error, Timestamp) outcome" where
  "FromTime clockFormat t =
     (if clockFormat = ClockFormatNTP then Ret (generateNtpTimestamp t) else Err InvalidClockFormat)"

definition ToTime :: "Timestamp \<Rightarrow> string \<Rightarrow> (stamp_error, time) outcome" where
  "ToTime t clockFormat =
     (if clockFormat = ClockFormatNTP then Ret (wireNTPTimestampToTime (ts_Seconds t) (ts_Fraction t))
      else Err InvalidClockFormat)"

text \<open>The values the 64-bit arithmetic computes; nothing overflows.\<close>

lemma fraction_value: "uint (ts_Fraction (generateNtpTimestamp t)) = nanosecond t * 2 ^ 32 div second"
proof -
  let ?n = "nanosecond t"
  have n: "0 \<le> ?n" "?n < 1000000000" using nanosecond_range [of t] by (auto simp: second_def)
  have "uint (push_bit 32 (of_int ?n :: 64 word)) = ?n * 2 ^ 32"
    using n by (simp add: push_bit_eq_mult uint_word_ariths uint_word_of_int)
  then have "uint (push_bit 32 (of_int ?n :: 64 word) div 1000000000) = ?n * 2 ^ 32 div 1000000000"
    by (simp add: uint_div)
  moreover have "?n * 2 ^ 32 div 1000000000 < 2 ^ 32"
    using n by simp
  moreover have "0 \<le> ?n * 2 ^ 32 div 1000000000" using n by (simp add: pos_imp_zdiv_nonneg_iff)
  ultimately show ?thesis
    by (simp add: generateNtpTimestamp_def Let_def second_def unsigned_ucast_eq take_bit_int_eq_self)
qed

lemma nanos_value:
  "sint (drop_bit 32 ((ucast fract :: 64 word) * 1000000000)) = uint fract * second div 2 ^ 32"
  for fract :: "32 word"
proof -
  have f: "0 \<le> uint fract" "uint fract < 2 ^ 32" using uint_bounded [of fract] by simp_all
  have "uint ((ucast fract :: 64 word) * 1000000000) = uint fract * 1000000000"
    using f by (simp add: uint_word_ariths unsigned_ucast_eq take_bit_int_eq_self)
  then have "uint (drop_bit 32 ((ucast fract :: 64 word) * 1000000000)) = uint fract * 1000000000 div 2 ^ 32"
    by (simp add: drop_bit_eq_div uint_div)
  moreover have "uint fract * 1000000000 div 2 ^ 32 < 2 ^ 31" using f by simp
  moreover have "0 \<le> uint fract * 1000000000 div 2 ^ 32" by (simp add: pos_imp_zdiv_nonneg_iff)
  ultimately show ?thesis by (simp add: second_def sint_uint signed_take_bit_int_eq_self)
qed

lemma sub_nanosecond_loss:
  fixes n :: int
  shows "n - 1 \<le> (n * 4294967296 div 1000000000) * 1000000000 div 4294967296"
    and "(n * 4294967296 div 1000000000) * 1000000000 div 4294967296 \<le> n"
proof -
  define q where "q = n * 4294967296 div 1000000000"
  have "q * 1000000000 \<le> n * 4294967296" "n * 4294967296 - 1000000000 < q * 1000000000"
    unfolding q_def by linarith+
  then show "n - 1 \<le> (n * 4294967296 div 1000000000) * 1000000000 div 4294967296"
    "(n * 4294967296 div 1000000000) * 1000000000 div 4294967296 \<le> n"
    unfolding q_def [symmetric] by linarith+
qed

lemma ntp_loss:
  "let ts = generateNtpTimestamp t;
       era = (unix_sec t + NtpUnixOffset) div 2 ^ 32;
       t' = wireNTPTimestampToTime (ts_Seconds ts) (ts_Fraction ts) + era * 2 ^ 32 * second
   in t - 1 \<le> t' \<and> t' \<le> t"
proof -
  let ?ts = "generateNtpTimestamp t" and ?s = "unix_sec t + NtpUnixOffset" and ?n = "nanosecond t"
  let ?n' = "(?n * 2 ^ 32 div second) * second div 2 ^ 32"
  have s: "uint (ts_Seconds ?ts) = ?s mod 2 ^ 32"
    by (simp add: generateNtpTimestamp_def Let_def uint_word_of_int flip: of_int_add)
  have n: "?n - 1 \<le> ?n'" "?n' \<le> ?n"
    using sub_nanosecond_loss [of "nanosecond t"] by (simp_all add: second_def)
  have "wireNTPTimestampToTime (ts_Seconds ?ts) (ts_Fraction ?ts)
      = (?s mod 2 ^ 32 - NtpUnixOffset) * second + ?n'"
    by (simp only: wireNTPTimestampToTime_def Let_def nanos_value fraction_value s time_unix_def)
  moreover have "(?s mod 2 ^ 32 + ?s div 2 ^ 32 * 2 ^ 32) * second = ?s * second" by (simp only: mod_div_mult_eq)
  ultimately have "wireNTPTimestampToTime (ts_Seconds ?ts) (ts_Fraction ?ts) + ?s div 2 ^ 32 * 2 ^ 32 * second
      = unix_sec t * second + ?n'"
    by (simp only: distrib_right left_diff_distrib)
  moreover have "unix_sec t * second + ?n = t" using time_unix_split [of t] by (simp add: time_unix_def)
  ultimately show ?thesis using n unfolding Let_def by linarith
qed

text \<open>
  Property C21. A time that goes over the wire as an NTP timestamp comes back in its own NTP era of
  2^32 seconds, at most one nanosecond early and never late. Era 0 runs from 1900 to 2036; a later
  time comes back as the corresponding time of era 0.
\<close>

theorem ntp_timestamp_round_trip:
  "let ts = generateNtpTimestamp t;
       era = (unix_sec t + NtpUnixOffset) div 2 ^ 32;
       t' = wireNTPTimestampToTime (ts_Seconds ts) (ts_Fraction ts) + era * 2 ^ 32 * second
   in t - 1 \<le> t' \<and> t' \<le> t"
  by (rule ntp_loss)

section \<open>Packets\<close>

record SenderPacket =
  sp_SequenceNumber :: "32 word"
  sp_Timestamp :: Timestamp
  sp_ErrorEstimate :: "16 word"

record ReflectorPacket =
  rp_SequenceNumber :: "32 word"
  rp_Timestamp :: Timestamp
  rp_ErrorEstimate :: "16 word"
  rp_ReceiveTimestamp :: Timestamp
  rp_SenderSequenceNumber :: "32 word"
  rp_SenderTimestamp :: Timestamp
  rp_SenderErrorEstimate :: "16 word"
  rp_SenderTTL :: "8 word"

text \<open>\<open>None\<close> is the nil key; any other key panics, authenticated mode being unimplemented.\<close>

definition SenderPacket_Encode :: "buffer option \<Rightarrow> SenderPacket \<Rightarrow> (stamp_error, buffer) outcome" where
  "SenderPacket_Encode hmacKey p =
     (if hmacKey \<noteq> None then Panic
      else let buf0 = replicate 44 0;
               buf1 = put_at 0 (be32 (sp_SequenceNumber p)) buf0;
               buf2 = put_at 4 (be32 (ts_Seconds (sp_Timestamp p))) buf1;
               buf3 = put_at 8 (be32 (ts_Fraction (sp_Timestamp p))) buf2
           in Ret (put_at 12 (be16 (sp_ErrorEstimate p)) buf3))"

definition DecodeSenderPacket :: "buffer option \<Rightarrow> buffer \<Rightarrow> (stamp_error, SenderPacket) outcome" where
  "DecodeSenderPacket hmacKey b =
     (if hmacKey \<noteq> None then Panic
      else if length b < 44 then Err PacketTooShort
      else Ret \<lparr>sp_SequenceNumber = get32 b 0,
             sp_Timestamp = \<lparr>ts_Seconds = get32 b 4, ts_Fraction = get32 b 8\<rparr>,
             sp_ErrorEstimate = get16 b 12\<rparr>)"

definition ReflectorPacket_Encode :: "buffer option \<Rightarrow> ReflectorPacket \<Rightarrow> (stamp_error, buffer) outcome" where
  "ReflectorPacket_Encode hmacKey p =
     (if hmacKey \<noteq> None then Panic
      else let buf0 = replicate 44 0;
               buf1 = put_at 0 (be32 (rp_SequenceNumber p)) buf0;
               buf2 = put_at 4 (be32 (ts_Seconds (rp_Timestamp p))) buf1;
               buf3 = put_at 8 (be32 (ts_Fraction (rp_Timestamp p))) buf2;
               buf4 = put_at 12 (be16 (rp_ErrorEstimate p)) buf3;
               buf5 = put_at 16 (be32 (ts_Seconds (rp_ReceiveTimestamp p))) buf4;
               buf6 = put_at 20 (be32 (ts_Fraction (rp_ReceiveTimestamp p))) buf5;
               buf7 = put_at 24 (be32 (rp_SenderSequenceNumber p)) buf6;
               buf8 = put_at 28 (be32 (ts_Seconds (rp_SenderTimestamp p))) buf7;
               buf9 = put_at 32 (be32 (ts_Fraction (rp_SenderTimestamp p))) buf8;
               buf10 = put_at 36 (be16 (rp_SenderErrorEstimate p)) buf9
           in Ret (buf10[40 := rp_SenderTTL p]))"

definition DecodeReflectorPacket :: "buffer option \<Rightarrow> buffer \<Rightarrow> (stamp_error, ReflectorPacket) outcome" where
  "DecodeReflectorPacket hmacKey data =
     (if hmacKey \<noteq> None then Panic
      else if length data < 44 then Err PacketTooShort
      else Ret \<lparr>rp_SequenceNumber = get32 data 0,
             rp_Timestamp = \<lparr>ts_Seconds = get32 data 4, ts_Fraction = get32 data 8\<rparr>,
             rp_ErrorEstimate = get16 data 12,
             rp_ReceiveTimestamp = \<lparr>ts_Seconds = get32 data 16, ts_Fraction = get32 data 20\<rparr>,
             rp_SenderSequenceNumber = get32 data 24,
             rp_SenderTimestamp = \<lparr>ts_Seconds = get32 data 28, ts_Fraction = get32 data 32\<rparr>,
             rp_SenderErrorEstimate = get16 data 36,
             rp_SenderTTL = data ! 40\<rparr>)"

subsection \<open>The contract of a packet type\<close>

text \<open>
  A packet encodes to 44 octets which decode to it whatever follows them in the read buffer;
  shorter buffers are refused; a key panics on both sides.
\<close>

locale packet_codec =
  fixes enc :: "buffer option \<Rightarrow> 'p \<Rightarrow> (stamp_error, buffer) outcome"
    and dec :: "buffer option \<Rightarrow> buffer \<Rightarrow> (stamp_error, 'p) outcome"
  assumes enc_total: "\<exists>b. enc None p = Ret b \<and> length b = 44"
    and dec_enc: "enc None p = Ret b \<Longrightarrow> dec None (b @ rest) = Ret p"
    and dec_short: "length b < 44 \<Longrightarrow> dec None b = Err PacketTooShort"
    and dec_total: "44 \<le> length b \<Longrightarrow> \<exists>p. dec None b = Ret p"
    and key_panics: "enc (Some k) p = Panic" "dec (Some k) b = Panic"
begin

lemma enc_inj: "enc None p = enc None q \<Longrightarrow> p = q"
  by (metis enc_total dec_enc outcome.inject(1))

lemma enc_cases: obtains b where "enc None p = Ret b" "length b = 44" "\<And>rest. dec None (b @ rest) = Ret p"
  using enc_total [of p] dec_enc [of p] by blast

end

lemma get16_append: "j + 2 \<le> length b \<Longrightarrow> get16 (b @ r) j = get16 b j"
  by (simp add: get16_def nth_append)

lemma get32_append: "j + 4 \<le> length b \<Longrightarrow> get32 (b @ r) j = get32 b j"
  by (simp add: get32_def nth_append)

lemma get16_upd: "k < j \<or> j + 2 \<le> k \<Longrightarrow> get16 (b[k := v]) j = get16 b j"
  by (auto simp: get16_def nth_list_update)

lemma get32_upd: "k < j \<or> j + 4 \<le> k \<Longrightarrow> get32 (b[k := v]) j = get32 b j"
  by (auto simp: get32_def nth_list_update)

lemmas get_frame [wire_simps] = get16_append get32_append get16_upd get32_upd

interpretation sender_codec: packet_codec SenderPacket_Encode DecodeSenderPacket
  by unfold_locales
    (auto simp: SenderPacket_Encode_def DecodeSenderPacket_def Let_def wire_simps simp del: append_assoc)

interpretation reflector_codec: packet_codec ReflectorPacket_Encode DecodeReflectorPacket
  by unfold_locales
    (auto simp: ReflectorPacket_Encode_def DecodeReflectorPacket_def Let_def wire_simps nth_append)

text \<open>
  Property C20. Both packet types survive the wire: a packet encodes to 44 octets, and decoding
  these octets, with any bytes after them, gives back the packet.
\<close>

theorem packet_round_trip:
  "(\<exists>b. SenderPacket_Encode None p = Ret b \<and> length b = 44 \<and> (\<forall>rest. DecodeSenderPacket None (b @ rest) = Ret p))
   \<and> (\<exists>b. ReflectorPacket_Encode None q = Ret b \<and> length b = 44
        \<and> (\<forall>rest. DecodeReflectorPacket None (b @ rest) = Ret q))"
  by (rule sender_codec.enc_cases [of p], rule reflector_codec.enc_cases [of q]) blast

end
