(* ===== verification/Stamp_Session.thy ===== *)
theory Stamp_Session
  imports Stamp_Codec
begin

text \<open>
  The two ends of a STAMP session (\<^verbatim>\<open>libs/stamp/sender.go\<close>, \<^verbatim>\<open>reflector.go\<close>,
  \<^verbatim>\<open>config.go\<close>). The network is a sequence of inputs: what a read returns, whether a write
  succeeds, the clock readings, and the moments at which the context is found cancelled. The
  operations a sender performs on its socket, the datagrams a reflector sends and the errors it
  reports are outputs. \<open>Serve\<close> recurses over the rounds of its loop.
\<close>

section \<open>Configuration\<close>

record ErrorEstimateConfig =
  ec_Scale :: "8 word"
  ec_Multiplier :: "8 word"
  ec_ClockFormat :: string
  ec_Synchronized :: bool

record Config =
  cf_ErrorEstimate :: ErrorEstimateConfig

text \<open>The contents of a fresh 1500-octet read buffer after a datagram arrived in it.\<close>

definition read_buffer :: "buffer \<Rightarrow> buffer" where
  "read_buffer d = take 1500 d @ replicate (1500 - length d) 0"

definition read_bytes :: "buffer \<Rightarrow> nat" where
  "read_bytes d = min 1500 (length d)"

lemma length_read_buffer [simp]: "length (read_buffer d) = 1500"
  by (simp add: read_buffer_def)

lemma take_read_buffer [simp]: "take (read_bytes d) (read_buffer d) = take 1500 d"
  by (simp add: read_buffer_def read_bytes_def min_def)

lemma read_packet [simp]:
  "length b = 44 \<Longrightarrow> read_buffer b = b @ replicate 1456 0" "length b = 44 \<Longrightarrow> read_bytes b = 44"
  by (simp_all add: read_buffer_def read_bytes_def)

section \<open>The sender\<close>

type_synonym addr = string

record SenderConfig =
  sc_LocalAddr :: addr
  sc_RemoteAddr :: addr
  sc_HMACKey :: "buffer option"
  sc_OnError :: bool
  sc_Timeout :: duration
  sc_Config :: Config

record Sender =
  sn_Conn :: "(addr \<times> addr) option"
  sn_HMACKey :: "buffer option"
  sn_seq :: "32 word"
  sn_onError :: bool
  sn_timeout :: duration
  sn_Config :: Config

text \<open>Name resolution and the dial are given by \<open>resolve\<close> and \<open>dial\<close>.\<close>

definition NewSender ::
  "(addr \<Rightarrow> addr option) \<Rightarrow> (addr \<Rightarrow> addr \<Rightarrow> bool) \<Rightarrow> SenderConfig \<Rightarrow> (stamp_error, Sender) outcome" where
  "NewSender resolve dial cfg =
     (if ec_ClockFormat (cf_ErrorEstimate (sc_Config cfg)) \<noteq> ClockFormatNTP then Err InvalidClockFormat
      else case resolve (sc_LocalAddr cfg) of
        None \<Rightarrow> Err NetError
      | Some localAddr \<Rightarrow> (case resolve (sc_RemoteAddr cfg) of
          None \<Rightarrow> Err NetError
        | Some remoteAddr \<Rightarrow>
            if \<not> dial localAddr remoteAddr then Err NetError
            else let timeout = (if sc_Timeout cfg = 0 then 5 * second else sc_Timeout cfg)
              in Ret \<lparr>sn_Conn = Some (localAddr, remoteAddr), sn_HMACKey = sc_HMACKey cfg, sn_seq = 0,
                   sn_onError = sc_OnError cfg, sn_timeout = timeout, sn_Config = sc_Config cfg\<rparr>))"

datatype conn_op =
    Write buffer
  | SetReadDeadline time
  | CloseConn

text \<open>
  What a send meets: the clock when the packet is built and when the deadline is set, the result of
  the write, and the datagram that the read returns, if one arrives before the deadline.
\<close>

record send_env =
  se_now :: time
  se_write_ok :: bool
  se_now_read :: time
  se_reply :: "buffer option"

definition new_estimate :: "Config \<Rightarrow> (stamp_error, ErrorEstimate) outcome" where
  "new_estimate c = (let e = cf_ErrorEstimate c in
     NewErrorEstimate (ec_Synchronized e) (ec_ClockFormat e) (ec_Scale e) (ec_Multiplier e))"

definition Send_packet :: "time \<Rightarrow> Sender \<Rightarrow> (stamp_error, buffer) outcome" where
  "Send_packet now s =
     (if sn_HMACKey s \<noteq> None then Err NoHMAC
      else obind (NewTimestamp (ec_ClockFormat (cf_ErrorEstimate (sn_Config s))) now) (\<lambda>timestamp.
           obind (new_estimate (sn_Config s)) (\<lambda>errorEstimate.
           SenderPacket_Encode None
             \<lparr>sp_SequenceNumber = sn_seq s, sp_Timestamp = timestamp,
              sp_ErrorEstimate = ErrorEstimate_Encode errorEstimate\<rparr>)))"

definition Send_reply :: "buffer option \<Rightarrow> (stamp_error, ReflectorPacket) outcome" where
  "Send_reply r = (case r of
       None \<Rightarrow> Err NetError
     | Some d \<Rightarrow> if read_bytes d < 44 then Err PacketTooShort
         else DecodeReflectorPacket None (take (read_bytes d) (read_buffer d)))"

definition Send :: "send_env \<Rightarrow> Sender \<Rightarrow> Sender \<times> conn_op list \<times> (stamp_error, ReflectorPacket) outcome" where
  "Send w s = (case Send_packet (se_now w) s of
       Err e \<Rightarrow> (s, [], Err e)
     | Panic \<Rightarrow> (s, [], Panic)
     | Ret buf \<Rightarrow>
         if \<not> se_write_ok w then (s, [Write buf], Err NetError)
         else let ops = [Write buf, SetReadDeadline (se_now_read w + sn_timeout s)]
           in case Send_reply (se_reply w) of
             Ret reply \<Rightarrow> (s\<lparr>sn_seq := sn_seq s + 1\<rparr>, ops, Ret reply)
           | Err e \<Rightarrow> (s, ops, Err e)
           | Panic \<Rightarrow> (s, ops, Panic))"

definition Sender_Close :: "time \<Rightarrow> Sender \<Rightarrow> conn_op list" where
  "Sender_Close now s = (case sn_Conn s of None \<Rightarrow> [] | Some _ \<Rightarrow> [SetReadDeadline now, CloseConn])"

section \<open>The reflector\<close>

record ReflectorConfig =
  rc_LocalAddr :: addr
  rc_HMACKey :: "buffer option"
  rc_OnError :: bool
  rc_Config :: Config

text \<open>\<open>rf_errors\<close> are the calls made to the error callback so far.\<close>

record Reflector =
  rf_Server :: bool
  rf_LocalAddr :: addr
  rf_Config :: Config
  rf_seq :: "32 word"
  rf_onError :: bool
  rf_errors :: "stamp_error list"

definition NewReflector :: "ReflectorConfig \<Rightarrow> (stamp_error, Reflector) outcome" where
  "NewReflector cfg =
     Ret \<lparr>rf_Server = False, rf_LocalAddr = rc_LocalAddr cfg, rf_Config = rc_Config cfg, rf_seq = 0,
       rf_onError = rc_OnError cfg, rf_errors = []\<rparr>"

definition handleError :: "stamp_error \<Rightarrow> Reflector \<Rightarrow> Reflector" where
  "handleError e r = (if rf_onError r then r\<lparr>rf_errors := rf_errors r @ [e]\<rparr> else r)"

datatype read_event =
    Datagram addr buffer
  | ReadFailed bool

text \<open>
  One round of the loop: whether the context is done at its start, what the read returns
  (\<open>ReadFailed True\<close> is \<^verbatim>\<open>net.ErrClosed\<close>), whether the context is done at the two
  checks after a failed read, the two clock readings, and the result of the write.
\<close>

record serve_env =
  rd_done :: bool
  rd_read :: read_event
  rd_done_read :: bool
  rd_err_read :: bool
  rd_rx :: time
  rd_tx :: time
  rd_write_ok :: bool

datatype serve_exit =
    Looping
  | Returned "stamp_error option"
  | Crashed

definition reflect :: "Reflector \<Rightarrow> serve_env \<Rightarrow> buffer \<Rightarrow> (stamp_error, ReflectorPacket) outcome" where
  "reflect r e d =
     (let clock = ec_ClockFormat (cf_ErrorEstimate (rf_Config r)) in
      obind (NewTimestamp clock (rd_rx e)) (\<lambda>rxTimestamp.
        if read_bytes d < 44 then Err PacketTooShort
        else obind (DecodeSenderPacket None (read_buffer d)) (\<lambda>senderPkt.
             obind (new_estimate (rf_Config r)) (\<lambda>errorEstimate.
             obind (NewTimestamp clock (rd_tx e)) (\<lambda>timestamp.
               Ret \<lparr>rp_SequenceNumber = rf_seq r, rp_Timestamp = timestamp,
                 rp_ErrorEstimate = ErrorEstimate_Encode errorEstimate, rp_ReceiveTimestamp = rxTimestamp,
                 rp_SenderSequenceNumber = sp_SequenceNumber senderPkt,
                 rp_SenderTimestamp = sp_Timestamp senderPkt,
                 rp_SenderErrorEstimate = sp_ErrorEstimate senderPkt, rp_SenderTTL = 1\<rparr>)))))"

definition serve_datagram ::
  "Reflector \<Rightarrow> serve_env \<Rightarrow> addr \<Rightarrow> buffer \<Rightarrow> Reflector \<times> (addr \<times> buffer) list \<times> serve_exit" where
  "serve_datagram r e a d = (case reflect r e d of
       Err er \<Rightarrow> (handleError er r, [], Looping)
     | Panic \<Rightarrow> (r, [], Crashed)
     | Ret pkt \<Rightarrow>
         let r' = r\<lparr>rf_seq := rf_seq r + 1\<rparr>
         in case ReflectorPacket_Encode None pkt of
              Err er \<Rightarrow> (handleError er r', [], Looping)
            | Panic \<Rightarrow> (r', [], Crashed)
            | Ret bs \<Rightarrow> if rd_write_ok e then (r', [(a, bs)], Looping)
                else (handleError NetError r', [], Looping))"

definition serve_round :: "Reflector \<Rightarrow> serve_env \<Rightarrow> Reflector \<times> (addr \<times> buffer) list \<times> serve_exit" where
  "serve_round r e =
     (if rd_done e then (r, [], Returned None)
      else case rd_read e of
        ReadFailed is_closed \<Rightarrow>
          if rd_done_read e then (r, [], Returned None)
          else if rd_err_read e then (r, [], Returned (Some Canceled))
          else if is_closed then (r, [], Returned None)
          else (handleError NetError r, [], Looping)
      | Datagram a d \<Rightarrow> serve_datagram r e a d)"

text \<open>\<open>Looping\<close> as the result of \<open>Serve\<close> means that it waits for a datagram that has not arrived.\<close>

fun serve_loop :: "Reflector \<Rightarrow> serve_env list \<Rightarrow> Reflector \<times> (addr \<times> buffer) list \<times> serve_exit" where
  "serve_loop r [] = (r, [], Looping)"
| "serve_loop r (e # es) = (case serve_round r e of
     (r', out, Looping) \<Rightarrow> (case serve_loop r' es of (r'', out', x) \<Rightarrow> (r'', out @ out', x))
   | (r', out, x) \<Rightarrow> (r', out, x))"

definition Serve :: "bool \<Rightarrow> Reflector \<Rightarrow> serve_env list \<Rightarrow> Reflector \<times> (addr \<times> buffer) list \<times> serve_exit" where
  "Serve listen_ok r es =
     (if \<not> listen_ok then (r, [], Returned (Some NetError))
      else serve_loop (r\<lparr>rf_Server := True\<rparr>) es)"

definition Reflector_Close :: "Reflector \<Rightarrow> conn_op list" where
  "Reflector_Close r = (if rf_Server r then [CloseConn] else [])"

section \<open>Lemmas\<close>

definition valid_config :: "Config \<Rightarrow> bool" where
  "valid_config c \<longleftrightarrow> ec_ClockFormat (cf_ErrorEstimate c) = ClockFormatNTP \<and> ec_Scale (cf_ErrorEstimate c) \<le> 63"

definition config_estimate :: "Config \<Rightarrow> 16 word" where
  "config_estimate c = (case new_estimate c of Ret e \<Rightarrow> ErrorEstimate_Encode e | _ \<Rightarrow> 0)"

lemma new_estimate_valid:
  "valid_config c \<Longrightarrow> \<exists>e. new_estimate c = Ret e \<and> ErrorEstimate_Encode e = config_estimate c"
  by (auto simp: valid_config_def config_estimate_def new_estimate_def NewErrorEstimate_def Let_def not_less)

lemma new_estimate_total: "new_estimate c \<noteq> Panic"
  by (simp add: new_estimate_def NewErrorEstimate_def Let_def)

definition sender_packet :: "time \<Rightarrow> Sender \<Rightarrow> SenderPacket" where
  "sender_packet now s = \<lparr>sp_SequenceNumber = sn_seq s, sp_Timestamp = generateNtpTimestamp now,
     sp_ErrorEstimate = config_estimate (sn_Config s)\<rparr>"

lemma Send_packet_valid:
  assumes "valid_config (sn_Config s)" "sn_HMACKey s = None"
  shows "Send_packet now s = SenderPacket_Encode None (sender_packet now s)"
  using assms new_estimate_valid [OF assms(1)]
  by (auto simp: Send_packet_def NewTimestamp_def valid_config_def sender_packet_def)

lemma Send_packet_total: "Send_packet now s \<noteq> Panic"
  using new_estimate_total [of "sn_Config s"] sender_codec.enc_total
  by (auto simp: Send_packet_def obind_eq_Panic NewTimestamp_def split: if_splits) (metis outcome.distinct(4))

lemma Send_reply_eq:
  "Send_reply (Some d) = (if length d < 44 then Err PacketTooShort else DecodeReflectorPacket None (take 1500 d))"
  by (simp add: Send_reply_def) (simp add: read_bytes_def min_def)

lemma Send_reply_packet:
  "ReflectorPacket_Encode None p = Ret b \<Longrightarrow> Send_reply (Some b) = Ret p"
  using reflector_codec.enc_total [of p] reflector_codec.dec_enc [of p b "[]"] by (auto simp: Send_reply_eq)

text \<open>What a datagram decodes to in the read buffer.\<close>

definition received :: "buffer \<Rightarrow> SenderPacket" where
  "received d = \<lparr>sp_SequenceNumber = get32 d 0,
     sp_Timestamp = \<lparr>ts_Seconds = get32 d 4, ts_Fraction = get32 d 8\<rparr>, sp_ErrorEstimate = get16 d 12\<rparr>"

lemma received_read: "44 \<le> length d \<Longrightarrow> DecodeSenderPacket None (read_buffer d) = Ret (received d)"
  by (simp only: DecodeSenderPacket_def received_def length_read_buffer)
    (auto simp: read_buffer_def get32_def get16_def nth_append)

lemma received_packet: "SenderPacket_Encode None p = Ret b \<Longrightarrow> received b = p"
  using received_read [of b] sender_codec.enc_total [of p] sender_codec.dec_enc [of p b] by auto

definition reply_packet :: "Config \<Rightarrow> 32 word \<Rightarrow> serve_env \<Rightarrow> SenderPacket \<Rightarrow> ReflectorPacket" where
  "reply_packet c n e p = \<lparr>rp_SequenceNumber = n, rp_Timestamp = generateNtpTimestamp (rd_tx e),
     rp_ErrorEstimate = config_estimate c, rp_ReceiveTimestamp = generateNtpTimestamp (rd_rx e),
     rp_SenderSequenceNumber = sp_SequenceNumber p, rp_SenderTimestamp = sp_Timestamp p,
     rp_SenderErrorEstimate = sp_ErrorEstimate p, rp_SenderTTL = 1\<rparr>"

lemma reflect_valid:
  assumes "valid_config (rf_Config r)"
  shows "reflect r e d = (if length d < 44 then Err PacketTooShort
    else Ret (reply_packet (rf_Config r) (rf_seq r) e (received d)))"
  using assms new_estimate_valid [OF assms] received_read [of d]
  by (auto simp: reflect_def Let_def NewTimestamp_def valid_config_def reply_packet_def read_bytes_def
      simp del: read_packet)

lemma handleError_simps [simp]:
  "rf_seq (handleError x r) = rf_seq r" "rf_Config (handleError x r) = rf_Config r"
  "rf_onError (handleError x r) = rf_onError r"
  "rf_errors (handleError x r) = rf_errors r @ (if rf_onError r then [x] else [])"
  by (simp_all add: handleError_def)

section \<open>What a reflector promises\<close>

text \<open>
  The abstract reflector answers every datagram of at least 44 octets, in order, with consecutive
  sequence numbers, and reports every other event.
\<close>

fun replies :: "Config \<Rightarrow> 32 word \<Rightarrow> serve_env list \<Rightarrow> (addr \<times> ReflectorPacket) list" where
  "replies c n [] = []"
| "replies c n (e # es) = (case rd_read e of
     ReadFailed _ \<Rightarrow> replies c n es
   | Datagram a d \<Rightarrow> if length d < 44 then replies c n es
       else (a, reply_packet c n e (received d)) # replies c (n + 1) es)"

fun reports :: "serve_env list \<Rightarrow> stamp_error list" where
  "reports [] = []"
| "reports (e # es) = (case rd_read e of
     ReadFailed _ \<Rightarrow> [NetError]
   | Datagram a d \<Rightarrow> if length d < 44 then [PacketTooShort] else []) @ reports es"

text \<open>A round in which the session goes on: the context lives, the socket is open, the write succeeds.\<close>

definition live_round :: "serve_env \<Rightarrow> bool" where
  "live_round e \<longleftrightarrow> \<not> rd_done e \<and> \<not> rd_done_read e \<and> \<not> rd_err_read e \<and> rd_read e \<noteq> ReadFailed True \<and> rd_write_ok e"

lemma serve_round_live:
  assumes "valid_config (rf_Config r)" "live_round e"
  obtains r' out where "serve_round r e = (r', out, Looping)"
    "rf_Config r' = rf_Config r" "rf_onError r' = rf_onError r"
    "rf_seq r' = rf_seq r + of_nat (length out)"
    "rf_errors r' = rf_errors r @ (if rf_onError r then reports [e] else [])"
    "map (\<lambda>(a, b). (a, DecodeReflectorPacket None b)) out = map (\<lambda>(a, p). (a, Ret p)) (replies (rf_Config r) (rf_seq r) [e])"
proof (cases "rd_read e")
  case (ReadFailed x)
  show ?thesis
    by (rule that [of "handleError NetError r" "[]"]) (use assms(2) ReadFailed in \<open>auto simp: serve_round_def live_round_def\<close>)
next
  case (Datagram a d)
  note live = assms(2) [unfolded live_round_def]
  show ?thesis
  proof (cases "length d < 44")
    case True
    show ?thesis
      by (rule that [of "handleError PacketTooShort r" "[]"])
        (use live Datagram True in \<open>simp_all add: serve_round_def serve_datagram_def reflect_valid [OF assms(1)]\<close>)
  next
    case False
    let ?p = "reply_packet (rf_Config r) (rf_seq r) e (received d)"
    obtain b where b: "ReflectorPacket_Encode None ?p = Ret b" "DecodeReflectorPacket None (b @ []) = Ret ?p"
      by (rule reflector_codec.enc_cases [of ?p]) blast
    show ?thesis
      by (rule that [of "r\<lparr>rf_seq := rf_seq r + 1\<rparr>" "[(a, b)]"])
        (use live Datagram False b in \<open>simp_all add: serve_round_def serve_datagram_def reflect_valid [OF assms(1)]\<close>)
  qed
qed

text \<open>
  Property C19. The reflector loop refines the abstract reflector. With a valid configuration, as
  long as the session goes on, it never returns; the datagrams it sends decode to exactly the
  promised replies, in order and each to its own sender; its sequence number counts the replies
  modulo 2^32; and every failed read and short datagram is reported to the error callback, if set.
\<close>

theorem serve_refines_replies:
  assumes "valid_config (rf_Config r)" "list_all live_round es"
  shows "\<exists>r' out. Serve True r es = (r', out, Looping)
    \<and> map (\<lambda>(a, b). (a, DecodeReflectorPacket None b)) out
        = map (\<lambda>(a, p). (a, Ret p)) (replies (rf_Config r) (rf_seq r) es)
    \<and> rf_seq r' = rf_seq r + of_nat (length out)
    \<and> rf_errors r' = rf_errors r @ (if rf_onError r then reports es else [])"
proof -
  have "\<exists>r' out. serve_loop r es = (r', out, Looping)
    \<and> map (\<lambda>(a, b). (a, DecodeReflectorPacket None b)) out
        = map (\<lambda>(a, p). (a, Ret p)) (replies (rf_Config r) (rf_seq r) es)
    \<and> rf_seq r' = rf_seq r + of_nat (length out)
    \<and> rf_errors r' = rf_errors r @ (if rf_onError r then reports es else [])"
    if "valid_config (rf_Config r)" for r
    using assms(2) that
  proof (induction es arbitrary: r)
    case (Cons e es)
    then have "valid_config (rf_Config r)" "live_round e" by simp_all
    then obtain r1 out1 where 1: "serve_round r e = (r1, out1, Looping)"
      "rf_Config r1 = rf_Config r" "rf_onError r1 = rf_onError r"
      "rf_seq r1 = rf_seq r + of_nat (length out1)"
      "rf_errors r1 = rf_errors r @ (if rf_onError r then reports [e] else [])"
      "map (\<lambda>(a, b). (a, DecodeReflectorPacket None b)) out1 = map (\<lambda>(a, p). (a, Ret p)) (replies (rf_Config r) (rf_seq r) [e])"
      by (rule serve_round_live)
    then have len: "length out1 = length (replies (rf_Config r) (rf_seq r) [e])" by (metis length_map)
    obtain r2 out2 where 2: "serve_loop r1 es = (r2, out2, Looping)"
      "map (\<lambda>(a, b). (a, DecodeReflectorPacket None b)) out2
        = map (\<lambda>(a, p). (a, Ret p)) (replies (rf_Config r1) (rf_seq r1) es)"
      "rf_seq r2 = rf_seq r1 + of_nat (length out2)"
      "rf_errors r2 = rf_errors r1 @ (if rf_onError r1 then reports es else [])"
      using Cons.IH [of r1] Cons.prems 1(2) by auto
    have "replies (rf_Config r) (rf_seq r) (e # es)
        = replies (rf_Config r) (rf_seq r) [e] @ replies (rf_Config r) (rf_seq r + of_nat (length out1)) es"
      unfolding len by (simp split: read_event.split)
    then show ?case using 1 2 by (simp del: replies.simps(2))
  qed simp
  from this [of "r\<lparr>rf_Server := True\<rparr>"] show ?thesis using assms(1) by (simp add: Serve_def)
qed

definition demo_config :: Config where
  "demo_config = \<lparr>cf_ErrorEstimate = \<lparr>ec_Scale = 10, ec_Multiplier = 1, ec_ClockFormat = ClockFormatNTP,
     ec_Synchronized = True\<rparr>\<rparr>"

definition demo_reflector :: Reflector where
  "demo_reflector = \<lparr>rf_Server = False, rf_LocalAddr = '':862'', rf_Config = demo_config, rf_seq = 0,
     rf_onError = True, rf_errors = []\<rparr>"

definition demo_round :: "read_event \<Rightarrow> serve_env" where
  "demo_round ev = \<lparr>rd_done = False, rd_read = ev, rd_done_read = False, rd_err_read = False, rd_rx = 5, rd_tx = 7,
     rd_write_ok = True\<rparr>"

lemmas demo_session_defs = demo_config_def demo_reflector_def demo_round_def valid_config_def live_round_def

theorem serve_refines_replies_witness:
  "\<exists>r' out. Serve True demo_reflector
       [demo_round (Datagram ''a'' [1, 2, 3]), demo_round (ReadFailed False), demo_round (Datagram ''b'' (replicate 44 0))]
     = (r', out, Looping)
   \<and> map fst out = [''b''] \<and> rf_seq r' = 1 \<and> rf_errors r' = [PacketTooShort, NetError]"
proof -
  let ?es = "[demo_round (Datagram ''a'' [1, 2, 3]), demo_round (ReadFailed False), demo_round (Datagram ''b'' (replicate 44 0))]"
  have "valid_config (rf_Config demo_reflector)" "list_all live_round ?es" by (simp_all add: demo_session_defs)
  then obtain r' out where o: "Serve True demo_reflector ?es = (r', out, Looping)"
    "map (\<lambda>(a, b). (a, DecodeReflectorPacket None b)) out
       = map (\<lambda>(a, p). (a, Ret p)) (replies (rf_Config demo_reflector) (rf_seq demo_reflector) ?es)"
    "rf_seq r' = rf_seq demo_reflector + of_nat (length out)"
    "rf_errors r' = rf_errors demo_reflector @ (if rf_onError demo_reflector then reports ?es else [])"
    using serve_refines_replies [of demo_reflector ?es] by blast
  from o(2) obtain b where "out = [(''b'', b)]" by (auto simp: demo_round_def)
  then show ?thesis using o(1,3,4) by (simp add: demo_round_def demo_reflector_def)
qed

section \<open>A session between the two ends\<close>

text \<open>
  One exchange over a network that delivers: the packet that \<open>Send\<close> writes is the datagram of a round
  of the reflector loop, and what that round sends is what the read of \<open>Send\<close> returns.
\<close>

definition exchange ::
  "addr \<Rightarrow> Sender \<times> Reflector \<Rightarrow> send_env \<times> serve_env \<Rightarrow> (Sender \<times> Reflector) \<times> (stamp_error, ReflectorPacket) outcome" where
  "exchange a sr we = (case (sr, we) of ((s, r), (w, e)) \<Rightarrow>
     (case Send_packet (se_now w) s of
        Ret buf \<Rightarrow> (case serve_round r (e\<lparr>rd_read := Datagram a buf\<rparr>) of (r', out, x) \<Rightarrow>
          (case Send (w\<lparr>se_reply := (case out of [] \<Rightarrow> None | (_, b) # _ \<Rightarrow> Some b)\<rparr>) s of
             (s', ops, res) \<Rightarrow> ((s', r'), res)))
      | _ \<Rightarrow> (case Send (w\<lparr>se_reply := None\<rparr>) s of (s', ops, res) \<Rightarrow> ((s', r), res))))"

fun session :: "addr \<Rightarrow> Sender \<times> Reflector \<Rightarrow> (send_env \<times> serve_env) list \<Rightarrow>
    (Sender \<times> Reflector) \<times> (stamp_error, ReflectorPacket) outcome list" where
  "session a sr [] = (sr, [])"
| "session a sr (we # wes) = (case exchange a sr we of (sr', res) \<Rightarrow>
     (case session a sr' wes of (sr'', ress) \<Rightarrow> (sr'', res # ress)))"

definition delivers :: "send_env \<times> serve_env \<Rightarrow> bool" where
  "delivers we \<longleftrightarrow> se_write_ok (fst we) \<and> \<not> rd_done (snd we) \<and> rd_write_ok (snd we)"

definition ready :: "Sender \<times> Reflector \<Rightarrow> bool" where
  "ready sr \<longleftrightarrow> valid_config (sn_Config (fst sr)) \<and> sn_HMACKey (fst sr) = None \<and> valid_config (rf_Config (snd sr))"

lemma exchange_delivers:
  assumes "ready (s, r)" "delivers (w, e)"
  shows "exchange a (s, r) (w, e) = ((s\<lparr>sn_seq := sn_seq s + 1\<rparr>, r\<lparr>rf_seq := rf_seq r + 1\<rparr>),
    Ret (reply_packet (rf_Config r) (rf_seq r) e (sender_packet (se_now w) s)))"
proof -
  let ?sp = "sender_packet (se_now w) s"
  obtain buf where buf: "SenderPacket_Encode None ?sp = Ret buf" "length buf = 44"
    by (rule sender_codec.enc_cases [of ?sp]) blast
  have pkt: "Send_packet (se_now w) s = Ret buf" using assms(1) buf by (simp add: Send_packet_valid ready_def)
  let ?rp = "reply_packet (rf_Config r) (rf_seq r) e ?sp"
  obtain b where b: "ReflectorPacket_Encode None ?rp = Ret b" by (rule reflector_codec.enc_cases [of ?rp]) blast
  have "reflect r (e\<lparr>rd_read := Datagram a buf\<rparr>) buf = Ret ?rp"
    using assms(1) buf by (simp add: reflect_valid ready_def received_packet) (simp add: reply_packet_def)
  then have "serve_round r (e\<lparr>rd_read := Datagram a buf\<rparr>) = (r\<lparr>rf_seq := rf_seq r + 1\<rparr>, [(a, b)], Looping)"
    using assms(2) b by (simp add: serve_round_def serve_datagram_def delivers_def)
  then show ?thesis
    using assms(2) pkt by (simp add: exchange_def Send_def delivers_def Send_reply_packet [OF b])
qed

text \<open>
  Property C18. The two ends agree over a whole session. If both are well configured and the network
  delivers, every \<open>Send\<close> succeeds; the i-th reply carries the sender's i-th sequence number,
  its own transmit time and estimate, the times at which the reflector received and answered it, and the
  reflector's i-th sequence number; and both counters advance by the number of exchanges.
\<close>

theorem session_echoes:
  assumes "ready (s, r)" "list_all delivers wes"
  shows "session a (s, r) wes =
    ((s\<lparr>sn_seq := sn_seq s + of_nat (length wes)\<rparr>, r\<lparr>rf_seq := rf_seq r + of_nat (length wes)\<rparr>),
     map (\<lambda>(i, w, e). Ret \<lparr>rp_SequenceNumber = rf_seq r + of_nat i,
            rp_Timestamp = generateNtpTimestamp (rd_tx e), rp_ErrorEstimate = config_estimate (rf_Config r),
            rp_ReceiveTimestamp = generateNtpTimestamp (rd_rx e),
            rp_SenderSequenceNumber = sn_seq s + of_nat i, rp_SenderTimestamp = generateNtpTimestamp (se_now w),
            rp_SenderErrorEstimate = config_estimate (sn_Config s), rp_SenderTTL = 1\<rparr>)
       (zip [0..<length wes] wes))"
  using assms
proof (induction wes arbitrary: s r)
  case (Cons we wes)
  obtain w e where we: "we = (w, e)" by (cases we)
  let ?s = "s\<lparr>sn_seq := sn_seq s + 1\<rparr>" and ?r = "r\<lparr>rf_seq := rf_seq r + 1\<rparr>"
  have "ready (?s, ?r)" using Cons.prems(1) by (simp add: ready_def)
  note IH = Cons.IH [OF this] 
  have up: "[0..<length (we # wes)] = 0 # map Suc [0..<length wes]" by (simp only: list.size(4) map_Suc_upt upt_conv_Cons) simp
  have "exchange a (s, r) we = ((?s, ?r), Ret (reply_packet (rf_Config r) (rf_seq r) e (sender_packet (se_now w) s)))"
    using Cons.prems unfolding we by (intro exchange_delivers) simp_all
  then show ?case
    using Cons.prems(2) unfolding up
    by (simp add: we IH zip_map1 reply_packet_def sender_packet_def split_beta comp_def)
qed simp

definition demo_sender :: Sender where
  "demo_sender = \<lparr>sn_Conn = Some (''l'', ''r''), sn_HMACKey = None, sn_seq = 0, sn_onError = False,
     sn_timeout = 5 * second, sn_Config = demo_config\<rparr>"

definition demo_send :: send_env where
  "demo_send = \<lparr>se_now = 3, se_write_ok = True, se_now_read = 4, se_reply = None\<rparr>"

theorem session_echoes_witness:
  "let wes = [(demo_send, demo_round (ReadFailed False)), (demo_send, demo_round (ReadFailed False))];
       out = session ''a'' (demo_sender, demo_reflector) wes
   in sn_seq (fst (fst out)) = 2 \<and> rf_seq (snd (fst out)) = 2
    \<and> map (\<lambda>x. case x of Ret p \<Rightarrow> uint (rp_SenderSequenceNumber p) | _ \<Rightarrow> 99) (snd out) = [0, 1]"
proof -
  let ?wes = "[(demo_send, demo_round (ReadFailed False)), (demo_send, demo_round (ReadFailed False))]"
  have "ready (demo_sender, demo_reflector)" "list_all delivers ?wes"
    by (simp_all add: demo_session_defs ready_def delivers_def demo_sender_def demo_send_def)
  from session_echoes [OF this, of "''a''"] show ?thesis
    by (simp add: Let_def demo_sender_def demo_reflector_def upt_rec)
qed

text \<open>
  What a send leaves behind. It never panics; the sequence number advances by one,
  modulo 2^32, exactly on success and nothing else of the sender changes; a key, an
  unsupported clock or a scale above 63 stop it before anything is written; and any datagram of
  at least 44 octets counts as the reply, whatever sequence number it echoes.
\<close>

lemma send_outcome:
  "case Send w s of (s', ops, res) \<Rightarrow>
     res \<noteq> Panic
     \<and> s' = (if is_ret res then s\<lparr>sn_seq := sn_seq s + 1\<rparr> else s)
     \<and> (ops \<noteq> [] \<longleftrightarrow> sn_HMACKey s = None \<and> valid_config (sn_Config s))
     \<and> (is_ret res \<longleftrightarrow> ops \<noteq> [] \<and> se_write_ok w \<and> (case se_reply w of None \<Rightarrow> False | Some d \<Rightarrow> 44 \<le> length d))"
proof (cases "sn_HMACKey s \<noteq> None \<or> \<not> valid_config (sn_Config s)")
  case True
  then obtain er where "Send_packet (se_now w) s = Err er"
    by (cases "sn_HMACKey s"; cases "ec_ClockFormat (cf_ErrorEstimate (sn_Config s)) = ClockFormatNTP")
      (simp_all add: Send_packet_def valid_config_def NewTimestamp_def new_estimate_def NewErrorEstimate_def not_le)
  then show ?thesis using True by (simp add: Send_def)
next
  case False
  obtain buf where "SenderPacket_Encode None (sender_packet (se_now w) s) = Ret buf"
    by (rule sender_codec.enc_cases [of "sender_packet (se_now w) s"]) blast
  then have pkt: "Send_packet (se_now w) s = Ret buf" using False by (simp add: Send_packet_valid)
  show ?thesis
  proof (cases "se_reply w")
    case None
    then show ?thesis using False pkt by (simp add: Send_def Send_reply_def)
  next
    case (Some d)
    have "44 \<le> length d \<Longrightarrow> \<exists>p. DecodeReflectorPacket None (take 1500 d) = Ret p"
      by (rule reflector_codec.dec_total) simp
    then show ?thesis using False pkt Some by (auto simp: Send_def Send_reply_eq)
  qed
qed

end
