(* ===== verification/Scamper_Client.thy ===== *)
theory Scamper_Client
  imports Go_Base
begin

text \<open>
  The client of the scamper daemon (\<^verbatim>\<open>libs/scamper-client/client.go\<close>). A command is a line written
  to the control socket; its result channel joins a queue. The reader takes the daemon's replies off the
  socket, one line, or one line and its payload, at a time. Channels are numbered in the order of their creation;
  what is sent on them is recorded. The socket's contents are a list of characters. The two
  \<^verbatim>\<open>Sscanf\<close> formats of the source are written out.
\<close>

section \<open>Configuration\<close>

record ScamperClientConfig =
  sk_BinPath :: string
  sk_SocketPath :: string
  sk_PPS :: int
  sk_Window :: int
  sk_Format :: string

definition ScamperFormatJSON :: string where "ScamperFormatJSON = ''json''"
definition ScamperFormatWarts :: string where "ScamperFormatWarts = ''warts''"

type_synonym chan = nat

record ScamperClient =
  cl_cfg :: ScamperClientConfig
  cl_pendingQ :: "chan list"
  cl_waiters :: "string \<Rightarrow> chan option"
  cl_next :: chan
  cl_sent :: "(chan \<times> string option) list"
  cl_conn :: bool
  cl_done :: bool

definition NewClient :: "ScamperClientConfig \<Rightarrow> (string, ScamperClient) outcome" where
  "NewClient cfg =
     (let cfg1 = (if sk_PPS cfg = 0 then cfg\<lparr>sk_PPS := 100\<rparr> else cfg);
          cfg2 = (if sk_SocketPath cfg1 = [] then cfg1\<lparr>sk_SocketPath := ''/tmp/scamper-client.sock''\<rparr> else cfg1)
      in if sk_BinPath cfg2 = [] then Err ''bin path cannot be empty''
         else let cfg3 = (if sk_Format cfg2 = [] then cfg2\<lparr>sk_Format := ScamperFormatWarts\<rparr> else cfg2)
           in Ret \<lparr>cl_cfg = cfg3, cl_pendingQ = [], cl_waiters = Map.empty, cl_next = 0, cl_sent = [], cl_conn = False, cl_done = False\<rparr>)"

section \<open>Sending a command\<close>

text \<open>The text written, and the channel on which the result will arrive.\<close>

definition scamper_Send :: "bool \<Rightarrow> string \<Rightarrow> ScamperClient \<Rightarrow> (string, string \<times> chan) outcome \<times> ScamperClient" where
  "scamper_Send write_ok cmd s =
     (if \<not> write_ok then (Err ''write failed'', s)
      else (Ret (cmd @ [CHR 0x0A], cl_next s),
        s\<lparr>cl_next := Suc (cl_next s), cl_pendingQ := cl_pendingQ s @ [cl_next s]\<rparr>))"

section \<open>Reply lines\<close>

definition is_space :: "char \<Rightarrow> bool" where
  "is_space c \<longleftrightarrow> c = CHR '' '' \<or> c = CHR 0x09 \<or> c = CHR 0x0D"

definition scan_string :: "string \<Rightarrow> string \<times> string" where
  "scan_string s = (let t = dropWhile is_space s in
     (takeWhile (\<lambda>c. \<not> is_space c) t, dropWhile (\<lambda>c. \<not> is_space c) t))"

text \<open>\<^verbatim>\<open>%d\<close>: an optional sign and digits that fit in 64 bits.\<close>

definition scan_int :: "string \<Rightarrow> (int \<times> string) option" where
  "scan_int s =
     (let t = dropWhile is_space s;
          (neg, u) = (case t of c # cs \<Rightarrow> if c = CHR ''-'' then (True, cs) else if c = CHR ''+'' then (False, cs) else (False, t)
            | [] \<Rightarrow> (False, t));
          ds = takeWhile is_digit u;
          n = (if neg then - digits_value 0 ds else digits_value 0 ds)
      in if ds = [] \<or> \<not> in_s 64 n then None else Some (n, dropWhile is_digit u))"

text \<open>A space of the format matches one or more spaces of the input.\<close>

definition format_space :: "string \<Rightarrow> bool" where
  "format_space s \<longleftrightarrow> (case s of c # _ \<Rightarrow> is_space c | [] \<Rightarrow> True)"

definition ok_id :: "string \<Rightarrow> string" where
  "ok_id line = (let rest = drop 2 line in if format_space rest then fst (scan_string rest) else [])"

definition data_header :: "string \<Rightarrow> (int \<times> string) option" where
  "data_header line =
     (let rest = drop 4 line in
      if \<not> format_space rest then None
      else case scan_int rest of
        None \<Rightarrow> None
      | Some (n, rest') \<Rightarrow>
          if \<not> format_space rest' then None
          else (case scan_string rest' of (i, _) \<Rightarrow> if i = [] then None else Some (n, i)))"

definition has_prefix :: "string \<Rightarrow> string \<Rightarrow> bool" where
  "has_prefix p s \<longleftrightarrow> take (length p) s = p"

section \<open>The reader\<close>

text \<open>A line and what follows it; \<open>None\<close> when no newline is left.\<close>

definition read_line :: "string \<Rightarrow> (string \<times> string) option" where
  "read_line inp = (let rest = dropWhile (\<lambda>c. c \<noteq> CHR 0x0A) inp in
     if rest = [] then None else Some (takeWhile (\<lambda>c. c \<noteq> CHR 0x0A) inp, tl rest))"

definition on_err :: "ScamperClient \<Rightarrow> ScamperClient" where
  "on_err s = (case cl_pendingQ s of [] \<Rightarrow> s | _ # q \<Rightarrow> s\<lparr>cl_pendingQ := q\<rparr>)"

definition on_ok :: "string \<Rightarrow> ScamperClient \<Rightarrow> ScamperClient" where
  "on_ok i s = (case cl_pendingQ s of
       [] \<Rightarrow> s
     | w # q \<Rightarrow>
         let s' = s\<lparr>cl_pendingQ := q\<rparr>
         in if i \<noteq> [] then s'\<lparr>cl_waiters := (cl_waiters s')(i \<mapsto> w)\<rparr>
            else s'\<lparr>cl_sent := cl_sent s' @ [(w, None)]\<rparr>)"

definition on_data :: "string \<Rightarrow> string \<Rightarrow> ScamperClient \<Rightarrow> ScamperClient" where
  "on_data i buf s =
     (if i = [] then s
      else case cl_waiters s i of
        None \<Rightarrow> s
      | Some w \<Rightarrow> s\<lparr>cl_waiters := (cl_waiters s)(i := None), cl_sent := cl_sent s @ [(w, Some buf)]\<rparr>)"

datatype read_result =
    Continue ScamperClient string
  | ReadStopped ScamperClient
  | ReadPanic ScamperClient

definition read_step :: "ScamperClient \<Rightarrow> string \<Rightarrow> read_result" where
  "read_step s inp = (case read_line inp of
       None \<Rightarrow> ReadStopped s
     | Some (line, rest) \<Rightarrow>
         if has_prefix ''ERR'' line then Continue (on_err s) rest
         else if has_prefix ''MORE'' line then Continue s rest
         else if has_prefix ''OK'' line then Continue (on_ok (ok_id line) s) rest
         else if has_prefix ''DATA'' line then
           (case data_header line of
              None \<Rightarrow> Continue s rest
            | Some (n, i) \<Rightarrow>
                if n < 0 then ReadPanic s
                else if int (length rest) < n then Continue s []
                else Continue (on_data i (take (nat n) rest) s) (drop (nat n) rest))
         else Continue s rest)"

lemma read_step_shorter: "read_step s inp = Continue s' rest \<Longrightarrow> length rest < length inp"
proof -
  have nl: "length r < length inp" if "read_line inp = Some (l, r)" for l r
  proof -
    let ?d = "dropWhile (\<lambda>c. c \<noteq> CHR 0x0A) inp"
    have "?d \<noteq> []" "r = tl ?d" using that by (auto simp: read_line_def Let_def split: if_splits)
    then show ?thesis using length_dropWhile_le [of "\<lambda>c. c \<noteq> CHR 0x0A" inp] by (cases ?d) auto
  qed
  assume "read_step s inp = Continue s' rest"
  then show ?thesis
    using nl by (fastforce simp: read_step_def split: option.splits prod.splits if_splits)
qed

text \<open>The loop of \<open>StartRead\<close> over the input available; it ends when the socket is exhausted.\<close>

function read_loop :: "ScamperClient \<Rightarrow> string \<Rightarrow> read_result" where
  "read_loop s inp = (case read_step s inp of Continue s' rest \<Rightarrow> read_loop s' rest | r \<Rightarrow> r)"
  by auto
termination
  by (relation "measure (\<lambda>(s, inp). length inp)") (auto dest: read_step_shorter)

declare read_loop.simps [simp del]

section \<open>Runs of the client\<close>

text \<open>Commands and replies in any interleaving; both sides hold the lock while they touch the queue.\<close>

inductive client_step :: "ScamperClient \<Rightarrow> ScamperClient \<Rightarrow> bool" where
  send: "scamper_Send ok cmd s = (res, s') \<Longrightarrow> client_step s s'"
| read: "read_step s inp = Continue s' rest \<Longrightarrow> client_step s s'"

inductive_cases client_stepE: "client_step s s'"

text \<open>\<open>k\<close> commands have been answered; the others wait in the order they were sent.\<close>

definition client_inv :: "nat \<Rightarrow> ScamperClient \<Rightarrow> bool" where
  "client_inv k s \<longleftrightarrow> k \<le> cl_next s \<and> cl_pendingQ s = [k..<cl_next s]
     \<and> distinct (map fst (cl_sent s)) \<and> (\<forall>c \<in> fst ` set (cl_sent s). c < k)
     \<and> (\<forall>i c. cl_waiters s i = Some c \<longrightarrow> c < k \<and> c \<notin> fst ` set (cl_sent s))
     \<and> (\<forall>i j c. cl_waiters s i = Some c \<longrightarrow> cl_waiters s j = Some c \<longrightarrow> i = j)"

lemma read_step_cases:
  assumes "read_step s inp = Continue s' rest"
  obtains "s' = s" | "s' = on_err s" | i where "s' = on_ok i s" | i buf where "s' = on_data i buf s"
  using assms by (auto simp: read_step_def split: option.splits prod.splits if_splits)

lemma pending_cases:
  assumes "client_inv k s"
  shows "cl_pendingQ s = [] \<and> k = cl_next s \<or> cl_pendingQ s = k # [Suc k..<cl_next s] \<and> k < cl_next s"
  using assms by (cases "k < cl_next s") (auto simp: client_inv_def upt_conv_Cons)

lemma on_err_inv: "client_inv k s \<Longrightarrow> \<exists>k' \<ge> k. client_inv k' (on_err s)"
proof (cases "cl_pendingQ s = []")
  case False
  assume inv: "client_inv k s"
  with False have p: "cl_pendingQ s = k # [Suc k..<cl_next s]" "k < cl_next s" using pending_cases [OF inv] by auto
  have s': "on_err s = s\<lparr>cl_pendingQ := [Suc k..<cl_next s]\<rparr>" using p by (simp add: on_err_def)
  have "client_inv (Suc k) (on_err s)"
    using inv p(2) unfolding client_inv_def s' by (auto simp: less_Suc_eq)
  then show ?thesis by (intro exI [of _ "Suc k"]) simp
qed (auto simp: on_err_def)

lemma on_ok_inv: "client_inv k s \<Longrightarrow> \<exists>k' \<ge> k. client_inv k' (on_ok i s)"
proof (cases "cl_pendingQ s = []")
  case False
  assume inv: "client_inv k s"
  with False have p: "cl_pendingQ s = k # [Suc k..<cl_next s]" "k < cl_next s" using pending_cases [OF inv] by auto
  have old: "c < k" if "c \<in> fst ` set (cl_sent s) \<or> cl_waiters s j = Some c" for c j
    using inv that unfolding client_inv_def by blast
  have sent: "distinct (map fst (cl_sent s))" "k \<notin> fst ` set (cl_sent s)" using inv old unfolding client_inv_def by blast+
  have wait: "cl_waiters s i = Some c \<Longrightarrow> c \<notin> fst ` set (cl_sent s)" "cl_waiters s i = Some c \<Longrightarrow> cl_waiters s j = Some c \<Longrightarrow> i = j"
    "cl_waiters s i \<noteq> Some k" for i j c
    using inv old unfolding client_inv_def by blast+
  have "client_inv (Suc k) (on_ok i s)"
  proof (cases "i = []")
    case True
    have s': "on_ok i s = s\<lparr>cl_pendingQ := [Suc k..<cl_next s], cl_sent := cl_sent s @ [(k, None)]\<rparr>"
      using p True by (simp add: on_ok_def Let_def)
    show ?thesis
      using p(2) sent wait old unfolding client_inv_def s' by (auto simp: less_Suc_eq)
  next
    case False
    have s': "on_ok i s = s\<lparr>cl_pendingQ := [Suc k..<cl_next s], cl_waiters := (cl_waiters s)(i \<mapsto> k)\<rparr>"
      using p False by (simp add: on_ok_def Let_def)
    show ?thesis
      unfolding client_inv_def s'
    proof (intro conjI allI impI ballI)
      fix a b c assume "cl_waiters (s\<lparr>cl_pendingQ := [Suc k..<cl_next s], cl_waiters := (cl_waiters s)(i \<mapsto> k)\<rparr>) a = Some c"
        "cl_waiters (s\<lparr>cl_pendingQ := [Suc k..<cl_next s], cl_waiters := (cl_waiters s)(i \<mapsto> k)\<rparr>) b = Some c"
      then show "a = b" using wait(2) [of a c b] wait(3) [of a] wait(3) [of b] by (auto split: if_splits)
    next
      fix c assume "c \<in> fst ` set (cl_sent (s\<lparr>cl_pendingQ := [Suc k..<cl_next s], cl_waiters := (cl_waiters s)(i \<mapsto> k)\<rparr>))"
      then show "c < Suc k" using old [of c] by auto
    qed (use p sent wait(1) old in \<open>auto simp: less_Suc_eq split: if_splits\<close>)
  qed
  then show ?thesis by (intro exI [of _ "Suc k"]) simp
qed (auto simp: on_ok_def)

lemma on_data_inv: "client_inv k s \<Longrightarrow> client_inv k (on_data i buf s)"
proof (cases "i = [] \<or> cl_waiters s i = None")
  case False
  assume inv: "client_inv k s"
  obtain w where w: "cl_waiters s i = Some w" using False by auto
  have "w < k" "w \<notin> fst ` set (cl_sent s)" and uniq: "\<And>j. cl_waiters s j = Some w \<Longrightarrow> j = i"
    using inv w unfolding client_inv_def by blast+
  then show ?thesis
    using inv False w unfolding client_inv_def by (auto simp: on_data_def split: if_splits)
qed (auto simp: on_data_def)

lemma client_step_inv:
  assumes "client_step s s'" "client_inv k s"
  shows "\<exists>k' \<ge> k. client_inv k' s'"
  using assms(1)
proof (cases rule: client_step.cases)
  case (send ok cmd res)
  then have "s' = s \<or> s' = s\<lparr>cl_next := Suc (cl_next s), cl_pendingQ := cl_pendingQ s @ [cl_next s]\<rparr>"
    by (auto simp: scamper_Send_def split: if_splits)
  then have "client_inv k s'"
    using assms(2) unfolding client_inv_def by (elim disjE; simp)
  then show ?thesis by blast
next
  case (read inp rest)
  from this(1) show ?thesis
    by (cases rule: read_step_cases)
      (use assms(2) on_err_inv on_ok_inv on_data_inv in auto)
qed

lemma client_reach_inv:
  assumes "client_step\<^sup>*\<^sup>* s s'" "client_inv k s"
  shows "\<exists>k' \<ge> k. client_inv k' s'"
  using assms
proof (induction rule: rtranclp_induct)
  case (step y z)
  then show ?case using client_step_inv by (meson order_trans)
qed blast

lemma NewClient_inv: "NewClient cfg = Ret s \<Longrightarrow> client_inv 0 s"
  by (auto simp: NewClient_def client_inv_def Let_def split: if_splits)

text \<open>
  Property C38. Replies are matched to commands in order, and no result channel is used twice. In
  every state a client reaches, under any interleaving of commands and replies, the waiting commands are the
  latest ones, in the order they were sent; every channel was sent to at most once, so that its one
  slot never blocks the reader; channels that still wait for data were never sent to and belong to one
  identifier each; and a reply that announces an identifier, followed by the data for it, delivers that data to the oldest
  waiting command.
\<close>

theorem scamper_replies_match_commands:
  assumes "NewClient cfg = Ret s0" "client_step\<^sup>*\<^sup>* s0 s"
  shows "(\<exists>k \<le> cl_next s. cl_pendingQ s = [k..<cl_next s])
    \<and> distinct (map fst (cl_sent s))
    \<and> (\<forall>i j c. cl_waiters s i = Some c \<longrightarrow> c \<notin> fst ` set (cl_sent s) \<and> (cl_waiters s j = Some c \<longrightarrow> i = j))
    \<and> (\<forall>i buf w q. i \<noteq> [] \<longrightarrow> cl_pendingQ s = w # q \<longrightarrow>
         cl_sent (on_data i buf (on_ok i s)) = cl_sent s @ [(w, Some buf)] \<and> cl_pendingQ (on_data i buf (on_ok i s)) = q)"
proof -
  obtain k where k: "client_inv k s" using client_reach_inv [OF assms(2) NewClient_inv [OF assms(1)]] by blast
  have "(\<exists>k \<le> cl_next s. cl_pendingQ s = [k..<cl_next s])" "distinct (map fst (cl_sent s))"
    using k unfolding client_inv_def by blast+
  moreover have "\<forall>i j c. cl_waiters s i = Some c \<longrightarrow> c \<notin> fst ` set (cl_sent s) \<and> (cl_waiters s j = Some c \<longrightarrow> i = j)"
    using k unfolding client_inv_def by blast
  ultimately show ?thesis by (simp add: on_ok_def on_data_def Let_def)
qed

definition demo_client_cfg :: ScamperClientConfig where
  "demo_client_cfg = \<lparr>sk_BinPath = ''scamper'', sk_SocketPath = [], sk_PPS = 0, sk_Window = 0, sk_Format = ScamperFormatJSON\<rparr>"

theorem scamper_replies_match_commands_witness:
  "\<exists>s0 s. NewClient demo_client_cfg = Ret s0 \<and> client_step\<^sup>*\<^sup>* s0 s
     \<and> cl_pendingQ s = [0] \<and> cl_sent (on_data ''id-1'' ''x'' (on_ok ''id-1'' s)) = [(0, Some ''x'')]"
proof -
  obtain s0 where s0: "NewClient demo_client_cfg = Ret s0" "cl_next s0 = 0" "cl_pendingQ s0 = []" "cl_sent s0 = []"
    by (simp add: NewClient_def demo_client_cfg_def Let_def)
  let ?s = "s0\<lparr>cl_next := Suc (cl_next s0), cl_pendingQ := cl_pendingQ s0 @ [cl_next s0]\<rparr>"
  have "client_step s0 ?s" by (rule client_step.send [of True "''ping 10.0.0.1''"]) (simp add: scamper_Send_def)
  then have st: "client_step\<^sup>*\<^sup>* s0 ?s" by (rule r_into_rtranclp)
  show ?thesis
    using scamper_replies_match_commands [OF s0(1) st] s0 st by (intro exI [of _ s0] exI [of _ ?s]) simp
qed

text \<open>A command that the daemon refuses never gets an answer: its channel leaves the queue unnoticed.\<close>

lemma refused_command_never_answered:
  assumes "NewClient cfg = Ret s0" "client_step\<^sup>*\<^sup>* s0 s" "cl_pendingQ s = w # q" "client_step\<^sup>*\<^sup>* (on_err s) s'"
  shows "w \<notin> fst ` set (cl_sent s')"
proof -
  define orphan where "orphan k t \<longleftrightarrow> client_inv k t \<and> w < k \<and> w \<notin> fst ` set (cl_sent t) \<and> (\<forall>i. cl_waiters t i \<noteq> Some w)" for k t
  obtain k where k: "client_inv k s" using client_reach_inv [OF assms(2) NewClient_inv [OF assms(1)]] by blast
  then have p: "w = k" "q = [Suc k..<cl_next s]" using pending_cases [OF k] assms(3) by auto
  have "on_err s = s\<lparr>cl_pendingQ := [Suc k..<cl_next s]\<rparr>" using assms(3) p by (simp add: on_err_def)
  then have "orphan (Suc k) (on_err s)"
    using k p pending_cases [OF k] assms(3) unfolding orphan_def client_inv_def by (auto simp: less_Suc_eq)
  then have start: "\<exists>k. orphan k (on_err s)" by blast
  have keep: "\<exists>k'. orphan k' t'" if st: "client_step t t'" and o: "orphan k t" for k t t'
  proof -
    obtain k' where k': "k \<le> k'" "client_inv k' t'" using client_step_inv [OF st] o unfolding orphan_def by blast
    have inv: "client_inv k t" and w: "w < k" "w \<notin> fst ` set (cl_sent t)" "\<And>i. cl_waiters t i \<noteq> Some w"
      using o unfolding orphan_def by blast+
    have "w \<notin> set (cl_pendingQ t)" using inv w(1) unfolding client_inv_def by auto
    note pend = this
    from st have "w \<notin> fst ` set (cl_sent t') \<and> (\<forall>i. cl_waiters t' i \<noteq> Some w)"
    proof (cases rule: client_step.cases)
      case (read inp rest)
      from this(1) show ?thesis
        by (cases rule: read_step_cases)
          (use w(2,3) pend in
            \<open>auto simp: on_err_def on_ok_def on_data_def Let_def split: list.splits option.splits if_splits\<close>)
    qed (use w in \<open>auto simp: scamper_Send_def split: if_splits\<close>)
    then show ?thesis using k' w(1) unfolding orphan_def by (intro exI [of _ k']) auto
  qed
  from assms(4) have "\<exists>k. orphan k s'"
    by (induction rule: rtranclp_induct) (use start keep in blast)+
  then show ?thesis unfolding orphan_def by blast
qed

end
