(* ===== verification/Trace_Messages.thy ===== *)
theory Trace_Messages
  imports Common_Messages
begin

text \<open>
  What a trace report carries (\<^verbatim>\<open>libs/common/types.go\<close>): the wrapper an agent writes around scamper's
  answer, and scamper's own traceroute record, which is only read. The text of a document and the base64
  form of bytes are given by \<open>text_lib\<close>.
\<close>

record text_lib =
  tl_parse :: "string \<Rightarrow> json option"
  tl_b64 :: "string \<Rightarrow> string"
  tl_unb64 :: "string \<Rightarrow> string option"

record TraceData =
  td_Type :: string
  td_Method :: string
  td_Format :: string
  td_Data :: "string option"

definition TraceProbeTypeTrace :: string where "TraceProbeTypeTrace = ''trace''"
definition TraceProbeTypeTraceLb :: string where "TraceProbeTypeTraceLb = ''tracelb''"

text \<open>A byte slice is written in base64, a nil one as \<open>null\<close>.\<close>

definition TraceData_enc :: "text_lib \<Rightarrow> TraceData \<Rightarrow> json option" where
  "TraceData_enc L d = j_object
     [(''type'', Some (JStr (td_Type d))), (''method'', Some (JStr (td_Method d))),
      (''format'', Some (JStr (td_Format d))),
      (''data'', Some (case td_Data d of None \<Rightarrow> JNull | Some b \<Rightarrow> JStr (tl_b64 L b)))]"

fun d_bytes :: "text_lib \<Rightarrow> json \<Rightarrow> string option option" where
  "d_bytes L (JStr s) = map_option Some (tl_unb64 L s)"
| "d_bytes L _ = None"

definition TraceData_dec :: "text_lib \<Rightarrow> json \<Rightarrow> TraceData option" where
  "TraceData_dec L = d_struct (\<lambda>ob. do {
     ty \<leftarrow> d_str ''type'' ob;
     meth \<leftarrow> d_str ''method'' ob;
     fmt \<leftarrow> d_str ''format'' ob;
     data \<leftarrow> d_field (d_bytes L) None ''data'' ob;
     Some \<lparr>td_Type = ty, td_Method = meth, td_Format = fmt, td_Data = data\<rparr> })"

section \<open>The traceroute record\<close>

record TraceHopData =
  th_Addr :: string
  th_ProbeTTL :: int
  th_ProbeID :: int
  th_ProbeSize :: int
  th_Tx :: sec_usec
  th_Rtt :: float64
  th_ReplyTTL :: int
  th_ReplyTos :: int
  th_Flags :: "string list"
  th_ReplyIpid :: int
  th_ReplySize :: int
  th_IcmpType :: int
  th_IcmpCode :: int
  th_IcmpQTTL :: int
  th_IcmpQIpl :: int
  th_IcmpQTos :: int

record TraceNoHopData =
  tn_ProbeTTL :: int
  tn_ProbeID :: int
  tn_ProbeSize :: int
  tn_Tx :: sec_usec

record TraceStart =
  ts_Sec :: int
  ts_Usec :: int
  ts_Ftime :: string

record TraceDataTracePayload =
  tt_Type :: string
  tt_Version :: string
  tt_Userid :: int
  tt_Method :: string
  tt_Src :: string
  tt_Dst :: string
  tt_IcmpSum :: int
  tt_StopReason :: string
  tt_StopData :: int
  tt_Start :: TraceStart
  tt_HopCount :: int
  tt_Attempts :: int
  tt_Hoplimit :: int
  tt_Firsthop :: int
  tt_Wait :: int
  tt_WaitProbe :: int
  tt_Tos :: int
  tt_ProbeSize :: int
  tt_ProbeCount :: int
  tt_Flags :: "string list"
  tt_Hops :: "TraceHopData list"
  tt_NoHops :: "TraceNoHopData list"

definition trace_hop_zero :: TraceHopData where
  "trace_hop_zero = \<lparr>th_Addr = [], th_ProbeTTL = 0, th_ProbeID = 0, th_ProbeSize = 0,
     th_Tx = \<lparr>su_Sec = 0, su_Usec = 0\<rparr>, th_Rtt = Fin 0, th_ReplyTTL = 0, th_ReplyTos = 0, th_Flags = [],
     th_ReplyIpid = 0, th_ReplySize = 0, th_IcmpType = 0, th_IcmpCode = 0, th_IcmpQTTL = 0, th_IcmpQIpl = 0,
     th_IcmpQTos = 0\<rparr>"

definition trace_nohop_zero :: TraceNoHopData where
  "trace_nohop_zero = \<lparr>tn_ProbeTTL = 0, tn_ProbeID = 0, tn_ProbeSize = 0, tn_Tx = \<lparr>su_Sec = 0, su_Usec = 0\<rparr>\<rparr>"

definition TraceHopData_dec :: "json \<Rightarrow> TraceHopData option" where
  "TraceHopData_dec = d_struct (\<lambda>ob. do {
     addr \<leftarrow> d_str ''addr'' ob;
     ttl \<leftarrow> d_num ''probe_ttl'' ob;
     pid \<leftarrow> d_num ''probe_id'' ob;
     psize \<leftarrow> d_num ''probe_size'' ob;
     tx \<leftarrow> d_nested sec_usec_fields ''tx'' ob;
     rtt \<leftarrow> d_real ''rtt'' ob;
     rttl \<leftarrow> d_num ''reply_ttl'' ob;
     rtos \<leftarrow> d_num ''reply_tos'' ob;
     flags \<leftarrow> d_slice d_string [] ''flags'' ob;
     rip \<leftarrow> d_num ''reply_ipid'' ob;
     rsize \<leftarrow> d_num ''reply_size'' ob;
     ity \<leftarrow> d_num ''icmp_type'' ob;
     icd \<leftarrow> d_num ''icmp_code'' ob;
     qttl \<leftarrow> d_num ''icmp_q_ttl'' ob;
     qipl \<leftarrow> d_num ''icmp_q_ipl'' ob;
     qtos \<leftarrow> d_num ''icmp_q_tos'' ob;
     Some \<lparr>th_Addr = addr, th_ProbeTTL = ttl, th_ProbeID = pid, th_ProbeSize = psize, th_Tx = tx, th_Rtt = rtt,
       th_ReplyTTL = rttl, th_ReplyTos = rtos, th_Flags = flags, th_ReplyIpid = rip, th_ReplySize = rsize,
       th_IcmpType = ity, th_IcmpCode = icd, th_IcmpQTTL = qttl, th_IcmpQIpl = qipl, th_IcmpQTos = qtos\<rparr> })"

definition TraceNoHopData_dec :: "json \<Rightarrow> TraceNoHopData option" where
  "TraceNoHopData_dec = d_struct (\<lambda>ob. do {
     ttl \<leftarrow> d_num ''probe_ttl'' ob;
     pid \<leftarrow> d_num ''probe_id'' ob;
     psize \<leftarrow> d_num ''probe_size'' ob;
     tx \<leftarrow> d_nested sec_usec_fields ''tx'' ob;
     Some \<lparr>tn_ProbeTTL = ttl, tn_ProbeID = pid, tn_ProbeSize = psize, tn_Tx = tx\<rparr> })"

definition TraceStart_fields :: "(string \<times> json) list \<Rightarrow> TraceStart option" where
  "TraceStart_fields ob = do {
     s \<leftarrow> d_num ''sec'' ob;
     u \<leftarrow> d_num ''usec'' ob;
     f \<leftarrow> d_str ''ftime'' ob;
     Some \<lparr>ts_Sec = s, ts_Usec = u, ts_Ftime = f\<rparr> }"

definition TraceDataTracePayload_dec :: "json \<Rightarrow> TraceDataTracePayload option" where
  "TraceDataTracePayload_dec = d_struct (\<lambda>ob. do {
     ty \<leftarrow> d_str ''type'' ob;
     ver \<leftarrow> d_str ''version'' ob;
     uid \<leftarrow> d_num ''userid'' ob;
     meth \<leftarrow> d_str ''method'' ob;
     src \<leftarrow> d_str ''src'' ob;
     dst \<leftarrow> d_str ''dst'' ob;
     isum \<leftarrow> d_num ''icmp_sum'' ob;
     sr \<leftarrow> d_str ''stop_reason'' ob;
     sdata \<leftarrow> d_num ''stop_data'' ob;
     start \<leftarrow> d_nested TraceStart_fields ''start'' ob;
     hc \<leftarrow> d_num ''hop_count'' ob;
     att \<leftarrow> d_num ''attempts'' ob;
     hl \<leftarrow> d_num ''hoplimit'' ob;
     fh \<leftarrow> d_num ''firsthop'' ob;
     wait \<leftarrow> d_num ''wait'' ob;
     wp \<leftarrow> d_num ''wait_probe'' ob;
     tos \<leftarrow> d_num ''tos'' ob;
     psize \<leftarrow> d_num ''probe_size'' ob;
     pcount \<leftarrow> d_num ''probe_count'' ob;
     flags \<leftarrow> d_slice d_string [] ''flags'' ob;
     hops \<leftarrow> d_slice TraceHopData_dec trace_hop_zero ''hops'' ob;
     nohops \<leftarrow> d_slice TraceNoHopData_dec trace_nohop_zero ''no_hops'' ob;
     Some \<lparr>tt_Type = ty, tt_Version = ver, tt_Userid = uid, tt_Method = meth, tt_Src = src, tt_Dst = dst,
       tt_IcmpSum = isum, tt_StopReason = sr, tt_StopData = sdata, tt_Start = start, tt_HopCount = hc,
       tt_Attempts = att, tt_Hoplimit = hl, tt_Firsthop = fh, tt_Wait = wait, tt_WaitProbe = wp, tt_Tos = tos,
       tt_ProbeSize = psize, tt_ProbeCount = pcount, tt_Flags = flags, tt_Hops = hops, tt_NoHops = nohops\<rparr> })"

definition text_law :: "text_lib \<Rightarrow> bool" where
  "text_law L \<longleftrightarrow> (\<forall>b. tl_unb64 L (tl_b64 L b) = Some b)"

lemma TraceData_total: "\<exists>j. TraceData_enc L d = Some j"
  by (simp add: TraceData_enc_def j_object_def)

lemma TraceData_round_trip: "text_law L \<Longrightarrow> TraceData_enc L d = Some j \<Longrightarrow> TraceData_dec L j = Some d"
  by (cases "td_Data d") (auto simp: TraceData_enc_def TraceData_dec_def text_law_def decode_defs codec_eval)

end
