(* ===== verification/Agent_Probes.thy ===== *)
theory Agent_Probes
  imports Agent_Config Stamp_Session Scamper_Client Nats_Base Trace_Messages
begin

text \<open>
  The executors of an agent and the dispatcher that publishes their results
  (\<^verbatim>\<open>services/agent/executor_stamp_sender.go\<close>, \<^verbatim>\<open>executor_stamp_reflector.go\<close>,
  \<^verbatim>\<open>executor_ping.go\<close>, \<^verbatim>\<open>executor_trace.go\<close>, \<^verbatim>\<open>dispatcher.go\<close>), and the pull of
  the configuration (\<^verbatim>\<open>agent.go\<close>). Clock readings, cancellations, the network and scamper's answers are
  inputs. Documents are parsed JSON; the text of a document and its base64 form are given by \<open>text_lib\<close>.
\<close>

section \<open>Addresses\<close>

definition JoinHostPort :: "string \<Rightarrow> string \<Rightarrow> string" where
  "JoinHostPort host port =
     (if CHR '':'' \<in> set host then ''['' @ host @ '']:'' @ port else host @ '':'' @ port)"

section \<open>The STAMP sender executor\<close>

text \<open>What one packet meets: the context before it, the clock around the send, the send itself, and the context
  in the pause after it.\<close>

record packet_env =
  pk_done :: bool
  pk_start :: time
  pk_send :: send_env
  pk_t4 :: time
  pk_done_wait :: bool

definition lost_probe :: "time \<Rightarrow> StampProbeData" where
  "lost_probe start = \<lparr>spd_Tx = start, spd_IsLost = True, spd_Rx = time_zero, spd_Rtt = 0, spd_ForwardDelay = 0,
     spd_BackwardDelay = 0\<rparr>"

definition measured_probe :: "string \<Rightarrow> ReflectorPacket \<Rightarrow> time \<Rightarrow> (stamp_error, StampProbeData) outcome" where
  "measured_probe clock pkt t4 =
     obind (ToTime (rp_SenderTimestamp pkt) clock) (\<lambda>t1.
     obind (ToTime (rp_ReceiveTimestamp pkt) clock) (\<lambda>t2.
     obind (ToTime (rp_Timestamp pkt) clock) (\<lambda>t3.
       Ret \<lparr>spd_Tx = t1, spd_IsLost = False, spd_Rx = t4,
         spd_Rtt = int64 (time_sub t4 t1 - time_sub t3 t2), spd_ForwardDelay = time_sub t2 t1,
         spd_BackwardDelay = time_sub t4 t3\<rparr>)))"

text \<open>The loop over the packets; the last one is not followed by a pause.\<close>

fun send_loop :: "string \<Rightarrow> packet_env list \<Rightarrow> Sender \<Rightarrow> StampProbeData list \<Rightarrow> nat \<Rightarrow>
    (stamp_error, StampProbeData list \<times> nat) outcome" where
  "send_loop clock [] s probes recvd = Ret (probes, recvd)"
| "send_loop clock (e # es) s probes recvd =
     (if pk_done e then Err Canceled
      else case Send (pk_send e) s of (s', ops, res) \<Rightarrow>
        (case (case res of
                 Ret pkt \<Rightarrow> obind (measured_probe clock pkt (pk_t4 e)) (\<lambda>p. Ret (probes @ [p], Suc recvd))
               | Err _ \<Rightarrow> Ret (probes @ [lost_probe (pk_start e)], recvd)
               | Panic \<Rightarrow> Panic) of
           Ret (probes', recvd') \<Rightarrow>
             if es \<noteq> [] \<and> pk_done_wait e then Err Canceled
             else send_loop clock es s' probes' recvd'
         | Err er \<Rightarrow> Err er
         | Panic \<Rightarrow> Panic))"

definition packet_count :: "StampSenderParams \<Rightarrow> nat" where
  "packet_count p = (if ssp_PacketCount p \<le> 0 then 10 else nat (ssp_PacketCount p))"

definition sender_config :: "Config \<Rightarrow> StampSenderParams \<Rightarrow> SenderConfig" where
  "sender_config cfg p = \<lparr>sc_LocalAddr = ssp_SourceIP p,
     sc_RemoteAddr = JoinHostPort (ssp_Target p) (itoa (ssp_TargetPort p)), sc_HMACKey = None, sc_OnError = True,
     sc_Timeout = second, sc_Config = cfg\<rparr>"

definition stamp_data :: "StampSenderParams \<Rightarrow> StampProbeData list \<Rightarrow> nat \<Rightarrow> time \<Rightarrow> StampData" where
  "stamp_data p probes recvd start = \<lparr>sd_Target = ssp_Target p, sd_Port = ssp_TargetPort p,
     sd_Sent = int (length probes), sd_Received = int recvd,
     sd_Loss = f_div (f_of_int (int (length probes) - int recvd)) (f_of_int (int (length probes))),
     sd_Probes = probes, sd_Timestamp = start\<rparr>"

text \<open>\<open>envs\<close> gives what every packet meets; \<open>start\<close> and \<open>now\<close> are the clock before the first packet and at the
  end.\<close>

definition StampSender_Execute ::
  "Config \<Rightarrow> (addr \<Rightarrow> addr option) \<Rightarrow> (addr \<Rightarrow> addr \<Rightarrow> bool) \<Rightarrow> (nat \<Rightarrow> packet_env) \<Rightarrow> time \<Rightarrow> time \<Rightarrow>
   TaskParams option \<Rightarrow> Task \<Rightarrow> (stamp_error, ProbeResult) outcome" where
  "StampSender_Execute cfg resolve dial envs start now params spec = (case params of
       Some (P_StampSender p) \<Rightarrow>
         obind (NewSender resolve dial (sender_config cfg p)) (\<lambda>sender.
         obind (send_loop (ec_ClockFormat (cf_ErrorEstimate cfg)) (map envs [0..<packet_count p]) sender [] 0)
           (\<lambda>(probes, recvd).
            (case StampData_enc (stamp_data p probes recvd start) of
               None \<Rightarrow> Err NetError
             | Some data \<Rightarrow> Ret \<lparr>pr_TaskID = tk_TaskID spec, pr_ProbeType = ProbeTypeStamp, pr_Kind = tk_Type spec,
                 pr_Timestamp = now, pr_Data = Some data\<rparr>)))
     | _ \<Rightarrow> Err NetError)"

section \<open>The other executors\<close>

text \<open>The configuration of the reflector that the task runs until its context ends.\<close>

definition reflector_config :: "Config \<Rightarrow> StampReflectorParams \<Rightarrow> ReflectorConfig" where
  "reflector_config cfg p = \<lparr>rc_LocalAddr = JoinHostPort (srp_SourceIP p) (itoa (srp_ListenPort p)),
     rc_HMACKey = None, rc_OnError = True, rc_Config = cfg\<rparr>"

definition StampReflector_Execute ::
  "Config \<Rightarrow> bool \<Rightarrow> serve_env list \<Rightarrow> TaskParams option \<Rightarrow> (addr \<times> buffer) list \<times> serve_exit" where
  "StampReflector_Execute cfg listen_ok es params = (case params of
       Some (P_StampReflector p) \<Rightarrow>
         (case NewReflector (reflector_config cfg p) of
            Ret r \<Rightarrow> (case Serve listen_ok r es of (_, out, x) \<Rightarrow> (out, x))
          | _ \<Rightarrow> ([], Returned (Some NetError)))
     | _ \<Rightarrow> ([], Returned (Some NetError)))"

text \<open>A ping: the command sent, then the answer on its channel, or \<open>None\<close> when the context ends first.
  The answer is the document scamper wrote.\<close>

definition ping_command :: "PingParams \<Rightarrow> string" where
  "ping_command p = ''ping '' @ pp_Target p"

definition Ping_Execute :: "bool \<Rightarrow> json option option \<Rightarrow> time \<Rightarrow> TaskParams option \<Rightarrow> Task \<Rightarrow> ScamperClient \<Rightarrow>
    (string, ProbeResult) outcome \<times> ScamperClient" where
  "Ping_Execute write_ok answer now params spec c = (case params of
       Some (P_Ping p) \<Rightarrow>
         (case scamper_Send write_ok (ping_command p) c of
            (Ret _, c') \<Rightarrow> (case answer of
                None \<Rightarrow> (Err ''context canceled'', c')
              | Some data \<Rightarrow> (Ret \<lparr>pr_TaskID = tk_TaskID spec, pr_ProbeType = ProbeTypePing, pr_Kind = tk_Type spec,
                  pr_Timestamp = now, pr_Data = data\<rparr>, c'))
          | (_, c') \<Rightarrow> (Err ''failed to send ping probe'', c'))
     | _ \<Rightarrow> (Err ''params parsing error'', c))"

definition trace_command :: "TraceParams \<Rightarrow> string" where
  "trace_command p = ''trace -P '' @ tp_Method p @ '' '' @ tp_Target p"

definition Trace_Execute :: "text_lib \<Rightarrow> bool \<Rightarrow> string option option \<Rightarrow> time \<Rightarrow> TaskParams option \<Rightarrow> Task \<Rightarrow>
    ScamperClient \<Rightarrow> (string, ProbeResult) outcome \<times> ScamperClient" where
  "Trace_Execute L write_ok answer now params spec c = (case params of
       Some (P_Trace p) \<Rightarrow>
         (case scamper_Send write_ok (trace_command p) c of
            (Ret _, c') \<Rightarrow> (case answer of
                None \<Rightarrow> (Err ''context canceled'', c')
              | Some data \<Rightarrow>
                  (case TraceData_enc L \<lparr>td_Type = TraceProbeTypeTrace, td_Method = tp_Method p,
                      td_Format = sk_Format (cl_cfg c'), td_Data = data\<rparr> of
                     None \<Rightarrow> (Err ''failed to marshal'', c')
                   | Some traceData \<Rightarrow> (Ret \<lparr>pr_TaskID = tk_TaskID spec, pr_ProbeType = ProbeTypeTrace,
                       pr_Kind = tk_Type spec, pr_Timestamp = now, pr_Data = Some traceData\<rparr>, c')))
          | (_, c') \<Rightarrow> (Err ''failed to send trace command'', c'))
     | _ \<Rightarrow> (Err ''expected TraceParams'', c))"

section \<open>The dispatcher\<close>

definition probe_subject :: "string \<Rightarrow> string \<Rightarrow> string" where
  "probe_subject ty serial =
     (if ty = ProbeTypeStamp then ''cepheus.probe.stamp.'' @ serial
      else if ty = ProbeTypeTrace then ''cepheus.probe.trace.'' @ serial
      else if ty = ProbeTypePing then ''cepheus.probe.ping.'' @ serial
      else [])"

text \<open>What the dispatcher publishes for one result.\<close>

definition dispatch_probe :: "pub_result \<Rightarrow> string \<Rightarrow> string \<Rightarrow> time \<Rightarrow> ProbeResult \<Rightarrow> published" where
  "dispatch_probe pr serial cfgId now data =
     (if pr_ProbeType data = [] then []
      else case ReportPayload_enc \<lparr>re_Payload = data, re_SerialID = serial, re_SentTimestamp = now,
          re_AgentConfigId = cfgId\<rparr> of
        None \<Rightarrow> []
      | Some payloadData \<Rightarrow> snd (publish pr (probe_subject (pr_ProbeType data) serial) payloadData))"

section \<open>Pulling the configuration\<close>

record Agent =
  ag_SerialId :: string
  ag_generation :: int
  ag_agentConfig :: "AgentConfig option"

text \<open>\<open>rpc\<close> is the answer of the control plane to the last attempt.\<close>

definition pullConfiguration :: "proto_lib \<Rightarrow> (server_error, pb_AgentConfig) outcome \<Rightarrow> (string, AgentConfig) outcome" where
  "pullConfiguration L rpc = (case rpc of
       Ret pb \<Rightarrow> agentConfigFromProto L (Some pb)
     | _ \<Rightarrow> Err ''failed to fetch configuration'')"

definition pullAgentConfiguration ::
  "proto_lib \<Rightarrow> (server_error, pb_AgentConfig) outcome \<Rightarrow> Agent \<Rightarrow> (string, unit) outcome \<times> Agent" where
  "pullAgentConfiguration L rpc a = (case pullConfiguration L rpc of
       Ret cfg \<Rightarrow> (Ret (), if ag_generation a = 0 then a\<lparr>ag_agentConfig := Some cfg\<rparr> else a)
     | Err e \<Rightarrow> (Err e, a)
     | Panic \<Rightarrow> (Panic, a))"

text \<open>The estimate every agent uses for its STAMP sessions.\<close>

definition agent_stamp_config :: Config where
  "agent_stamp_config = \<lparr>cf_ErrorEstimate = \<lparr>ec_Scale = 22, ec_Multiplier = 1, ec_ClockFormat = ClockFormatNTP,
     ec_Synchronized = True\<rparr>\<rparr>"

section \<open>What a measured probe says about the network\<close>

text \<open>The era of NTP that runs until 2036.\<close>

definition era_0 :: "time \<Rightarrow> bool" where
  "era_0 t \<longleftrightarrow> - NtpUnixOffset * second \<le> t \<and> t < (2 ^ 32 - NtpUnixOffset) * second"

definition wire_time :: "time \<Rightarrow> time" where
  "wire_time t = wireNTPTimestampToTime (ts_Seconds (generateNtpTimestamp t)) (ts_Fraction (generateNtpTimestamp t))"

lemma wire_time_era_0: "era_0 t \<Longrightarrow> t - 1 \<le> wire_time t \<and> wire_time t \<le> t"
proof -
  assume "era_0 t"
  then have "- NtpUnixOffset \<le> unix_sec t" "unix_sec t < 2 ^ 32 - NtpUnixOffset"
    by (auto simp: era_0_def unix_sec_def second_def zdiv_mono1 NtpUnixOffset_def)
  then have "(unix_sec t + NtpUnixOffset) div 2 ^ 32 = 0" by (intro div_pos_pos_trivial) auto
  then show ?thesis using ntp_loss [of t] by (simp add: Let_def wire_time_def)
qed

text \<open>
  Property C40. The delays an agent reports are the delays of the packet. When a reply echoes the packet of the
  session, clocks being in the NTP era that ends in 2036, the forward delay is within one nanosecond of the time from sending to
  reception, the backward delay within one of the time from reflection to return, and the round-trip time is exactly
  their sum: the time spent in the reflector is taken out.
\<close>

theorem stamp_delays_accurate:
  assumes "era_0 (se_now w)" "era_0 (rd_rx e)" "era_0 (rd_tx e)" "era_0 t4"
  shows "\<exists>p. measured_probe ClockFormatNTP (reply_packet c n e (sender_packet (se_now w) s)) t4 = Ret p
    \<and> \<not> spd_IsLost p
    \<and> \<bar>spd_ForwardDelay p - (rd_rx e - se_now w)\<bar> \<le> 1
    \<and> \<bar>spd_BackwardDelay p - (t4 - rd_tx e)\<bar> \<le> 1
    \<and> spd_Rtt p = spd_ForwardDelay p + spd_BackwardDelay p"
proof -
  let ?t1 = "wire_time (se_now w)" and ?t2 = "wire_time (rd_rx e)" and ?t3 = "wire_time (rd_tx e)"
  note w = wire_time_era_0 [OF assms(1)] wire_time_era_0 [OF assms(2)] wire_time_era_0 [OF assms(3)]
  note era = assms [unfolded era_0_def NtpUnixOffset_def second_def]
  have sub: "time_sub a b = a - b" if "- 3 * 10 ^ 18 \<le> a" "a < 3 * 10 ^ 18" "- 3 * 10 ^ 18 \<le> b" "b < 3 * 10 ^ 18" for a b
    using that by (intro time_sub_exact) (auto simp: in_s_def)
  have r: "- 3 * 10 ^ 18 \<le> ?t1" "?t1 < 3 * 10 ^ 18" "- 3 * 10 ^ 18 \<le> ?t2" "?t2 < 3 * 10 ^ 18"
    "- 3 * 10 ^ 18 \<le> ?t3" "?t3 < 3 * 10 ^ 18" "- 3 * 10 ^ 18 \<le> t4" "t4 < 3 * 10 ^ 18"
    using w era by auto
  have "int64 (time_sub t4 ?t1 - time_sub ?t3 ?t2) = (?t2 - ?t1) + (t4 - ?t3)"
    unfolding sub [OF r(7,8,1,2)] sub [OF r(5,6,3,4)]
    using w era by (subst wrap_s_id) (auto simp: in_s_def)
  moreover have "\<bar>?t2 - ?t1 - (rd_rx e - se_now w)\<bar> \<le> 1" "\<bar>t4 - ?t3 - (t4 - rd_tx e)\<bar> \<le> 1"
    using w by linarith+
  ultimately show ?thesis
    by (simp add: measured_probe_def ToTime_def reply_packet_def sender_packet_def flip: wire_time_def)
      (simp add: sub [OF r(3,4,1,2)] sub [OF r(7,8,5,6)])
qed

theorem stamp_delays_accurate_witness:
  "\<exists>p. measured_probe ClockFormatNTP (reply_packet demo_config 0 (demo_round (ReadFailed False))
       (sender_packet (se_now demo_send) demo_sender)) 9 = Ret p \<and> spd_Rtt p = spd_ForwardDelay p + spd_BackwardDelay p"
proof -
  let ?e = "demo_round (ReadFailed False)"
  have "era_0 (se_now demo_send)" "era_0 (rd_rx ?e)" "era_0 (rd_tx ?e)" "era_0 9"
    by (simp_all add: era_0_def demo_send_def demo_round_def NtpUnixOffset_def second_def)
  from stamp_delays_accurate [OF this, of demo_config 0 demo_sender] show ?thesis by blast
qed

section \<open>What an execution reports\<close>

definition delays_fit :: "StampProbeData \<Rightarrow> bool" where
  "delays_fit p \<longleftrightarrow> in_s 64 (spd_Rtt p) \<and> in_s 64 (spd_ForwardDelay p) \<and> in_s 64 (spd_BackwardDelay p)"

lemma measured_probe_fits: "measured_probe clock pkt t4 = Ret p \<Longrightarrow> delays_fit p \<and> \<not> spd_IsLost p"
  by (auto simp: measured_probe_def delays_fit_def time_sub_range)

lemma lost_probe_fits: "delays_fit (lost_probe t)" "spd_IsLost (lost_probe t)"
  by (simp_all add: delays_fit_def lost_probe_def in_s_def)

text \<open>One probe per packet, of which exactly the answered ones count as received.\<close>

lemma send_loop_probes:
  assumes "send_loop clock es s probes n = Ret (probes', n')"
    and "n = length (filter (\<lambda>p. \<not> spd_IsLost p) probes)" "list_all delays_fit probes"
  shows "length probes' = length probes + length es \<and> n' = length (filter (\<lambda>p. \<not> spd_IsLost p) probes')
    \<and> list_all delays_fit probes'"
  using assms
proof (induction es arbitrary: s probes n)
  case (Cons e es)
  obtain s1 ops res where send: "Send (pk_send e) s = (s1, ops, res)" by (cases "Send (pk_send e) s")
  note loop = Cons.prems(1) [simplified, simplified send prod.case, simplified]
  show ?case
  proof (cases res)
    case (Ret pkt)
    then obtain p where p: "measured_probe clock pkt (pk_t4 e) = Ret p"
      using loop by (cases "measured_probe clock pkt (pk_t4 e)") (auto split: if_splits)
    then have "send_loop clock es s1 (probes @ [p]) (Suc n) = Ret (probes', n')"
      using loop Ret by (auto split: if_splits)
    from Cons.IH [OF this] show ?thesis using Cons.prems(2,3) measured_probe_fits [OF p] by simp
  next
    case (Err er)
    then have "send_loop clock es s1 (probes @ [lost_probe (pk_start e)]) n = Ret (probes', n')"
      using loop by (auto split: if_splits)
    from Cons.IH [OF this] show ?thesis using Cons.prems(2,3) lost_probe_fits by simp
  next
    case Panic
    then show ?thesis using loop by (auto split: if_splits)
  qed
qed simp

lemma probe_enc_times: "StampProbeData_enc p = Some j \<Longrightarrow> json_time_ok (spd_Tx p) \<and> json_time_ok (spd_Rx p)"
  by (auto simp: StampProbeData_enc_def j_object_def j_time_def split: option.splits if_splits)

lemma probes_enc_ok: "those (map StampProbeData_enc ps) = Some js \<Longrightarrow> list_all delays_fit ps \<Longrightarrow> list_all StampProbeData_ok ps"
proof (induction ps arbitrary: js)
  case (Cons p ps)
  then show ?case
    using probe_enc_times [of p] by (auto simp: StampProbeData_ok_def delays_fit_def split: option.splits)
qed simp

text \<open>What an executor could encode decodes again.\<close>

lemma stamp_data_ok:
  assumes "StampData_enc (stamp_data p probes n start) = Some data" "list_all delays_fit probes"
    and "in_s 32 (ssp_TargetPort p)" "length probes \<le> 2 ^ 31" "n \<le> length probes"
  shows "StampData_ok (stamp_data p probes n start)"
proof -
  have enc: "those (map StampProbeData_enc probes) \<noteq> None" "j_float (sd_Loss (stamp_data p probes n start)) \<noteq> None"
    "j_time start \<noteq> None"
    using assms(1) by (auto simp: StampData_enc_def stamp_data_def j_object_def split: option.splits)
  then have "is_fin (sd_Loss (stamp_data p probes n start))" "json_time_ok start"
    by (cases "sd_Loss (stamp_data p probes n start)"; simp add: j_time_def split: if_splits)+
  moreover have "wf64 (sd_Loss (stamp_data p probes n start))" by (simp add: stamp_data_def)
  moreover have "list_all StampProbeData_ok probes" using enc(1) probes_enc_ok assms(2) by blast
  ultimately show ?thesis
    using assms(3-5) by (simp add: StampData_ok_def in_s_def stamp_data_def)
qed

lemma StampSender_Execute_data:
  assumes "StampSender_Execute cfg resolve dial envs start now (Some (P_StampSender p)) spec = Ret r"
    and "in_s 32 (ssp_TargetPort p)" "in_s 32 (ssp_PacketCount p)"
  obtains probes data where "pr_ProbeType r = ProbeTypeStamp" "pr_Timestamp r = now" "pr_Data r = Some data"
    "StampData_ok (stamp_data p probes (length (filter (\<lambda>p. \<not> spd_IsLost p) probes)) start)"
    "StampData_enc (stamp_data p probes (length (filter (\<lambda>p. \<not> spd_IsLost p) probes)) start) = Some data"
    "length probes = packet_count p"
proof -
  let ?clock = "ec_ClockFormat (cf_ErrorEstimate cfg)"
  obtain sender probes n data where run: "send_loop ?clock (map envs [0..<packet_count p]) sender [] 0 = Ret (probes, n)"
    and enc: "StampData_enc (stamp_data p probes n start) = Some data"
    and r: "r = \<lparr>pr_TaskID = tk_TaskID spec, pr_ProbeType = ProbeTypeStamp, pr_Kind = tk_Type spec,
      pr_Timestamp = now, pr_Data = Some data\<rparr>"
    using assms(1) by (auto simp: StampSender_Execute_def split: option.splits)
  have probes: "length probes = packet_count p" "n = length (filter (\<lambda>p. \<not> spd_IsLost p) probes)" "list_all delays_fit probes"
    using send_loop_probes [OF run] by simp_all
  have "packet_count p \<le> 2 ^ 31" using assms(3) by (auto simp: packet_count_def in_s_def)
  then have "StampData_ok (stamp_data p probes n start)"
    using stamp_data_ok [OF enc probes(3) assms(2)] probes(1,2) by (simp add: le_trans [OF length_filter_le])
  then show thesis using that [of data probes] r enc probes(1) unfolding probes(2) by simp
qed

end
