(* ===== verification/Scamper_Wire.thy ===== *)
theory Scamper_Wire
  imports Scamper_Client
begin

text \<open>
  Starting and stopping the scamper daemon (\<^verbatim>\<open>Start\<close> and \<^verbatim>\<open>Stop\<close> of \<^verbatim>\<open>libs/scamper-client/client.go\<close>), and the
  text protocol between client and daemon: \<open>render\<close> is what the daemon writes for a sequence of replies, and the reader of
  \<^verbatim>\<open>Scamper_Client\<close> gives it back.
\<close>

section \<open>Starting and stopping\<close>

definition scamper_args :: "ScamperClient \<Rightarrow> string list" where
  "scamper_args s = [''-U'', sk_SocketPath (cl_cfg s), ''-p'', itoa (sk_PPS (cl_cfg s)), ''-w'', itoa (sk_Window (cl_cfg s)),
     ''-O'', sk_Format (cl_cfg s)]"

text \<open>What the start meets: the process, the context and the socket in each of the rounds of waiting, the connection, the
  first write, and what the daemon has written by the time the start returns.\<close>

record start_env =
  se_exec :: bool
  se_done :: "nat \<Rightarrow> bool"
  se_stat :: "nat \<Rightarrow> bool"
  se_dial :: bool
  se_write :: bool
  se_input :: string

text \<open>Waiting for the socket, at most 20 rounds; \<open>False\<close> when the context ends. A socket that does not appear is left to the connection.\<close>

fun wait_socket :: "start_env \<Rightarrow> nat \<Rightarrow> bool" where
  "wait_socket e 0 = True"
| "wait_socket e (Suc n) = (let i = 19 - n in
     if se_done e i then False else if se_stat e i then True else wait_socket e n)"

definition scamper_Start :: "start_env \<Rightarrow> ScamperClient \<Rightarrow> (string, unit) outcome \<times> ScamperClient" where
  "scamper_Start e s =
     (if \<not> se_exec e then (Err ''failed to start scamper-client'', s)
      else if \<not> wait_socket e 20 then (Err ''context canceled'', s)
      else if \<not> se_dial e then (Err ''failed to connect to socket'', s)
      else case scamper_Send (se_write e) (''attach format '' @ sk_Format (cl_cfg s)) (s\<lparr>cl_conn := True\<rparr>) of
        (Ret (_, attachCh), s1) \<Rightarrow> (case read_loop s1 (se_input e) of
            ReadPanic s2 \<Rightarrow> (Panic, s2)
          | ReadStopped s2 \<Rightarrow> (if attachCh \<in> fst ` set (cl_sent s2) then Ret () else Err ''context canceled'', s2)
          | Continue s2 _ \<Rightarrow> (Err ''context canceled'', s2))
      | (Err er, s1) \<Rightarrow> (Err er, s1)
      | (Panic, s1) \<Rightarrow> (Panic, s1))"

text \<open>Closing a closed channel or a missing connection panics.\<close>

definition scamper_Stop :: "ScamperClient \<Rightarrow> (string, unit) outcome \<times> ScamperClient" where
  "scamper_Stop s = (if cl_done s then (Panic, s)
     else if \<not> cl_conn s then (Panic, s\<lparr>cl_done := True\<rparr>) else (Ret (), s\<lparr>cl_done := True\<rparr>))"

section \<open>Replies on the wire\<close>

datatype reply =
    ReplyErr string
  | ReplyMore
  | ReplyOk
  | ReplyOkId string
  | ReplyData string string

definition line :: "string \<Rightarrow> string" where
  "line s = s @ [CHR 0x0A]"

fun render1 :: "reply \<Rightarrow> string" where
  "render1 (ReplyErr t) = line (''ERR'' @ t)"
| "render1 ReplyMore = line ''MORE''"
| "render1 ReplyOk = line ''OK''"
| "render1 (ReplyOkId i) = line (''OK '' @ i)"
| "render1 (ReplyData i buf) = line (''DATA '' @ itoa (int (length buf)) @ '' '' @ i) @ buf"

definition render :: "reply list \<Rightarrow> string" where
  "render rs = concat (map render1 rs)"

text \<open>An identifier is a word.\<close>

definition wire_id :: "string \<Rightarrow> bool" where
  "wire_id i \<longleftrightarrow> i \<noteq> [] \<and> (\<forall>c \<in> set i. \<not> is_space c \<and> c \<noteq> CHR 0x0A)"

fun wire_ok :: "reply \<Rightarrow> bool" where
  "wire_ok (ReplyErr t) \<longleftrightarrow> CHR 0x0A \<notin> set t"
| "wire_ok (ReplyOkId i) \<longleftrightarrow> wire_id i"
| "wire_ok (ReplyData i buf) \<longleftrightarrow> wire_id i \<and> int (length buf) < 2 ^ 63"
| "wire_ok _ \<longleftrightarrow> True"

text \<open>What a reply does to the client.\<close>

fun apply_reply :: "reply \<Rightarrow> ScamperClient \<Rightarrow> ScamperClient" where
  "apply_reply (ReplyErr t) s = on_err s"
| "apply_reply ReplyMore s = s"
| "apply_reply ReplyOk s = on_ok [] s"
| "apply_reply (ReplyOkId i) s = on_ok i s"
| "apply_reply (ReplyData i buf) s = on_data i buf s"

lemma read_line_line: "CHR 0x0A \<notin> set t \<Longrightarrow> read_line (line t @ rest) = Some (t, rest)"
proof -
  assume t: "CHR 0x0A \<notin> set t"
  have "takeWhile (\<lambda>c. c \<noteq> CHR 0x0A) (t @ CHR 0x0A # rest) = t" "dropWhile (\<lambda>c. c \<noteq> CHR 0x0A) (t @ CHR 0x0A # rest) = CHR 0x0A # rest"
    using t by (induction t) auto
  then show ?thesis by (simp add: read_line_def line_def Let_def)
qed

lemma scan_word: "wire_id i \<Longrightarrow> scan_string (CHR '' '' # i) = (i, [])"
proof -
  assume i: "wire_id i"
  then obtain c cs where c: "i = c # cs" "\<not> is_space c" "\<forall>d \<in> set cs. \<not> is_space d" by (cases i) (auto simp: wire_id_def)
  then have "dropWhile is_space (CHR '' '' # i) = i" by (simp add: is_space_def)
  moreover have "takeWhile (\<lambda>c. \<not> is_space c) i = i" "dropWhile (\<lambda>c. \<not> is_space c) i = []" using c by auto
  ultimately show ?thesis by (simp add: scan_string_def Let_def)
qed

lemma digit_chars: "c \<in> set (digits n) \<Longrightarrow> is_digit c \<and> \<not> is_space c \<and> c \<noteq> CHR 0x0A \<and> c \<noteq> CHR ''-'' \<and> c \<noteq> CHR ''+''"
proof -
  assume "c \<in> set (digits n)"
  then have "48 \<le> (of_char c :: nat)" "(of_char c :: nat) \<le> 57" using digits_only [of c n] by linarith+
  then show ?thesis by (auto simp: is_digit_def is_space_def)
qed

lemma scan_length:
  assumes "rest = [] \<or> \<not> is_digit (hd rest)" "in_s 64 (int n)"
  shows "scan_int (CHR '' '' # digits n @ rest) = Some (int n, rest)"
proof -
  have ne: "digits n \<noteq> []" by (subst digits.simps) simp
  then obtain c cs where c: "digits n = c # cs" by (cases "digits n") auto
  have c': "is_digit c" "\<not> is_space c" "c \<noteq> CHR ''-''" "c \<noteq> CHR ''+''" using digit_chars [of c n] c by auto
  have tw: "takeWhile is_digit (digits n @ rest) = digits n" "dropWhile is_digit (digits n @ rest) = rest"
    using digit_chars [of _ n] assms(1) by (cases rest; simp add: takeWhile_append2 dropWhile_append2)+
  have "digits_value 0 (digits n) = int n" by (rule digits_value_digits)
  then show ?thesis using c' c tw ne assms(2) by (simp add: scan_int_def Let_def is_space_def)
qed

lemma data_header_line:
  assumes "wire_id i" "in_s 64 (int n)"
  shows "data_header (''DATA '' @ itoa (int n) @ '' '' @ i) = Some (int n, i)"
proof -
  have d: "itoa (int n) = digits n" by (simp add: itoa_def)
  have "scan_int (CHR '' '' # digits n @ CHR '' '' # i) = Some (int n, CHR '' '' # i)"
    by (rule scan_length) (use assms(2) in \<open>simp_all add: is_digit_def\<close>)
  then show ?thesis
    using scan_word [OF assms(1)] assms(1) by (simp add: data_header_def d Let_def format_space_def is_space_def wire_id_def)
qed

lemma itoa_line: "CHR 0x0A \<notin> set (itoa (int n))"
  using digit_chars [of "CHR 0x0A" n] by (auto simp: itoa_def)

text \<open>One reply is one round of the reader.\<close>

lemma read_render1:
  assumes "wire_ok r"
  shows "read_step s (render1 r @ rest) = Continue (apply_reply r s) rest"
proof (cases r)
  case (ReplyErr t)
  then have "read_line (line (''ERR'' @ t) @ rest) = Some (''ERR'' @ t, rest)" using assms by (intro read_line_line) simp
  then show ?thesis using ReplyErr by (simp add: read_step_def has_prefix_def)
next
  case ReplyMore
  have "read_line (line ''MORE'' @ rest) = Some (''MORE'', rest)" by (rule read_line_line) simp
  then show ?thesis using ReplyMore by (simp add: read_step_def has_prefix_def)
next
  case ReplyOk
  have "read_line (line ''OK'' @ rest) = Some (''OK'', rest)" by (rule read_line_line) simp
  then show ?thesis using ReplyOk by (simp add: read_step_def has_prefix_def ok_id_def format_space_def scan_string_def)
next
  case (ReplyOkId i)
  then have i: "wire_id i" using assms by simp
  have "read_line (line (''OK '' @ i) @ rest) = Some (''OK '' @ i, rest)" using i by (intro read_line_line) (auto simp: wire_id_def)
  moreover have "ok_id (''OK '' @ i) = i" using scan_word [OF i] by (simp add: ok_id_def format_space_def is_space_def)
  ultimately show ?thesis using ReplyOkId by (simp add: read_step_def has_prefix_def)
next
  case (ReplyData i buf)
  then have i: "wire_id i" "in_s 64 (int (length buf))" using assms by (simp_all add: in_s_def)
  let ?l = "''DATA '' @ itoa (int (length buf)) @ '' '' @ i"
  have "read_line (line ?l @ buf @ rest) = Some (?l, buf @ rest)"
    using i(1) itoa_line [of "length buf"] by (intro read_line_line) (auto simp: wire_id_def)
  then show ?thesis using ReplyData data_header_line [OF i] by (simp add: read_step_def has_prefix_def)
qed

lemma read_step_suffix: "read_step s inp = Continue s' rest \<Longrightarrow> \<exists>pre. inp = pre @ rest"
proof -
  have nl: "\<exists>pre. inp = pre @ r" if "read_line inp = Some (l, r)" for l r
  proof -
    let ?d = "dropWhile (\<lambda>c. c \<noteq> CHR 0x0A) inp"
    have "?d \<noteq> []" "r = tl ?d" using that by (auto simp: read_line_def Let_def split: if_splits)
    then have "inp = (takeWhile (\<lambda>c. c \<noteq> CHR 0x0A) inp @ [hd ?d]) @ r" by (simp add: takeWhile_dropWhile_id)
    then show ?thesis by blast
  qed
  assume st: "read_step s inp = Continue s' rest"
  then obtain l r where lr: "read_line inp = Some (l, r)" "\<exists>k. rest = drop k r"
    by (auto simp: read_step_def split: option.splits prod.splits if_splits intro: exI [of _ 0]) (metis drop0)+
  then obtain pre k where "inp = pre @ r" "rest = drop k r" using nl by blast
  then have "inp = (pre @ take k r) @ rest" by simp
  then show ?thesis by blast
qed

lemma read_step_panic: "read_step s inp = ReadPanic s' \<Longrightarrow> \<exists>l rest n i. inp = l @ rest \<and> data_header l = Some (n, i) \<and> n < 0"
proof -
  assume "read_step s inp = ReadPanic s'"
  then obtain l r n i where l: "read_line inp = Some (l, r)" "data_header l = Some (n, i)" "n < 0"
    by (auto simp: read_step_def split: option.splits prod.splits if_splits)
  then have "inp = l @ dropWhile (\<lambda>c. c \<noteq> CHR 0x0A) inp"
    by (auto simp: read_line_def Let_def takeWhile_dropWhile_id split: if_splits)
  then show ?thesis using l(2,3) by blast
qed

lemma reader_ends:
  "case read_loop s inp of ReadStopped _ \<Rightarrow> True | Continue _ _ \<Rightarrow> False
    | ReadPanic s1 \<Rightarrow> \<exists>pre l rest n i. inp = pre @ l @ rest \<and> data_header l = Some (n, i) \<and> n < 0"
proof (induction s inp rule: read_loop.induct)
  case (1 s inp)
  show ?case
  proof (cases "read_step s inp")
    case (Continue s' rest)
    obtain pre where pre: "inp = pre @ rest" using read_step_suffix [OF Continue] by blast
    have "\<exists>p l r n i. inp = p @ l @ r \<and> data_header l = Some (n, i) \<and> n < 0"
      if "\<exists>p l r n i. rest = p @ l @ r \<and> data_header l = Some (n, i) \<and> n < 0"
    proof -
      from that obtain p l r n i where "rest = p @ l @ r" "data_header l = Some (n, i)" "n < 0" by blast
      then have "inp = (pre @ p) @ l @ r" using pre by simp
      then show ?thesis using \<open>data_header l = Some (n, i)\<close> \<open>n < 0\<close> by blast
    qed
    then show ?thesis
      unfolding read_loop.simps [of s inp] Continue read_result.case
      using 1 [OF Continue] by (cases "read_loop s' rest") (simp_all only: read_result.case)
  next
    case (ReadPanic s')
    then obtain l r n i where "inp = l @ r" "data_header l = Some (n, i)" "n < 0" using read_step_panic by blast
    then have "inp = [] @ l @ r" "data_header l = Some (n, i)" "n < 0" by simp_all
    then show ?thesis unfolding read_loop.simps [of s inp] ReadPanic read_result.case by blast
  qed (simp add: read_loop.simps [of s inp])
qed

lemma reader_render: "list_all wire_ok rs \<Longrightarrow> read_loop s (render rs) = ReadStopped (fold apply_reply rs s)"
proof (induction rs arbitrary: s)
  case Nil
  show ?case by (simp add: render_def read_loop.simps [of s "[]"] read_step_def read_line_def)
next
  case (Cons r rs)
  have "read_loop s (render (r # rs)) = read_loop (apply_reply r s) (render rs)" if "wire_ok r"
    using read_render1 [OF that] by (simp add: render_def read_loop.simps [of s])
  then show ?case using Cons by simp
qed


definition demo_client :: ScamperClient where
  "demo_client = \<lparr>cl_cfg = demo_client_cfg, cl_pendingQ = [0, 1], cl_waiters = Map.empty, cl_next = 2, cl_sent = [], cl_conn = True, cl_done = False\<rparr>"


text \<open>A client starts once the daemon has acknowledged the format, and can be stopped once.\<close>

lemma started_client:
  assumes "NewClient cfg = Ret s" "se_exec e" "wait_socket e 20" "se_dial e" "se_write e" "se_input e = render [ReplyOk]"
  shows "\<exists>s'. scamper_Start e s = (Ret (), s') \<and> cl_pendingQ s' = [] \<and> cl_cfg s' = cl_cfg s \<and> fst (scamper_Stop s') = Ret ()
    \<and> fst (scamper_Stop (snd (scamper_Stop s'))) = Panic"
proof -
  have s: "cl_pendingQ s = []" "cl_next s = 0" "cl_sent s = []" "\<not> cl_done s"
    using assms(1) by (auto simp: NewClient_def Let_def split: if_splits)
  let ?s1 = "s\<lparr>cl_conn := True, cl_next := 1, cl_pendingQ := [0]\<rparr>"
  have "read_loop ?s1 (render [ReplyOk]) = ReadStopped (on_ok [] ?s1)"
    using reader_render [of "[ReplyOk]" ?s1] by simp
  then have "scamper_Start e s = (Ret (), on_ok [] ?s1)"
    using assms(2-6) s by (simp add: scamper_Start_def scamper_Send_def on_ok_def)
  then show ?thesis using s(4) by (simp add: on_ok_def scamper_Stop_def)
qed

end
