(* ===== verification/Agent_Run.thy ===== *)
theory Agent_Run
  imports Agent_Supervisor Agent_Probes Scamper_Wire
begin

text \<open>
  The life of an agent (\<^verbatim>\<open>services/agent/agent.go\<close>): it pulls its configuration, connects to the message broker, starts the dispatcher and
  scamper, and hands its tasks to the supervisor; then it pulls again on every tick until its context ends. The answers of the
  control plane, the broker and scamper are inputs, and so are the orders in which Go visits its maps.
\<close>

section \<open>The dispatcher loop\<close>

datatype dispatch_event =
    Result ProbeResult string time pub_result
  | DispatcherDone

text \<open>What the dispatcher publishes, and whether it has ended, for the events it waits for; the configuration identifier and the
  clock are read for every result.\<close>

fun dispatcher_loop :: "string \<Rightarrow> dispatch_event list \<Rightarrow> published \<times> bool" where
  "dispatcher_loop serial [] = ([], False)"
| "dispatcher_loop serial (DispatcherDone # es) = ([], True)"
| "dispatcher_loop serial (Result r cfgId now pr # es) =
     (case dispatcher_loop serial es of (out, ended) \<Rightarrow> (dispatch_probe pr serial cfgId now r @ out, ended))"

section \<open>Starting\<close>

definition NewAgent :: "string \<Rightarrow> Agent" where
  "NewAgent serial = \<lparr>ag_SerialId = serial, ag_generation = 0, ag_agentConfig = None\<rparr>"

definition agent_streams :: "StreamConfig list" where
  "agent_streams =
     [\<lparr>st_Name = ''PROBE_STAMP'', st_Description = ''Stream for STAMP probe data'', st_Subjects = [''cepheus.probe.stamp.>''], st_MaxAge = 0\<rparr>,
      \<lparr>st_Name = ''PROBE_TRACE'', st_Description = ''Stream for Trace probe data'', st_Subjects = [''cepheus.probe.trace.>''], st_MaxAge = 0\<rparr>]"

text \<open>The executors by task type; \<open>run\<close> is what the execution of a task of that type returns.\<close>

definition agent_executors :: "(string \<Rightarrow> (string, 'r) outcome) \<Rightarrow> string \<Rightarrow> (string, 'r) outcome option" where
  "agent_executors run ty =
     (if ty \<in> {TaskTypeStampSender, TaskTypeStampReflector, TaskTypeTrace, TaskTypePing} then Some (run ty) else None)"

definition agent_scamper_config :: "string \<Rightarrow> AgentConfig \<Rightarrow> ScamperClientConfig" where
  "agent_scamper_config bin cfg = \<lparr>sk_BinPath = bin, sk_SocketPath = ''/tmp/scamper.sock'', sk_PPS = ac_ScamperPPS cfg mod 2 ^ 32,
     sk_Window = 0, sk_Format = ScamperFormatJSON\<rparr>"

record agent_env =
  ae_rpc :: "(server_error, pb_AgentConfig) outcome"
  ae_nats :: "string \<Rightarrow> bool"
  ae_jetstream :: bool
  ae_stream :: "StreamConfig \<Rightarrow> bool"
  ae_bin :: string
  ae_scamper :: start_env

record agent_state =
  as_agent :: Agent
  as_scamper :: ScamperClient
  as_supervisor :: Supervisor
  as_streams :: "StreamConfig list"

text \<open>A stream that cannot be created is only logged. \<open>ds\<close> is the order in which the desired tasks are visited.\<close>

definition agent_start :: "proto_lib \<Rightarrow> agent_env \<Rightarrow> string list \<Rightarrow> Agent \<Rightarrow> (string, agent_state) outcome" where
  "agent_start L e ds a = (case pullAgentConfiguration L (ae_rpc e) a of
       (Err er, _) \<Rightarrow> Err er
     | (Panic, _) \<Rightarrow> Panic
     | (Ret _, a') \<Rightarrow> (case ag_agentConfig a' of
         None \<Rightarrow> Panic
       | Some cfg \<Rightarrow>
           if \<not> ae_nats e (ac_ReportEndpoint cfg) then Err ''failed to connect to NATS server''
           else if \<not> ae_jetstream e then Err ''failed to create a JetStream context''
           else obind (NewClient (agent_scamper_config (ae_bin e) cfg)) (\<lambda>scamper.
             case scamper_Start (ae_scamper e) scamper of
               (Ret _, scamper') \<Rightarrow> Ret \<lparr>as_agent = a', as_scamper = scamper',
                 as_supervisor = SetDesiredTasks [] ds (ac_Tasks cfg) NewSupervisor, as_streams = filter (ae_stream e) agent_streams\<rparr>
             | (Err er, _) \<Rightarrow> Err er
             | (Panic, _) \<Rightarrow> Panic)))"

section \<open>Following the configuration\<close>

definition agent_tick ::
  "proto_lib \<Rightarrow> (server_error, pb_AgentConfig) outcome \<Rightarrow> string list \<Rightarrow> string list \<Rightarrow> agent_state \<Rightarrow> agent_state" where
  "agent_tick L rpc rs ds s = (case pullAgentConfiguration L rpc (as_agent s) of
       (Ret _, a') \<Rightarrow> (case ag_agentConfig a' of
           Some cfg \<Rightarrow> s\<lparr>as_agent := a', as_supervisor := SetDesiredTasks rs ds (ac_Tasks cfg) (as_supervisor s)\<rparr>
         | None \<Rightarrow> s)
     | _ \<Rightarrow> s)"

datatype agent_event =
    ConfigTick "(server_error, pb_AgentConfig) outcome" "string list" "string list"
  | AgentDone

text \<open>The agent until its context ends; then scamper is stopped and \<open>Run\<close> returns.\<close>

fun agent_loop :: "proto_lib \<Rightarrow> agent_event list \<Rightarrow> agent_state \<Rightarrow> (string, unit) outcome option \<times> agent_state" where
  "agent_loop L [] s = (None, s)"
| "agent_loop L (AgentDone # es) s = (case scamper_Stop (as_scamper s) of
     (Panic, c) \<Rightarrow> (Some Panic, s\<lparr>as_scamper := c\<rparr>)
   | (_, c) \<Rightarrow> (Some (Ret ()), s\<lparr>as_scamper := c\<rparr>))"
| "agent_loop L (ConfigTick rpc rs ds # es) s = agent_loop L es (agent_tick L rpc rs ds s)"

text \<open>The states an agent reaches; the visiting orders enumerate the maps they belong to.\<close>

definition orders_ok :: "proto_lib \<Rightarrow> (server_error, pb_AgentConfig) outcome \<Rightarrow> string list \<Rightarrow> string list \<Rightarrow> Supervisor \<Rightarrow> bool" where
  "orders_ok L rpc rs ds v \<longleftrightarrow> (case pullConfiguration L rpc of Ret cfg \<Rightarrow> visits rs ds (ac_Tasks cfg) v | _ \<Rightarrow> True)"

inductive agent_reach :: "proto_lib \<Rightarrow> agent_state \<Rightarrow> bool" for L where
  start: "agent_start L e ds (NewAgent serial) = Ret s \<Longrightarrow> orders_ok L (ae_rpc e) [] ds NewSupervisor \<Longrightarrow> agent_reach L s"
| tick: "agent_reach L s \<Longrightarrow> orders_ok L rpc rs ds (as_supervisor s) \<Longrightarrow> agent_reach L (agent_tick L rpc rs ds s)"

lemma pull_ok:
  "ag_generation a = 0 \<Longrightarrow> pullConfiguration L rpc = Ret cfg \<Longrightarrow>
   pullAgentConfiguration L rpc a = (Ret (), a\<lparr>ag_agentConfig := Some cfg\<rparr>)"
  by (simp add: pullAgentConfiguration_def)

lemma pull_failed: "\<forall>cfg. pullConfiguration L rpc \<noteq> Ret cfg \<Longrightarrow> agent_tick L rpc rs ds s = s"
  by (cases "pullConfiguration L rpc") (simp_all add: agent_tick_def pullAgentConfiguration_def)

lemma tick_ok:
  "ag_generation (as_agent s) = 0 \<Longrightarrow> pullConfiguration L rpc = Ret cfg \<Longrightarrow>
   agent_tick L rpc rs ds s = s\<lparr>as_agent := (as_agent s)\<lparr>ag_agentConfig := Some cfg\<rparr>,
     as_supervisor := SetDesiredTasks rs ds (ac_Tasks cfg) (as_supervisor s)\<rparr>"
  by (simp add: agent_tick_def pull_ok)

lemma start_ok:
  "agent_start L e ds (NewAgent serial) = Ret s \<Longrightarrow>
   \<exists>cfg. pullConfiguration L (ae_rpc e) = Ret cfg \<and> ag_generation (as_agent s) = 0
     \<and> as_supervisor s = SetDesiredTasks [] ds (ac_Tasks cfg) NewSupervisor"
proof (cases "pullConfiguration L (ae_rpc e)")
  case (Ret cfg)
  assume "agent_start L e ds (NewAgent serial) = Ret s"
  then obtain c where c: "(case scamper_Start (ae_scamper e) c of
      (Ret _, c') \<Rightarrow> Ret \<lparr>as_agent = \<lparr>ag_SerialId = serial, ag_generation = 0, ag_agentConfig = Some cfg\<rparr>, as_scamper = c',
        as_supervisor = SetDesiredTasks [] ds (ac_Tasks cfg) NewSupervisor, as_streams = filter (ae_stream e) agent_streams\<rparr>
    | (Err er, _) \<Rightarrow> Err er | (Panic, _) \<Rightarrow> Panic) = Ret s"
    using Ret by (auto simp: agent_start_def pull_ok NewAgent_def split: if_splits)
  obtain x c' where "scamper_Start (ae_scamper e) c = (x, c')" by (cases "scamper_Start (ae_scamper e) c")
  then show ?thesis using c Ret by (cases x) (auto simp: NewAgent_def)
qed (simp_all add: agent_start_def pullAgentConfiguration_def)

lemma agent_reach_sup: "agent_reach L s \<Longrightarrow> sup_reach (as_supervisor s) \<and> ag_generation (as_agent s) = 0"
proof (induction rule: agent_reach.induct)
  case (start e ds serial s)
  then obtain cfg where c: "pullConfiguration L (ae_rpc e) = Ret cfg" "ag_generation (as_agent s) = 0"
    "as_supervisor s = SetDesiredTasks [] ds (ac_Tasks cfg) NewSupervisor" using start_ok by blast
  then have "visits [] ds (ac_Tasks cfg) NewSupervisor" using start(2) by (simp add: orders_ok_def)
  then show ?case using c(2,3) sup_reach.intros by auto
next
  case (tick s rpc rs ds)
  show ?case
  proof (cases "\<exists>cfg. pullConfiguration L rpc = Ret cfg")
    case True
    then obtain cfg where c: "pullConfiguration L rpc = Ret cfg" by blast
    then have "visits rs ds (ac_Tasks cfg) (as_supervisor s)" using tick(2) by (simp add: orders_ok_def)
    then show ?thesis using tick(3) sup_reach.set by (simp add: tick_ok [OF _ c])
  next
    case False
    then show ?thesis using tick(3) by (simp add: pull_failed)
  qed
qed

text \<open>A tick on which the control plane answers with tasks of known types: they become the desired ones.\<close>

lemma answered_tick:
  assumes "agent_reach L s" "orders_ok L rpc rs ds (as_supervisor s)"
    and "rpc = GetAgentConfig L query sid" "query sid = Some res" "rpc = Ret pb"
    and "list_all (\<lambda>r. known_type (opt [] (cr_type r))) (task_rows (qr_rows res))"
  obtains tasks where "list_all2 (serves L) (task_rows (qr_rows res)) tasks" "visits rs ds tasks (as_supervisor s)"
    "sup_inv (as_supervisor s)" "as_supervisor (agent_tick L rpc rs ds s) = SetDesiredTasks rs ds tasks (as_supervisor s)"
proof -
  note served = served_config [of L query sid pb res, OF _ assms(4)]
  have pull: "pullConfiguration L rpc = agentConfigFromProto L (Some pb)" using assms(5) by (simp add: pullConfiguration_def)
  obtain c where c: "agentConfigFromProto L (Some pb) = Ret c"
    using served assms(3,5,6) by (cases "agentConfigFromProto L (Some pb)") auto
  then have pc: "pullConfiguration L rpc = Ret c" using pull by simp
  show thesis
  proof (rule that)
    show "list_all2 (serves L) (task_rows (qr_rows res)) (ac_Tasks c)" using served assms(3,5) c by simp
    show "visits rs ds (ac_Tasks c) (as_supervisor s)" using assms(2) by (simp add: orders_ok_def pc)
    show "sup_inv (as_supervisor s)" using agent_reach_sup [OF assms(1)] sup_reach_inv by blast
    show "as_supervisor (agent_tick L rpc rs ds s) = SetDesiredTasks rs ds (ac_Tasks c) (as_supervisor s)"
      using agent_reach_sup [OF assms(1)] by (simp add: tick_ok [OF _ pc])
  qed
qed

lemma served_row:
  assumes "list_all2 (serves L) rows tasks" "a \<in> set tasks"
  obtains r where "r \<in> set rows" "serves L r a"
  using assms by (metis in_set_conv_nth list_all2_conv_all_nth)

lemma served_task:
  assumes "list_all2 (serves L) rows tasks" "r \<in> set rows"
  obtains a where "a \<in> set tasks" "serves L r a"
  using assms by (metis in_set_conv_nth list_all2_conv_all_nth)

text \<open>Then exactly the stored tasks run, each as stored unless its generation ran before, and nothing else is restarted.\<close>

lemma answered_effect:
  assumes "agent_reach L s" "orders_ok L rpc rs ds (as_supervisor s)"
    and "rpc = GetAgentConfig L query sid" "query sid = Some res" "rpc = Ret pb"
    and "list_all (\<lambda>r. known_type (opt [] (cr_type r))) (task_rows (qr_rows res))"
  defines "rows \<equiv> set (task_rows (qr_rows res))" and "run \<equiv> sv_running (as_supervisor s)"
    and "run' \<equiv> sv_running (as_supervisor (agent_tick L rpc rs ds s))"
  shows "dom run' = {i. \<exists>r \<in> rows. cr_task_id r = Some i}"
    and "run' i = Some rt \<Longrightarrow> \<exists>r \<in> rows. \<exists>a. serves L r a \<and> tk_TaskID a = i \<and> tk_Generation (rt_Spec rt) = tk_Generation a
           \<and> (rt_Spec rt = a \<or> run i = Some rt)"
    and "run i = Some rt \<Longrightarrow> i \<in> dom run' \<Longrightarrow>
         \<forall>r \<in> rows. cr_task_id r = Some i \<longrightarrow> int32 (opt 0 (cr_task_generation r)) = tk_Generation (rt_Spec rt) \<Longrightarrow> run' i = Some rt"
    and "live (sv_trace (as_supervisor (agent_tick L rpc rs ds s))) = rt_handle ` ran run'"
proof -
  obtain tasks where t: "list_all2 (serves L) (task_rows (qr_rows res)) tasks" "visits rs ds tasks (as_supervisor s)"
      "sup_inv (as_supervisor s)" "as_supervisor (agent_tick L rpc rs ds s) = SetDesiredTasks rs ds tasks (as_supervisor s)"
    by (rule answered_tick [OF assms(1-6)])
  note all = SetDesiredTasks_effect [OF t(3,2), folded t(4), folded run_def run'_def]
  note effect = all [THEN conjunct1] all [THEN conjunct2, THEN conjunct1, rule_format] all [THEN conjunct2, THEN conjunct2, rule_format]
  note srow = served_row [OF t(1), folded rows_def] and stask = served_task [OF t(1), folded rows_def]
  have sid: "serves L r a \<Longrightarrow> cr_task_id r = Some (tk_TaskID a) \<and> tk_Generation a = int32 (opt 0 (cr_task_generation r))" for r a
    by (simp add: serves_def)
  have ids: "i \<in> tk_TaskID ` set tasks \<longleftrightarrow> (\<exists>r \<in> rows. cr_task_id r = Some i)" for i
  proof
    assume "i \<in> tk_TaskID ` set tasks"
    then obtain a where "a \<in> set tasks" "tk_TaskID a = i" by blast
    then show "\<exists>r \<in> rows. cr_task_id r = Some i" using srow sid by metis
  next
    assume "\<exists>r \<in> rows. cr_task_id r = Some i"
    then obtain r where r: "r \<in> rows" "cr_task_id r = Some i" by blast
    obtain a where "a \<in> set tasks" "serves L r a" by (rule stask [OF r(1)])
    then show "i \<in> tk_TaskID ` set tasks" using sid r(2) by force
  qed
  show "dom run' = {i. \<exists>r \<in> rows. cr_task_id r = Some i}" unfolding effect(1) using ids by blast
  show "\<exists>r \<in> rows. \<exists>a. serves L r a \<and> tk_TaskID a = i \<and> tk_Generation (rt_Spec rt) = tk_Generation a
           \<and> (rt_Spec rt = a \<or> run i = Some rt)" if r: "run' i = Some rt"
  proof -
    obtain a where a: "a \<in> set tasks" "tk_TaskID a = i \<and> tk_Generation (rt_Spec rt) = tk_Generation a \<and> (rt_Spec rt = a \<or> run i = Some rt)"
      using effect(2) [OF r] by blast
    obtain r where "r \<in> rows" "serves L r a" by (rule srow [OF a(1)])
    then show ?thesis using a(2) by blast
  qed
  show "run' i = Some rt" if k: "run i = Some rt" "i \<in> dom run'"
    "\<forall>r \<in> rows. cr_task_id r = Some i \<longrightarrow> int32 (opt 0 (cr_task_generation r)) = tk_Generation (rt_Spec rt)"
  proof -
    have "i \<in> tk_TaskID ` set tasks" using k(2) effect(1) by simp
    then obtain a where a: "sv_desired (as_supervisor (agent_tick L rpc rs ds s)) i = Some a"
      unfolding t(4) desired_after using desired_map_empty(2) [of tasks i] by blast
    then have m: "a \<in> set tasks" "tk_TaskID a = i" unfolding t(4) desired_after using desired_map_empty(1) by blast+
    obtain r where "r \<in> rows" "serves L r a" by (rule srow [OF m(1)])
    then have "tk_Generation (rt_Spec rt) = tk_Generation a" using k(3) sid m(2) by metis
    then show ?thesis by (rule effect(3) [OF k(1) a])
  qed
  show "live (sv_trace (as_supervisor (agent_tick L rpc rs ds s))) = rt_handle ` ran run'"
    using sup_invD(4) [OF SetDesiredTasks_inv [OF t(3,2)]] by (simp add: handles_def t(4) run'_def)
qed

text \<open>
  Property C33. An agent runs the tasks its operator has stored. In every state an agent reaches, a tick on which the control
  plane answers from the tables leaves running exactly the stored tasks, each in its stored generation and with
  one goroutine of its own, when all their types are known; when one is not, the agent goes on with the tasks it had. A tick without
  an answer changes nothing.
\<close>

theorem agent_runs_the_stored_tasks:
  assumes "agent_reach L s" "orders_ok L rpc rs ds (as_supervisor s)"
    and "rpc = GetAgentConfig L query sid" "query sid = Some res"
  defines "s' \<equiv> agent_tick L rpc rs ds s"
  shows "case rpc of
      Ret pb \<Rightarrow>
        if list_all (\<lambda>r. known_type (opt [] (cr_type r))) (task_rows (qr_rows res)) then
          dom (sv_running (as_supervisor s')) = {i. \<exists>r \<in> set (task_rows (qr_rows res)). cr_task_id r = Some i}
          \<and> (\<forall>i rt. sv_running (as_supervisor s') i = Some rt \<longrightarrow> (\<exists>r \<in> set (task_rows (qr_rows res)).
               cr_task_id r = Some i \<and> tk_Generation (rt_Spec rt) = int32 (opt 0 (cr_task_generation r))))
          \<and> live (sv_trace (as_supervisor s')) = rt_handle ` ran (sv_running (as_supervisor s'))
        else s' = s
    | _ \<Rightarrow> s' = s"
proof (cases rpc)
  case (Ret pb)
  let ?rows = "task_rows (qr_rows res)"
  show ?thesis
  proof (cases "list_all (\<lambda>r. known_type (opt [] (cr_type r))) ?rows")
    case True
    note effect = answered_effect [OF assms(1-4) Ret True, folded s'_def]
    have "\<exists>r \<in> set ?rows. cr_task_id r = Some i \<and> tk_Generation (rt_Spec rt) = int32 (opt 0 (cr_task_generation r))"
      if run: "sv_running (as_supervisor s') i = Some rt" for i rt
      using effect(2) [OF run] by (auto simp: serves_def)
    then show ?thesis using True effect(1,4) Ret by simp
  next
    case False
    have "\<forall>c. agentConfigFromProto L (Some pb) \<noteq> Ret c"
    proof (intro allI notI)
      fix c assume c: "agentConfigFromProto L (Some pb) = Ret c"
      then have "list_all2 (serves L) ?rows (ac_Tasks c)" "list_all (\<lambda>t. known_type (tk_Type t)) (ac_Tasks c)"
        using served_config [of L query sid pb res, OF _ assms(4)] assms(3) Ret by (auto simp: list_all_iff)
      then have "list_all (\<lambda>r. known_type (opt [] (cr_type r))) ?rows"
        by (induction rule: list_all2_induct) (auto simp: serves_def)
      then show False using False by blast
    qed
    then have "s' = s" unfolding s'_def by (intro pull_failed) (simp add: Ret pullConfiguration_def)
    then show ?thesis using False Ret by simp
  qed
qed (simp_all add: s'_def pull_failed pullConfiguration_def)

text \<open>An agent whose one task the operator replaces by another.\<close>

lemma agent_client: "bin \<noteq> [] \<Longrightarrow> \<exists>k. NewClient (agent_scamper_config bin cfg) = Ret k"
  by (auto simp: NewClient_def Let_def agent_scamper_config_def)

definition demo_query :: "config_row list \<Rightarrow> string \<Rightarrow> query_result option" where
  "demo_query rows _ = Some \<lparr>qr_rows = map Some rows, qr_err = False\<rparr>"

definition demo_agent_env :: agent_env where
  "demo_agent_env = \<lparr>ae_rpc = GetAgentConfig demo_lib (demo_query [demo_row]) ''s'', ae_nats = (\<lambda>_. True), ae_jetstream = True,
     ae_stream = (\<lambda>_. True), ae_bin = ''scamper'', ae_scamper = \<lparr>se_exec = True, se_done = (\<lambda>_. False), se_stat = (\<lambda>_. True),
       se_dial = True, se_write = True, se_input = render [ReplyOk]\<rparr>\<rparr>"

lemma demo_served:
  assumes "r = demo_row\<lparr>cr_task_id := Some i, cr_task_generation := Some g\<rparr>"
  shows "\<exists>pb c. GetAgentConfig demo_lib (demo_query [r]) ''s'' = Ret pb \<and> pullConfiguration demo_lib (Ret pb) = Ret c \<and> map tk_TaskID (ac_Tasks c) = [i]"
proof -
  have "\<exists>pb. GetAgentConfig demo_lib (demo_query [r]) ''s'' = Ret pb"
    by (simp add: assms demo_query_def GetAgentConfig_def loadAgentConfig_def demo_row_def row_task_def Let_def opt_def setTaskParams_def
        task_type_defs ping_params_def d_str_def d_num_def d_field_def j_values_def)
  then obtain pb where pb: "GetAgentConfig demo_lib (demo_query [r]) ''s'' = Ret pb" by blast
  have q: "demo_query [r] ''s'' = Some \<lparr>qr_rows = [Some r], qr_err = False\<rparr>" by (simp add: demo_query_def)
  have rows: "task_rows [Some r] = [r]" "known_type (opt [] (cr_type r))" "cr_task_id r = Some i"
    by (simp_all add: assms task_rows_def demo_row_def opt_def known_type_def TaskType_defs)
  show ?thesis
    using served_config [OF pb q] rows pb
    by (cases "agentConfigFromProto demo_lib (Some pb)") (auto simp: serves_def list_all2_Cons1 pullConfiguration_def)
qed

lemma demo_start:
  assumes "pullConfiguration demo_lib rpc = Ret c" "distinct ids" "set ids = tk_TaskID ` set (ac_Tasks c)"
  obtains s where "agent_start demo_lib (demo_agent_env\<lparr>ae_rpc := rpc\<rparr>) ids (NewAgent ''s'') = Ret s" "agent_reach demo_lib s"
    "as_supervisor s = SetDesiredTasks [] ids (ac_Tasks c) NewSupervisor" "dom (sv_running (as_supervisor s)) = set ids"
proof -
  let ?e = "demo_agent_env\<lparr>ae_rpc := rpc\<rparr>"
  obtain k where k: "NewClient (agent_scamper_config ''scamper'' c) = Ret k" using agent_client [of "''scamper''"] by blast
  obtain k' where k': "scamper_Start (ae_scamper demo_agent_env) k = (Ret (), k')"
    using started_client [OF k, of "ae_scamper demo_agent_env"] by (auto simp: demo_agent_env_def eval_nat_numeral)
  let ?s = "\<lparr>as_agent = \<lparr>ag_SerialId = ''s'', ag_generation = 0, ag_agentConfig = Some c\<rparr>, as_scamper = k',
    as_supervisor = SetDesiredTasks [] ids (ac_Tasks c) NewSupervisor, as_streams = agent_streams\<rparr>"
  have start: "agent_start demo_lib ?e ids (NewAgent ''s'') = Ret ?s"
    using assms(1) k k' by (simp add: agent_start_def pullAgentConfiguration_def NewAgent_def) (simp add: demo_agent_env_def)
  have v: "visits [] ids (ac_Tasks c) NewSupervisor" using assms(2,3) by (simp add: visits_def NewSupervisor_def)
  show thesis
  proof (rule that [OF start])
    show "agent_reach demo_lib ?s" using start by (rule agent_reach.start) (use v assms(1) in \<open>simp add: orders_ok_def\<close>)
    show "dom (sv_running (as_supervisor ?s)) = set ids"
      using SetDesiredTasks_effect [OF sup_reach_inv [OF sup_reach.start] v] assms(3) by simp
  qed simp
qed

theorem agent_runs_the_stored_tasks_witness:
  "\<exists>s s'. agent_start demo_lib (demo_agent_env\<lparr>ae_rpc := GetAgentConfig demo_lib (demo_query [demo_row]) ''s''\<rparr>) [''t1''] (NewAgent ''s'') = Ret s
     \<and> s' = agent_tick demo_lib (GetAgentConfig demo_lib (demo_query [demo_row\<lparr>cr_task_id := Some ''t2'', cr_task_generation := Some 5\<rparr>]) ''s'') [''t1''] [''t2''] s
     \<and> dom (sv_running (as_supervisor s')) = {''t2''}"
proof -
  have "demo_row = demo_row\<lparr>cr_task_id := Some ''t1'', cr_task_generation := Some 1\<rparr>" by (simp add: demo_row_def)
  from demo_served [OF this] obtain pb c where c: "GetAgentConfig demo_lib (demo_query [demo_row]) ''s'' = Ret pb"
    "pullConfiguration demo_lib (Ret pb) = Ret c" "map tk_TaskID (ac_Tasks c) = [''t1'']"
    by (elim exE conjE) (rule that, assumption+)
  let ?r = "demo_row\<lparr>cr_task_id := Some ''t2'', cr_task_generation := Some 5\<rparr>"
  let ?rpc = "GetAgentConfig demo_lib (demo_query [?r]) ''s''"
  obtain pb2 c2 where c2: "?rpc = Ret pb2" "pullConfiguration demo_lib (Ret pb2) = Ret c2" "map tk_TaskID (ac_Tasks c2) = [''t2'']"
    using demo_served [where r = ?r and i = "''t2''" and g = 5, OF HOL.refl] by (elim exE conjE) (rule that, assumption+)
  have ids: "tk_TaskID ` set (ac_Tasks c) = {''t1''}" "tk_TaskID ` set (ac_Tasks c2) = {''t2''}"
    using c(3) c2(3) by (metis list.set_map list.simps(15) set_empty2)+
  obtain s where s: "agent_start demo_lib (demo_agent_env\<lparr>ae_rpc := Ret pb\<rparr>) [''t1''] (NewAgent ''s'') = Ret s" "agent_reach demo_lib s"
      "dom (sv_running (as_supervisor s)) = {''t1''}"
    by (rule demo_start [OF c(2), of "[''t1'']"]) (use ids in auto)
  have ord: "orders_ok demo_lib ?rpc [''t1''] [''t2''] (as_supervisor s)"
    using s(3) c2(2) ids by (simp add: orders_ok_def c2(1) visits_def)
  have rows: "task_rows [Some ?r] = [?r]" "known_type (opt [] (cr_type ?r))"
    by (simp_all add: task_rows_def demo_row_def opt_def known_type_def TaskType_defs)
  have "demo_query [?r] ''s'' = Some \<lparr>qr_rows = [Some ?r], qr_err = False\<rparr>" by (simp add: demo_query_def)
  from agent_runs_the_stored_tasks [OF s(2) ord HOL.refl this]
  have "dom (sv_running (as_supervisor (agent_tick demo_lib ?rpc [''t1''] [''t2''] s))) = {''t2''}"
    using rows unfolding c2(1) by auto
  then show ?thesis using s(1) unfolding c(1) by blast
qed

end
