(* ===== verification/Task_Editor.thy ===== *)
theory Task_Editor
  imports Agent_Run Pg_Base "HOL-Library.Multiset"
begin

text \<open>
  The probe-task editor of the web frontend (\<^verbatim>\<open>frontend/lib/cepheus_web/live/device_live.ex\<close>) and the functions of
  \<^verbatim>\<open>frontend/lib/cepheus/dashboard.ex\<close> that it calls: the rows a user fills in, their validation, the choice of a fresh task identifier, and
  the transaction that stores the tasks and raises the generation of the configuration. The tables are those
  of \<^verbatim>\<open>db/init/01-setup.sql\<close> that the control plane answers from, so what is saved here can be followed to the agent. Text
  is ASCII. \<open>ecto\<close> stands for the conversions of identifiers by Ecto and PostgreSQL
  and for the order of rows.
\<close>

section \<open>Task types\<close>

definition task_types :: "(string \<times> string) list" where
  "task_types = [(''Traceroute'', ''trace''), (''Ping'', ''ping''), (''STAMP sender'', ''stamp-sender''),
     (''STAMP reflector'', ''stamp-reflector'')]"

definition task_type_label :: "string \<Rightarrow> string" where
  "task_type_label type = (case find (\<lambda>(label, value). value = type) task_types of Some (label, _) \<Rightarrow> label | None \<Rightarrow> type)"

definition task_has_target :: "string \<Rightarrow> bool" where
  "task_has_target type \<longleftrightarrow> type \<in> set [''trace'', ''tracelb'', ''ping'', ''stamp-sender'']"

definition task_has_port :: "string \<Rightarrow> bool" where
  "task_has_port type \<longleftrightarrow> type \<in> set [''stamp-sender'', ''stamp-reflector'']"

definition task_schedulable :: "string \<Rightarrow> bool" where
  "task_schedulable type \<longleftrightarrow> type \<noteq> ''stamp-reflector''"

definition default_interval :: "string \<Rightarrow> int" where
  "default_interval type =
     (if type = ''trace'' then 40 else if type = ''tracelb'' then 40 else if type = ''ping'' then 20
      else if type = ''stamp-sender'' then 10 else 30)"

definition default_port :: "string \<Rightarrow> string" where
  "default_port type = (if task_has_port type then ''862'' else [])"

section \<open>Text\<close>

definition white :: "char \<Rightarrow> bool" where
  "white c \<longleftrightarrow> (let n = (of_char c :: nat) in 9 \<le> n \<and> n \<le> 13 \<or> n = 32)"

text \<open>\<^verbatim>\<open>String.trim\<close>, with what it removes at both ends.\<close>

definition trim_with :: "(char \<Rightarrow> bool) \<Rightarrow> string \<Rightarrow> string" where
  "trim_with p s = rev (dropWhile p (rev (dropWhile p s)))"

definition trim :: "string \<Rightarrow> string" where
  "trim = trim_with white"

text \<open>\<^verbatim>\<open>Integer.parse\<close>: an optional sign, digits, and the rest.\<close>

definition integer_parse :: "string \<Rightarrow> (int \<times> string) option" where
  "integer_parse s =
     (case (case s of c # t \<Rightarrow> if c = CHR ''-'' then (- 1, t) else if c = CHR ''+'' then (1, t) else (1, s) | [] \<Rightarrow> (1, [])) of
        (sign, t) \<Rightarrow> let ds = takeWhile is_digit t in
          if ds = [] then None else Some (sign * digits_value 0 ds, dropWhile is_digit t))"

definition target_char :: "char \<Rightarrow> bool" where
  "target_char c \<longleftrightarrow> (let n = (of_char c :: nat) in
     65 \<le> n \<and> n \<le> 90 \<or> 97 \<le> n \<and> n \<le> 122 \<or> 48 \<le> n \<and> n \<le> 57) \<or> c \<in> set ''._:-''"

text \<open>The regular expression of \<^verbatim>\<open>validate_target\<close>; its end also matches before a final newline.\<close>

definition target_regex :: "string \<Rightarrow> bool" where
  "target_regex s = (let t = (if s \<noteq> [] \<and> last s = CHR 0x0A then butlast s else s) in t \<noteq> [] \<and> list_all target_char t)"

section \<open>Building tasks\<close>

record task_row =
  tr_ref :: string
  tr_type :: string
  tr_target :: string
  tr_port :: string
  tr_interval :: string

record editor_task =
  et_task_id :: string
  et_type :: string
  et_params :: json
  et_schedule_enabled :: bool
  et_interval :: int
  et_jitter :: int

datatype editor_error =
    NoTasks
  | UnknownType string
  | TargetRequired string
  | InvalidTarget string string
  | InvalidPort string
  | InvalidInterval string
  | StoreFailed

definition validate_type :: "string \<Rightarrow> (editor_error, unit) outcome" where
  "validate_type type = (if type \<in> set (map snd task_types) then Ret () else Err (UnknownType type))"

definition validate_target :: "string \<Rightarrow> string \<Rightarrow> (editor_error, unit) outcome" where
  "validate_target type target =
     (if \<not> task_has_target type then Ret ()
      else if target = [] then Err (TargetRequired (task_type_label type))
      else if target_regex target then Ret ()
      else Err (InvalidTarget (task_type_label type) target))"

definition validate_port :: "string \<Rightarrow> string \<Rightarrow> (editor_error, int option) outcome" where
  "validate_port type raw =
     (if task_has_port type then
        let value = trim raw; value = (if value = [] then ''862'' else value) in
        (case integer_parse value of
           Some (n, rest) \<Rightarrow> if rest = [] \<and> 1 \<le> n \<and> n \<le> 65535 then Ret (Some n) else Err (InvalidPort (task_type_label type))
         | None \<Rightarrow> Err (InvalidPort (task_type_label type)))
      else Ret None)"

definition validate_interval :: "string \<Rightarrow> string \<Rightarrow> (editor_error, int) outcome" where
  "validate_interval type raw =
     (if task_schedulable type then
        let value = trim raw in
        if value = [] then Ret (default_interval type)
        else (case integer_parse value of
            Some (n, rest) \<Rightarrow> if rest = [] \<and> n > 0 then Ret n else Err (InvalidInterval (task_type_label type))
          | None \<Rightarrow> Err (InvalidInterval (task_type_label type)))
      else Ret 0)"

text \<open>Parameters and schedule; \<open>None\<close> where no clause matches. A missing port is \<^verbatim>\<open>nil\<close>.\<close>

definition j_port :: "int option \<Rightarrow> json" where
  "j_port p = (case p of None \<Rightarrow> JNull | Some n \<Rightarrow> j_int n)"

definition task_spec :: "string \<Rightarrow> string \<Rightarrow> int option \<Rightarrow> int \<Rightarrow> (json \<times> bool \<times> int \<times> int) option" where
  "task_spec type target port interval =
     (if type \<in> set [''trace'', ''tracelb''] then
        Some (JObj [(''target'', JStr target), (''method'', JStr ''icmp-paris'')], True, interval, 10)
      else if type = ''ping'' then
        Some (JObj [(''target'', JStr target), (''count'', j_int 5), (''size'', j_int 64)], True, interval, 10)
      else if type = ''stamp-sender'' then
        Some (JObj [(''target'', JStr target), (''target_port'', j_port port), (''dscp'', j_int 0), (''require_clock_sync'', JBool False),
          (''packet_count'', j_int 20), (''packet_interval'', j_int 100000000)], True, interval, 10)
      else if type = ''stamp-reflector'' then
        Some (JObj [(''listen_port'', j_port port), (''dscp'', j_int 0), (''require_clock_sync'', JBool False)], False, 0, 0)
      else None)"

definition id_char :: "char \<Rightarrow> bool" where
  "id_char c \<longleftrightarrow> (let n = (of_char c :: nat) in 97 \<le> n \<and> n \<le> 122 \<or> 48 \<le> n \<and> n \<le> 57)"

text \<open>Every run of other characters becomes one dash.\<close>

function replace_runs :: "string \<Rightarrow> string" where
  "replace_runs [] = []"
| "replace_runs (c # cs) =
     (if id_char c then c # replace_runs cs else CHR ''-'' # replace_runs (dropWhile (\<lambda>c. \<not> id_char c) cs))"
  by pat_completeness auto

termination
  by (relation "measure length") (auto simp: le_imp_less_Suc length_dropWhile_le)

definition sanitize_target :: "string \<Rightarrow> string" where
  "sanitize_target target = trim_with (\<lambda>c. c = CHR ''-'') (replace_runs (map lower_char target))"

definition candidate :: "string \<Rightarrow> nat \<Rightarrow> string" where
  "candidate base n = (if n = 1 then base else base @ ''-'' @ itoa (int n))"

text \<open>The search ends because the candidates differ and only finitely many identifiers are used.\<close>

lemma candidate_inj: "candidate base m = candidate base n \<Longrightarrow> m = n"
  by (auto simp: candidate_def dest: itoa_inj split: if_splits)

lemma taken_finite: "finite {m. candidate base m \<in> set used}"
proof (rule inj_on_finite)
  show "inj_on (candidate base) {m. candidate base m \<in> set used}" by (auto intro!: inj_onI dest: candidate_inj)
  show "candidate base ` {m. candidate base m \<in> set used} \<subseteq> set used" by auto
qed simp

function ensure_unique :: "string \<Rightarrow> string list \<Rightarrow> nat \<Rightarrow> string" where
  "ensure_unique base used n =
     (if candidate base n \<in> set used then ensure_unique base used (Suc n) else candidate base n)"
  by pat_completeness auto

termination
proof (relation "measure (\<lambda>(base, used, n). card {m. n \<le> m \<and> candidate base m \<in> set used})")
  fix base n and used :: "string list"
  assume c: "candidate base n \<in> set used"
  have "{m. Suc n \<le> m \<and> candidate base m \<in> set used} \<subset> {m. n \<le> m \<and> candidate base m \<in> set used}"
    (is "?L \<subset> ?R")
  proof
    show "?L \<subseteq> ?R" by auto
    have "n \<in> ?R" "n \<notin> ?L" using c by auto
    then show "?L \<noteq> ?R" by blast
  qed
  moreover have "finite {m. n \<le> m \<and> candidate base m \<in> set used}"
    by (rule finite_subset [OF _ taken_finite [of base used]]) auto
  ultimately show "((base, used, Suc n), (base, used, n)) \<in> measure (\<lambda>(base, used, n). card {m. n \<le> m \<and> candidate base m \<in> set used})"
    by (simp add: psubset_card_mono)
qed simp

declare ensure_unique.simps [simp del]

definition unique_task_id :: "string \<Rightarrow> string \<Rightarrow> int option \<Rightarrow> string list \<Rightarrow> string" where
  "unique_task_id type target port used =
     ensure_unique
       (if type = ''stamp-reflector'' then ''stamp-reflector-'' @ (case port of None \<Rightarrow> [] | Some n \<Rightarrow> itoa n)
        else type @ ''-'' @ sanitize_target target) used 1"

text \<open>A row without a matching clause of \<^verbatim>\<open>task_spec\<close> crashes the page.\<close>

definition build_task :: "task_row \<Rightarrow> string list \<Rightarrow> (editor_error, editor_task) outcome" where
  "build_task row used =
     (let type = tr_type row; target = trim (tr_target row) in
      obind (validate_type type) (\<lambda>_.
      obind (validate_target type target) (\<lambda>_.
      obind (validate_port type (tr_port row)) (\<lambda>port.
      obind (validate_interval type (tr_interval row)) (\<lambda>interval.
      case task_spec type target port interval of
        None \<Rightarrow> Panic
      | Some (params, enabled, secs, jitter) \<Rightarrow>
          Ret \<lparr>et_task_id = unique_task_id type target port used, et_type = type, et_params = params,
            et_schedule_enabled = enabled, et_interval = secs, et_jitter = jitter\<rparr>)))))"

fun build_loop :: "task_row list \<Rightarrow> editor_task list \<Rightarrow> string list \<Rightarrow> (editor_error, editor_task list) outcome" where
  "build_loop [] acc used = Ret (rev acc)"
| "build_loop (row # rows) acc used =
     obind (build_task row used) (\<lambda>task. build_loop rows (task # acc) (et_task_id task # used))"

section \<open>The tables\<close>

record config_record =
  co_id :: uuid
  co_generation :: int
  co_report_endpoint :: string
  co_report_batch :: int
  co_report_interval :: int
  co_report_timeout :: int
  co_updated_at :: time

record stored_task =
  at_config :: uuid
  at_task_id :: string
  at_type :: string
  at_enabled :: bool
  at_generation :: int
  at_interval :: int
  at_jitter :: int
  at_schedule_enabled :: bool
  at_params :: json

record control_db =
  cd_devices :: "(string \<times> uuid) list"
  cd_configs :: "config_record list"
  cd_tasks :: "stored_task list"
  cd_stmts :: nat

record ecto =
  ec_dump :: "string \<Rightarrow> uuid option"
  ec_text :: "uuid \<Rightarrow> string"
  ec_sort :: "stored_task list \<Rightarrow> stored_task list"

text \<open>A printed identifier is read back; ordering by identifier, whatever the collation, returns the same rows.\<close>

definition ecto_law :: "ecto \<Rightarrow> bool" where
  "ecto_law X \<longleftrightarrow> (\<forall>u. ec_dump X (ec_text X u) = Some u) \<and> (\<forall>ts. mset (ec_sort X ts) = mset ts)"

text \<open>A statement whose answer does not arrive raises, whether or not the server ran it.\<close>

definition ctl_query :: "db_env \<Rightarrow> (control_db \<Rightarrow> 'a option \<times> control_db) \<Rightarrow> control_db \<Rightarrow> 'a option \<times> control_db" where
  "ctl_query env q d = (let d' = d\<lparr>cd_stmts := Suc (cd_stmts d)\<rparr> in
     case de_fault env (cd_stmts d) of FNone \<Rightarrow> q d' | _ \<Rightarrow> (None, d'))"

text \<open>The tasks of a configuration, ordered by their identifiers.\<close>

definition list_tasks_for_config :: "db_env \<Rightarrow> ecto \<Rightarrow> string \<Rightarrow> control_db \<Rightarrow> stored_task list option \<times> control_db" where
  "list_tasks_for_config env X cid d = (case ec_dump X cid of
       None \<Rightarrow> (None, d)
     | Some u \<Rightarrow> ctl_query env (\<lambda>d. (Some (ec_sort X (filter (\<lambda>t. at_config t = u) (cd_tasks d))), d)) d)"

section \<open>Storing tasks\<close>

definition bump_generation :: "db_env \<Rightarrow> uuid \<Rightarrow> time \<Rightarrow> control_db \<Rightarrow> int option \<times> control_db" where
  "bump_generation env u now = ctl_query env (\<lambda>d. case filter (\<lambda>c. co_id c = u) (cd_configs d) of
       [c] \<Rightarrow> if in_s 32 (co_generation c + 1) then
           (Some (co_generation c + 1), d\<lparr>cd_configs := map (\<lambda>c. if co_id c = u
              then c\<lparr>co_generation := co_generation c + 1, co_updated_at := de_ts env now\<rparr> else c) (cd_configs d)\<rparr>)
         else (None, d)
     | _ \<Rightarrow> (None, d))"

definition stored_row :: "uuid \<Rightarrow> int \<Rightarrow> editor_task \<Rightarrow> stored_task" where
  "stored_row u generation t = \<lparr>at_config = u, at_task_id = et_task_id t, at_type = et_type t, at_enabled = True,
     at_generation = generation, at_interval = et_interval t, at_jitter = et_jitter t,
     at_schedule_enabled = et_schedule_enabled t, at_params = et_params t\<rparr>"

text \<open>The integer columns have 32 bits; a value beyond them is refused.\<close>

definition insert_task :: "db_env \<Rightarrow> uuid \<Rightarrow> int \<Rightarrow> editor_task \<Rightarrow> control_db \<Rightarrow> unit option \<times> control_db" where
  "insert_task env u generation t = ctl_query env (\<lambda>d.
     if in_s 32 generation \<and> in_s 32 (et_interval t) \<and> in_s 32 (et_jitter t) then
       (Some (), d\<lparr>cd_tasks := cd_tasks d @ [stored_row u generation t]\<rparr>)
     else (None, d))"

fun insert_tasks :: "db_env \<Rightarrow> uuid \<Rightarrow> int \<Rightarrow> editor_task list \<Rightarrow> control_db \<Rightarrow> unit option \<times> control_db" where
  "insert_tasks env u generation [] d = (Some (), d)"
| "insert_tasks env u generation (t # ts) d = (case insert_task env u generation t d of
     (None, d') \<Rightarrow> (None, d')
   | (Some _, d') \<Rightarrow> insert_tasks env u generation ts d')"

definition add_tasks ::
  "db_env \<Rightarrow> ecto \<Rightarrow> time \<Rightarrow> string \<Rightarrow> editor_task list \<Rightarrow> control_db \<Rightarrow> (editor_error, int) outcome \<times> control_db" where
  "add_tasks env X now cid tasks d = (case ec_dump X cid of
       None \<Rightarrow> (Err StoreFailed, d)
     | Some u \<Rightarrow> let d0 = d\<lparr>cd_stmts := Suc (cd_stmts d)\<rparr> in
         (case de_begin env (cd_stmts d) of
            TxErr _ \<Rightarrow> (Err StoreFailed, d0)
          | TxOk \<Rightarrow> (case bump_generation env u now d0 of
              (None, d1) \<Rightarrow> (Err StoreFailed, d0\<lparr>cd_stmts := Suc (cd_stmts d1)\<rparr>)
            | (Some generation, d1) \<Rightarrow> (case insert_tasks env u generation tasks d1 of
                (None, d2) \<Rightarrow> (Err StoreFailed, d0\<lparr>cd_stmts := Suc (cd_stmts d2)\<rparr>)
              | (Some _, d2) \<Rightarrow> (case de_fault env (cd_stmts d2) of
                  FNone \<Rightarrow> (Ret generation, d2\<lparr>cd_stmts := Suc (cd_stmts d2)\<rparr>)
                | FFail \<Rightarrow> (Err StoreFailed, d0\<lparr>cd_stmts := Suc (cd_stmts d2)\<rparr>)
                | FLost \<Rightarrow> (Err StoreFailed, d2\<lparr>cd_stmts := Suc (cd_stmts d2)\<rparr>))))))"

section \<open>The page\<close>

datatype flash = Added nat int | Refused editor_error

record editor =
  ed_config :: string
  ed_rows :: "task_row list"
  ed_flash :: "flash option"

text \<open>The parameters of an event; \<open>n\<close> is the integer that \<^verbatim>\<open>System.unique_integer\<close> draws.\<close>

definition add_task_row :: "nat \<Rightarrow> (string \<rightharpoonup> string) \<Rightarrow> editor \<Rightarrow> editor" where
  "add_task_row n params e =
     (let type = (case params ''type'' of None \<Rightarrow> ''trace'' | Some t \<Rightarrow> t);
          type = (if type \<in> set (map snd task_types) then type else ''trace'')
      in e\<lparr>ed_rows := ed_rows e @ [\<lparr>tr_ref = ''row-'' @ itoa (int n), tr_type = type,
        tr_target = (case params ''target'' of None \<Rightarrow> [] | Some t \<Rightarrow> t), tr_port = default_port type, tr_interval = []\<rparr>]\<rparr>)"

definition remove_task_row :: "string \<Rightarrow> editor \<Rightarrow> editor" where
  "remove_task_row ref e = e\<lparr>ed_rows := filter (\<lambda>r. tr_ref r \<noteq> ref) (ed_rows e)\<rparr>"

definition get_attr :: "(string \<rightharpoonup> string) \<Rightarrow> string \<Rightarrow> string \<Rightarrow> string" where
  "get_attr attrs key old = (case attrs key of None \<Rightarrow> old | Some v \<Rightarrow> v)"

definition change_row :: "(string \<rightharpoonup> string) \<Rightarrow> task_row \<Rightarrow> task_row" where
  "change_row attrs row = row\<lparr>tr_type := get_attr attrs ''type'' (tr_type row), tr_target := get_attr attrs ''target'' (tr_target row),
     tr_port := get_attr attrs ''port'' (tr_port row), tr_interval := get_attr attrs ''interval'' (tr_interval row)\<rparr>"

definition task_form_change :: "(string \<rightharpoonup> (string \<rightharpoonup> string)) option \<Rightarrow> editor \<Rightarrow> editor" where
  "task_form_change tasks e = (case tasks of
       None \<Rightarrow> e
     | Some m \<Rightarrow> e\<lparr>ed_rows := map (\<lambda>row. case m (tr_ref row) of None \<Rightarrow> row | Some attrs \<Rightarrow> change_row attrs row) (ed_rows e)\<rparr>)"

definition build_tasks :: "db_env \<Rightarrow> ecto \<Rightarrow> task_row list \<Rightarrow> string \<Rightarrow> control_db \<Rightarrow> (editor_error, editor_task list) outcome \<times> control_db" where
  "build_tasks env X rows cid d = (if rows = [] then (Err NoTasks, d)
     else case list_tasks_for_config env X cid d of
       (None, d') \<Rightarrow> (Panic, d')
     | (Some ts, d') \<Rightarrow> (build_loop rows [] (map at_task_id ts), d'))"

text \<open>After a save the page reads the device and its tasks again, which leaves the tables as they are.\<close>

definition save_tasks :: "db_env \<Rightarrow> ecto \<Rightarrow> time \<Rightarrow> editor \<Rightarrow> control_db \<Rightarrow> (unit, editor) outcome \<times> control_db" where
  "save_tasks env X now e d = (case build_tasks env X (ed_rows e) (ed_config e) d of
       (Panic, d1) \<Rightarrow> (Panic, d1)
     | (Err m, d1) \<Rightarrow> (Ret (e\<lparr>ed_flash := Some (Refused m)\<rparr>), d1)
     | (Ret tasks, d1) \<Rightarrow> (case add_tasks env X now (ed_config e) tasks d1 of
         (Ret generation, d2) \<Rightarrow> (Ret (e\<lparr>ed_rows := [], ed_flash := Some (Added (length tasks) generation)\<rparr>), d2)
       | (Err m, d2) \<Rightarrow> (Ret (e\<lparr>ed_flash := Some (Refused m)\<rparr>), d2)
       | (Panic, d2) \<Rightarrow> (Panic, d2)))"

section \<open>What the editor builds\<close>

lemma ensure_unique_fresh: "ensure_unique base used n \<notin> set used"
proof (induction base used n rule: ensure_unique.induct)
  case (1 base used n)
  then show ?case by (subst ensure_unique.simps) auto
qed

text \<open>The port and the interval a row asks for, and the task an agent should run for it.\<close>

definition port_of :: "task_row \<Rightarrow> int" where
  "port_of row = (let v = trim (tr_port row) in if v = [] then 862 else fst (the (integer_parse v)))"

definition interval_of :: "task_row \<Rightarrow> int" where
  "interval_of row = (let v = trim (tr_interval row) in if v = [] then default_interval (tr_type row) else fst (the (integer_parse v)))"

definition wanted_params :: "task_row \<Rightarrow> TaskParams" where
  "wanted_params row = (let target = trim (tr_target row) in
     if tr_type row = TaskTypeTrace then
       P_Trace \<lparr>tp_Target = target, tp_SourceIP = [], tp_Method = ''icmp-paris'', tp_MaxTTL = 0, tp_FirstTTL = 0, tp_Dscp = 0, tp_WaitSeconds = 0\<rparr>
     else if tr_type row = TaskTypePing then
       P_Ping \<lparr>pp_Target = target, pp_SourceIP = [], pp_Count = 5, pp_Size = 64, pp_Dscp = 0, pp_Timeout = 0\<rparr>
     else if tr_type row = TaskTypeStampSender then
       P_StampSender \<lparr>ssp_Target = target, ssp_TargetPort = port_of row, ssp_SourceIP = [], ssp_Dscp = 0, ssp_RequireClockSync = False,
         ssp_PacketCount = 20, ssp_PacketInterval = 100 * 1000000\<rparr>
     else P_StampReflector \<lparr>srp_ListenPort = port_of row, srp_SourceIP = [], srp_Dscp = 0, srp_RequireClockSync = False\<rparr>)"

definition wanted_schedule :: "task_row \<Rightarrow> TaskSchedule" where
  "wanted_schedule row = (if tr_type row = TaskTypeStampReflector then \<lparr>sch_Enabled = False, sch_IntervalSeconds = 0, sch_JitterPercent = 0\<rparr>
     else \<lparr>sch_Enabled = True, sch_IntervalSeconds = interval_of row, sch_JitterPercent = 10\<rparr>)"

definition wanted_task :: "task_row \<Rightarrow> int \<Rightarrow> string \<Rightarrow> Task" where
  "wanted_task row generation i = \<lparr>tk_TaskID = i, tk_Type = tr_type row, tk_Enabled = True, tk_Generation = generation,
     tk_Params = Some (wanted_params row), tk_Schedule = wanted_schedule row\<rparr>"

lemma parse_default_port: "integer_parse ''862'' = Some (862, [])"
  by (simp add: integer_parse_def is_digit_def Let_def)

lemma validate_type_Ret: "validate_type type = Ret x \<longleftrightarrow> type \<in> {''trace'', ''ping'', ''stamp-sender'', ''stamp-reflector''}"
  by (auto simp: validate_type_def task_types_def)

lemma validate_port_Ret:
  "validate_port (tr_type row) (tr_port row) = Ret p \<Longrightarrow>
   if task_has_port (tr_type row) then p = Some (port_of row) \<and> 1 \<le> port_of row \<and> port_of row \<le> 65535 else p = None"
  by (auto simp: validate_port_def port_of_def Let_def parse_default_port split: if_splits option.splits)

lemma validate_interval_Ret:
  "validate_interval (tr_type row) (tr_interval row) = Ret n \<Longrightarrow>
   if task_schedulable (tr_type row) then n = interval_of row \<and> 0 < n else n = 0"
  by (auto simp: validate_interval_def interval_of_def default_interval_def Let_def split: if_splits option.splits)

lemmas editor_type_defs = TaskType_defs task_type_defs

text \<open>The control plane and the agent read from the stored parameters what the row asked for.\<close>

lemma task_spec_params:
  assumes "duration_law L" "tr_type row \<in> {''trace'', ''ping'', ''stamp-sender'', ''stamp-reflector''}"
    and "task_has_port (tr_type row) \<Longrightarrow> p = Some (port_of row) \<and> 1 \<le> port_of row \<and> port_of row \<le> 65535"
    and "task_spec (tr_type row) (trim (tr_target row)) p n = Some (params, en, secs, jit)"
  shows "taskParamsFromProto L (setTaskParams L (tr_type row) params) = Some (wanted_params row)"
proof -
  have port: "in_s 64 (port_of row)" "int32 (port_of row) = port_of row" if "1 \<le> port_of row" "port_of row \<le> 65535"
    using that by (auto intro!: wrap_s_id simp: in_s_def)
  have dur: "pl_AsDuration L (Some (pl_New L 100000000)) = 100000000" using assms(1) by (simp add: duration_law_def in_s_def)
  have small: "int32 5 = 5" "int32 64 = 64" "int32 0 = 0" "int32 20 = 20" by (auto intro!: wrap_s_id simp: in_s_def)
  have ints: "in_s 64 5" "in_s 64 64" "in_s 64 0" "in_s 64 20" "in_s 64 100000000" by (simp_all add: in_s_def)
  note dec = d_str_def d_num_def d_field_def j_values_def fold_eq_def lower_char_def d_int_j_int
  from assms(2) consider "tr_type row = ''trace''" | "tr_type row = ''ping''" | "tr_type row = ''stamp-sender''" | "tr_type row = ''stamp-reflector''"
    by blast
  then show ?thesis
  proof cases
    case 1
    then show ?thesis using assms(4)
      by (auto simp: task_spec_def setTaskParams_def editor_type_defs trace_params_def taskParamsFromProto_def wanted_params_def dec small)
  next
    case 2
    then show ?thesis using assms(4)
      by (auto simp: task_spec_def setTaskParams_def editor_type_defs ping_params_def taskParamsFromProto_def wanted_params_def dec small ints)
  next
    case 3
    then show ?thesis using assms(3,4) port dur
      by (auto simp: task_spec_def setTaskParams_def editor_type_defs stamp_sender_params_def taskParamsFromProto_def wanted_params_def
          dec small ints j_port_def task_has_port_def)
  next
    case 4
    then show ?thesis using assms(3,4) port
      by (auto simp: task_spec_def setTaskParams_def editor_type_defs stamp_reflector_params_def taskParamsFromProto_def wanted_params_def
          dec small ints j_port_def task_has_port_def)
  qed
qed

text \<open>A task built from a row: fresh, and with what the row asked for.\<close>

definition built :: "proto_lib \<Rightarrow> task_row \<Rightarrow> editor_task \<Rightarrow> bool" where
  "built L row t \<longleftrightarrow> et_type t = tr_type row \<and> tr_type row \<in> {''trace'', ''ping'', ''stamp-sender'', ''stamp-reflector''}
     \<and> taskParamsFromProto L (setTaskParams L (et_type t) (et_params t)) = Some (wanted_params row)
     \<and> \<lparr>sch_Enabled = et_schedule_enabled t, sch_IntervalSeconds = et_interval t, sch_JitterPercent = et_jitter t\<rparr> = wanted_schedule row
     \<and> (et_schedule_enabled t \<longrightarrow> 0 < et_interval t)
     \<and> (task_has_port (tr_type row) \<longrightarrow> 1 \<le> port_of row \<and> port_of row \<le> 65535)
     \<and> (task_has_target (tr_type row) \<longrightarrow> target_regex (trim (tr_target row)))"

lemma build_task_Ret:
  assumes "duration_law L" "build_task row used = Ret t"
  shows "built L row t \<and> et_task_id t \<notin> set used"
proof -
  let ?ty = "tr_type row" and ?tg = "trim (tr_target row)"
  obtain p n params en secs jit where v: "validate_type ?ty = Ret ()" "validate_target ?ty ?tg = Ret ()"
      "validate_port ?ty (tr_port row) = Ret p" "validate_interval ?ty (tr_interval row) = Ret n"
      "task_spec ?ty ?tg p n = Some (params, en, secs, jit)"
    and t: "t = \<lparr>et_task_id = unique_task_id ?ty ?tg p used, et_type = ?ty, et_params = params, et_schedule_enabled = en,
        et_interval = secs, et_jitter = jit\<rparr>"
    using assms(2) by (auto simp: build_task_def Let_def split: option.splits)
  have ty: "?ty \<in> {''trace'', ''ping'', ''stamp-sender'', ''stamp-reflector''}" using v(1) by (simp add: validate_type_Ret)
  have port: "task_has_port ?ty \<Longrightarrow> p = Some (port_of row) \<and> 1 \<le> port_of row \<and> port_of row \<le> 65535"
    using validate_port_Ret [OF v(3)] by simp
  have iv: "task_schedulable ?ty \<Longrightarrow> n = interval_of row \<and> 0 < n" using validate_interval_Ret [OF v(4)] by simp
  have "taskParamsFromProto L (setTaskParams L ?ty params) = Some (wanted_params row)"
    by (rule task_spec_params [OF assms(1) ty port v(5)])
  moreover have "\<lparr>sch_Enabled = en, sch_IntervalSeconds = secs, sch_JitterPercent = jit\<rparr> = wanted_schedule row \<and> (en \<longrightarrow> 0 < secs)"
    using v(5) ty iv by (auto simp: task_spec_def wanted_schedule_def TaskType_defs task_schedulable_def)
  moreover have "task_has_target ?ty \<longrightarrow> target_regex ?tg" using v(2) by (auto simp: validate_target_def split: if_splits)
  moreover have "et_task_id t \<notin> set used" by (simp add: t unique_task_id_def ensure_unique_fresh)
  ultimately show ?thesis using t ty port by (simp add: built_def)
qed

lemma build_loop_Ret:
  assumes "duration_law L" "build_loop rows acc used = Ret ts"
  shows "\<exists>new. ts = rev acc @ new \<and> list_all2 (built L) rows new \<and> distinct (map et_task_id new)
    \<and> et_task_id ` set new \<inter> set used = {}"
  using assms(2)
proof (induction rows acc used rule: build_loop.induct)
  case (2 row rows acc used)
  then obtain t where t: "build_task row used = Ret t" "build_loop rows (t # acc) (et_task_id t # used) = Ret ts" by auto
  from 2(1) [OF t(2)] obtain new where new: "ts = rev (t # acc) @ new" "list_all2 (built L) rows new" "distinct (map et_task_id new)"
    "et_task_id ` set new \<inter> set (et_task_id t # used) = {}" by blast
  show ?case
    by (rule exI [of _ "t # new"]) (use new build_task_Ret [OF assms(1) t(1)] in auto)
qed simp

section \<open>What the transaction leaves\<close>

lemma ctl_query_Some: "ctl_query env q d = (Some a, d') \<Longrightarrow> q (d\<lparr>cd_stmts := Suc (cd_stmts d)\<rparr>) = (Some a, d')"
  by (auto simp: ctl_query_def Let_def split: fault.splits)

definition fits :: "editor_task \<Rightarrow> bool" where
  "fits t \<longleftrightarrow> in_s 32 (et_interval t) \<and> in_s 32 (et_jitter t)"

lemma insert_tasks_Some:
  "insert_tasks env u g ts d = (Some x, d') \<Longrightarrow>
   cd_devices d' = cd_devices d \<and> cd_configs d' = cd_configs d \<and> cd_tasks d' = cd_tasks d @ map (stored_row u g) ts \<and> list_all fits ts"
proof (induction env u g ts d rule: insert_tasks.induct)
  case (2 env u g t ts d)
  then obtain d1 where d1: "insert_task env u g t d = (Some (), d1)" "insert_tasks env u g ts d1 = (Some x, d')"
    by (cases "insert_task env u g t d") (auto split: option.splits)
  have "cd_devices d1 = cd_devices d" "cd_configs d1 = cd_configs d" "cd_tasks d1 = cd_tasks d @ [stored_row u g t]" "fits t"
    using d1(1) [unfolded insert_task_def, THEN ctl_query_Some] by (auto simp: fits_def split: if_splits)
  then show ?case using 2(1) [OF d1(1) [symmetric] HOL.refl d1(2)] by simp
qed simp

definition bumped :: "db_env \<Rightarrow> uuid \<Rightarrow> time \<Rightarrow> config_record \<Rightarrow> config_record" where
  "bumped env u now c = (if co_id c = u then c\<lparr>co_generation := co_generation c + 1, co_updated_at := de_ts env now\<rparr> else c)"

lemma bump_generation_Some:
  assumes "bump_generation env u now d = (Some g, d')"
  shows "\<exists>c. filter (\<lambda>c. co_id c = u) (cd_configs d) = [c] \<and> g = co_generation c + 1 \<and> in_s 32 g
    \<and> cd_devices d' = cd_devices d \<and> cd_tasks d' = cd_tasks d \<and> cd_configs d' = map (bumped env u now) (cd_configs d)"
  using assms [unfolded bump_generation_def, THEN ctl_query_Some]
  by (auto simp: bumped_def [abs_def] split: list.splits if_splits)

text \<open>What the tables hold, without the count of statements.\<close>

definition contents :: "control_db \<Rightarrow> (string \<times> uuid) list \<times> config_record list \<times> stored_task list" where
  "contents d = (cd_devices d, cd_configs d, cd_tasks d)"

lemma contents_stmts [simp]: "contents (d\<lparr>cd_stmts := n\<rparr>) = contents d"
  by (simp add: contents_def)

lemma add_tasks_Ret:
  assumes "add_tasks env X now cid tasks d = (Ret g, d')"
  shows "\<exists>u c. ec_dump X cid = Some u \<and> filter (\<lambda>c. co_id c = u) (cd_configs d) = [c] \<and> g = co_generation c + 1 \<and> in_s 32 g
    \<and> contents d' = (cd_devices d, map (bumped env u now) (cd_configs d), cd_tasks d @ map (stored_row u g) tasks) \<and> list_all fits tasks"
proof -
  let ?d0 = "d\<lparr>cd_stmts := Suc (cd_stmts d)\<rparr>"
  obtain u where u: "ec_dump X cid = Some u" using assms by (auto simp: add_tasks_def split: option.splits)
  obtain d1 d2 where s: "bump_generation env u now ?d0 = (Some g, d1)" "insert_tasks env u g tasks d1 = (Some (), d2)"
      "d' = d2\<lparr>cd_stmts := Suc (cd_stmts d2)\<rparr>"
    using assms u by (auto simp: add_tasks_def Let_def split: tx_begin.splits option.splits prod.splits fault.splits)
  show ?thesis
    using u bump_generation_Some [OF s(1)] insert_tasks_Some [OF s(2)] s(3) by (auto simp: contents_def)
qed

lemma add_tasks_Err:
  assumes "add_tasks env X now cid tasks d = (Err m, d')" "\<forall>n. de_fault env n \<noteq> FLost"
  shows "contents d' = contents d"
  using assms by (auto simp: add_tasks_def Let_def split: tx_begin.splits option.splits prod.splits fault.splits)

lemma add_tasks_no_panic: "fst (add_tasks env X now cid tasks d) \<noteq> Panic"
  by (auto simp: add_tasks_def Let_def split: tx_begin.splits option.splits prod.splits fault.splits)

lemma list_tasks_Some:
  "list_tasks_for_config env X cid d = (Some ts, d') \<Longrightarrow>
   \<exists>u. ec_dump X cid = Some u \<and> ts = ec_sort X (filter (\<lambda>t. at_config t = u) (cd_tasks d)) \<and> contents d' = contents d"
  by (auto simp: list_tasks_for_config_def dest!: ctl_query_Some split: option.splits)

lemma list_tasks_contents: "contents (snd (list_tasks_for_config env X cid d)) = contents d"
  by (auto simp: list_tasks_for_config_def ctl_query_def Let_def split: option.splits fault.splits)

lemma save_tasks_added:
  assumes "save_tasks env X now e d = (Ret e', d')" "ed_flash e' = Some (Added n g)" "duration_law L" "ecto_law X"
  shows "\<exists>u c new. ec_dump X (ed_config e) = Some u \<and> filter (\<lambda>c. co_id c = u) (cd_configs d) = [c]
    \<and> g = co_generation c + 1 \<and> in_s 32 g \<and> n = length new \<and> list_all2 (built L) (ed_rows e) new \<and> list_all fits new
    \<and> distinct (map et_task_id new) \<and> et_task_id ` set new \<inter> at_task_id ` {t \<in> set (cd_tasks d). at_config t = u} = {}
    \<and> contents d' = (cd_devices d, map (bumped env u now) (cd_configs d), cd_tasks d @ map (stored_row u g) new)"
proof -
  obtain new d1 where b: "build_tasks env X (ed_rows e) (ed_config e) d = (Ret new, d1)"
      "add_tasks env X now (ed_config e) new d1 = (Ret g, d')" "n = length new"
    using assms(1,2) by (auto simp: save_tasks_def split: prod.splits outcome.splits)
  obtain ts where l: "list_tasks_for_config env X (ed_config e) d = (Some ts, d1)" "build_loop (ed_rows e) [] (map at_task_id ts) = Ret new"
    using b(1) by (auto simp: build_tasks_def split: if_splits prod.splits option.splits)
  obtain u where u: "ec_dump X (ed_config e) = Some u" "ts = ec_sort X (filter (\<lambda>t. at_config t = u) (cd_tasks d))" "contents d1 = contents d"
    using list_tasks_Some [OF l(1)] by blast
  have d1: "cd_devices d1 = cd_devices d" "cd_configs d1 = cd_configs d" "cd_tasks d1 = cd_tasks d" using u(3) by (simp_all add: contents_def)
  have new: "list_all2 (built L) (ed_rows e) new" "distinct (map et_task_id new)" "et_task_id ` set new \<inter> at_task_id ` set ts = {}"
    using build_loop_Ret [OF assms(3) l(2)] by auto
  obtain c where c: "filter (\<lambda>c. co_id c = u) (cd_configs d) = [c]" "g = co_generation c + 1" "in_s 32 g" "list_all fits new"
      "contents d' = (cd_devices d, map (bumped env u now) (cd_configs d), cd_tasks d @ map (stored_row u g) new)"
    using add_tasks_Ret [OF b(2)] unfolding d1 u(1) by (elim exE conjE) simp
  have "et_task_id ` set new \<inter> at_task_id ` {t \<in> set (cd_tasks d). at_config t = u} = {}"
    using new(3) mset_eq_setD [OF assms(4) [unfolded ecto_law_def, THEN conjunct2, rule_format]] unfolding u(2) by simp
  then show ?thesis using u(1) c b(3) new(1,2) by blast
qed

text \<open>The editor never damages the tables, whatever happens: they keep their contents, or the whole batch is in them.\<close>

lemma save_tasks_contents:
  assumes "save_tasks env X now e d = (r, d')" "\<forall>n. de_fault env n \<noteq> FLost"
  shows "contents d' = contents d \<or> (\<exists>g tasks d1. contents d1 = contents d \<and> add_tasks env X now (ed_config e) tasks d1 = (Ret g, d')
     \<and> r = Ret (e\<lparr>ed_rows := [], ed_flash := Some (Added (length tasks) g)\<rparr>))"
proof (cases "build_tasks env X (ed_rows e) (ed_config e) d")
  case (Pair b d1)
  have c: "contents d1 = contents d"
    using Pair list_tasks_contents [of env X "ed_config e" d] by (auto simp: build_tasks_def split: if_splits prod.splits option.splits)
  show ?thesis
  proof (cases b)
    case (Ret tasks)
    obtain a d2 where a: "add_tasks env X now (ed_config e) tasks d1 = (a, d2)" by fastforce
    show ?thesis
    proof (cases a)
      case (Ret g)
      then show ?thesis using assms(1) Pair \<open>b = Ret tasks\<close> a c by (auto simp: save_tasks_def)
    next
      case (Err m)
      then show ?thesis using assms Pair \<open>b = Ret tasks\<close> a c add_tasks_Err [of env X now "ed_config e" tasks d1 m d2]
        by (auto simp: save_tasks_def)
    next
      case Panic
      then show ?thesis using add_tasks_no_panic [of env X now "ed_config e" tasks d1] a by simp
    qed
  qed (use assms(1) Pair c in \<open>auto simp: save_tasks_def\<close>)
qed

section \<open>What the control plane reads\<close>

text \<open>\<^verbatim>\<open>EXTRACT(EPOCH FROM t)::bigint\<close>: whole seconds, rounded.\<close>

definition epoch :: "time \<Rightarrow> int" where
  "epoch t = (if t < 0 then - ((second div 2 - t) div second) else (t + second div 2) div second)"

definition config_columns :: "ecto \<Rightarrow> config_record \<Rightarrow> config_row" where
  "config_columns X c = \<lparr>cr_id = ec_text X (co_id c), cr_generation = co_generation c, cr_report_endpoint = co_report_endpoint c,
     cr_report_batch = co_report_batch c, cr_report_interval = co_report_interval c, cr_report_timeout = co_report_timeout c,
     cr_updated_at = epoch (co_updated_at c), cr_task_id = None, cr_type = None, cr_enabled = None, cr_task_generation = None,
     cr_params = None, cr_interval = None, cr_jitter = None, cr_schedule_enabled = None\<rparr>"

definition task_columns :: "ecto \<Rightarrow> config_record \<Rightarrow> stored_task \<Rightarrow> config_row" where
  "task_columns X c t = (config_columns X c)\<lparr>cr_task_id := Some (at_task_id t), cr_type := Some (at_type t), cr_enabled := Some (at_enabled t),
     cr_task_generation := Some (at_generation t), cr_params := Some (at_params t), cr_interval := Some (at_interval t),
     cr_jitter := Some (at_jitter t), cr_schedule_enabled := Some (at_schedule_enabled t)\<rparr>"

text \<open>The query joins the device with its configuration and, on the left, with its tasks.\<close>

definition config_rows :: "ecto \<Rightarrow> control_db \<Rightarrow> string \<Rightarrow> config_row list" where
  "config_rows X d serial =
     concat (map (\<lambda>(_, u). concat (map (\<lambda>c. case filter (\<lambda>t. at_config t = u) (cd_tasks d) of
         [] \<Rightarrow> [config_columns X c]
       | ts \<Rightarrow> map (task_columns X c) ts) (filter (\<lambda>c. co_id c = u) (cd_configs d))))
       (filter (\<lambda>dev. fst dev = serial) (cd_devices d)))"

text \<open>It does not say in which order.\<close>

definition answers :: "ecto \<Rightarrow> control_db \<Rightarrow> string \<Rightarrow> query_result option \<Rightarrow> bool" where
  "answers X d serial q \<longleftrightarrow> (\<exists>rows. mset rows = mset (config_rows X d serial) \<and> q = Some \<lparr>qr_rows = map Some rows, qr_err = False\<rparr>)"

lemma answered_rows:
  assumes "filter (\<lambda>dev. fst dev = sid) (cd_devices d) = [(sid, u)]" "filter (\<lambda>c. co_id c = u) (cd_configs d) = [c]"
    and "answers X d sid q"
  shows "\<exists>res. q = Some res \<and> set (task_rows (qr_rows res)) = task_columns X c ` {t \<in> set (cd_tasks d). at_config t = u}"
proof -
  obtain rows where r: "mset rows = mset (config_rows X d sid)" "q = Some \<lparr>qr_rows = map Some rows, qr_err = False\<rparr>"
    using assms(3) by (auto simp: answers_def)
  have "set rows = set (config_rows X d sid)" using r(1) by (metis set_mset_mset)
  then have "set (task_rows (map Some rows)) = {r \<in> set (config_rows X d sid). cr_task_id r \<noteq> None}" by (auto simp: task_rows_def)
  also have "\<dots> = task_columns X c ` {t \<in> set (cd_tasks d). at_config t = u}"
  proof -
    let ?ts = "filter (\<lambda>t. at_config t = u) (cd_tasks d)"
    have ts: "{t \<in> set (cd_tasks d). at_config t = u} = set ?ts" by simp
    have "config_rows X d sid = (case ?ts of [] \<Rightarrow> [config_columns X c] | ts \<Rightarrow> map (task_columns X c) ts)"
      unfolding config_rows_def assms(1) by (simp add: assms(2))
    then show ?thesis unfolding ts
      by (cases ?ts) (auto simp: config_columns_def task_columns_def)
  qed
  finally show ?thesis using r(2) by simp
qed

section \<open>From the page to the agent\<close>

lemma filter_bumped:
  "filter (\<lambda>c. co_id c = u) cs = [c] \<Longrightarrow> filter (\<lambda>c. co_id c = u) (map (bumped env u now) cs) = [bumped env u now c]"
proof -
  have "co_id (bumped env u now c) = co_id c" for c by (simp add: bumped_def)
  then have "filter (\<lambda>c. co_id c = u) (map (bumped env u now) cs) = map (bumped env u now) (filter (\<lambda>c. co_id c = u) cs)"
    by (simp add: filter_map o_def)
  then show "filter (\<lambda>c. co_id c = u) cs = [c] \<Longrightarrow> ?thesis" by simp
qed

lemma served_new:
  assumes "serves L (task_columns X c (stored_row u g x)) t" "built L row x" "fits x" "in_s 32 g"
  shows "t = wanted_task row g (et_task_id x)"
proof -
  have "int32 g = g" "int32 (et_interval x) = et_interval x" "int32 (et_jitter x) = et_jitter x"
    using assms(3,4) by (auto intro!: wrap_s_id simp: fits_def)
  moreover have "et_type x = tr_type row" "taskParamsFromProto L (setTaskParams L (tr_type row) (et_params x)) = Some (wanted_params row)"
    "\<lparr>sch_Enabled = et_schedule_enabled x, sch_IntervalSeconds = et_interval x, sch_JitterPercent = et_jitter x\<rparr> = wanted_schedule row"
    using assms(2) by (auto simp: built_def)
  ultimately show ?thesis
    using assms(1) by (intro Task.equality) (simp_all add: serves_def task_columns_def stored_row_def wanted_task_def opt_def)
qed

lemma new_row_wanted:
  assumes "serves L (task_columns X c st) a" "tk_TaskID a = map et_task_id new ! k" "st \<in> old \<union> stored_row u g ` set new"
    and "et_task_id ` set new \<inter> at_task_id ` old = {}" "distinct (map et_task_id new)" "list_all2 (built L) rows new" "list_all fits new" "in_s 32 g"
    and "k < length new"
  shows "a = wanted_task (rows ! k) g (map et_task_id new ! k)"
proof -
  have i: "at_task_id st = et_task_id (new ! k)" using assms(1,2,9) by (simp add: serves_def task_columns_def)
  then have "at_task_id st \<in> et_task_id ` set new" using assms(9) by simp
  then obtain x where x: "x \<in> set new" "st = stored_row u g x" using assms(3,4) by blast
  then have "x = new ! k" using i assms(5,9) by (auto simp: stored_row_def distinct_map dest: inj_onD)
  moreover have "built L (rows ! k) (new ! k)" using assms(6,9) by (rule list_all2_nthD2)
  moreover have "fits x" using assms(7) x(1) by (simp add: list_all_iff)
  ultimately show ?thesis using served_new [of L X c u g x a "rows ! k"] assms(1,8,9) x(2) by simp
qed

lemma built_known: "built L row x \<Longrightarrow> known_type (et_type x)"
  by (auto simp: built_def known_type_def TaskType_defs)

text \<open>The rows that answer a device after a save.\<close>

lemma rows_after_save:
  assumes "ecto_law X" "duration_law L" "filter (\<lambda>dev. fst dev = sid) (cd_devices d) = [(sid, u)]" "ed_config e = ec_text X u"
    and "save_tasks env X now e d = (Ret e', d')" "ed_flash e' = Some (Added n g)" "answers X d' sid q"
  obtains c new res where "q = Some res" "in_s 32 g" "n = length new" "list_all2 (built L) (ed_rows e) new" "list_all fits new"
    "distinct (map et_task_id new)" "et_task_id ` set new \<inter> at_task_id ` {t \<in> set (cd_tasks d). at_config t = u} = {}"
    "set (task_rows (qr_rows res)) = task_columns X c ` ({t \<in> set (cd_tasks d). at_config t = u} \<union> stored_row u g ` set new)"
proof -
  have u: "ec_dump X (ed_config e) = Some u" using assms(1,4) by (simp add: ecto_law_def)
  obtain c new where s: "filter (\<lambda>c. co_id c = u) (cd_configs d) = [c]" "in_s 32 g" "n = length new" "list_all2 (built L) (ed_rows e) new"
      "list_all fits new" "distinct (map et_task_id new)" "et_task_id ` set new \<inter> at_task_id ` {t \<in> set (cd_tasks d). at_config t = u} = {}"
      "contents d' = (cd_devices d, map (bumped env u now) (cd_configs d), cd_tasks d @ map (stored_row u g) new)"
    using save_tasks_added [OF assms(5,6,2,1)] unfolding u by (elim exE conjE) simp
  have d': "cd_devices d' = cd_devices d" "cd_configs d' = map (bumped env u now) (cd_configs d)" "cd_tasks d' = cd_tasks d @ map (stored_row u g) new"
    using s(8) by (simp_all add: contents_def)
  have f: "filter (\<lambda>dev. fst dev = sid) (cd_devices d') = [(sid, u)]" "filter (\<lambda>c. co_id c = u) (cd_configs d') = [bumped env u now c]"
    unfolding d'(1,2) using assms(3) filter_bumped [OF s(1)] by simp_all
  obtain res where res: "q = Some res"
      "set (task_rows (qr_rows res)) = task_columns X (bumped env u now c) ` {t \<in> set (cd_tasks d'). at_config t = u}"
    using answered_rows [OF f assms(7)] by blast
  have "{t \<in> set (cd_tasks d'). at_config t = u} = {t \<in> set (cd_tasks d). at_config t = u} \<union> stored_row u g ` set new"
    unfolding d'(3) by (auto simp: stored_row_def)
  then show thesis using that [OF res(1) s(2-7)] res(2) by simp
qed

lemma columns_ids: "{i. \<exists>r \<in> task_columns X c ` S. cr_task_id r = Some i} = at_task_id ` S"
  by (auto simp: task_columns_def)

text \<open>
  Property C34. What a user saves on the page is what the agent runs. After a save that the page reports as successful, an agent
  that has not seen the new generation yet and gets an answer from the tables on its next tick runs the tasks stored
  before and one more for every row of the form, under new identifiers that clash with nothing; each of the new ones has exactly the
  type, the target, the port and the interval the user typed, in the new generation; and a task that ran in
  its stored generation is not restarted.
\<close>

theorem saved_tasks_run:
  assumes "ecto_law X" "duration_law L" "filter (\<lambda>dev. fst dev = sid) (cd_devices d) = [(sid, u)]" "ed_config e = ec_text X u"
    and "save_tasks env X now e d = (Ret e', d')" "ed_flash e' = Some (Added n g)"
    and "\<forall>t \<in> set (cd_tasks d). at_config t = u \<longrightarrow> known_type (at_type t)"
    and "agent_reach L s" "\<forall>i rt. sv_running (as_supervisor s) i = Some rt \<longrightarrow> tk_Generation (rt_Spec rt) \<noteq> g"
    and "answers X d' sid (query sid)" "rpc = GetAgentConfig L query sid" "rpc = Ret pb" "orders_ok L rpc rs ds (as_supervisor s)"
  defines "old \<equiv> {t \<in> set (cd_tasks d). at_config t = u}"
    and "run \<equiv> sv_running (as_supervisor s)" and "run' \<equiv> sv_running (as_supervisor (agent_tick L rpc rs ds s))"
  shows "\<exists>ids. length ids = n \<and> length (ed_rows e) = n \<and> distinct ids \<and> at_task_id ` old \<inter> set ids = {}
    \<and> dom run' = at_task_id ` old \<union> set ids
    \<and> (\<forall>k < n. \<exists>rt. run' (ids ! k) = Some rt \<and> rt_Spec rt = wanted_task (ed_rows e ! k) g (ids ! k))
    \<and> (\<forall>i rt. run i = Some rt \<longrightarrow> i \<in> at_task_id ` old \<longrightarrow>
         (\<forall>t \<in> old. at_task_id t = i \<longrightarrow> int32 (at_generation t) = tk_Generation (rt_Spec rt)) \<longrightarrow> run' i = Some rt)"
proof -
  obtain c new res where s: "query sid = Some res" "in_s 32 g" "n = length new" "list_all2 (built L) (ed_rows e) new" "list_all fits new"
      "distinct (map et_task_id new)" "et_task_id ` set new \<inter> at_task_id ` old = {}"
      "set (task_rows (qr_rows res)) = task_columns X c ` (old \<union> stored_row u g ` set new)"
    using rows_after_save [OF assms(1-6,10)] unfolding old_def .
  have new_known: "known_type (et_type x)" if "x \<in> set new" for x
    using s(4) that built_known by (metis in_set_conv_nth list_all2_nthD2)
  have known: "list_all (\<lambda>r. known_type (opt [] (cr_type r))) (task_rows (qr_rows res))"
    unfolding list_all_iff s(8) using assms(7) new_known by (auto simp: old_def opt_def task_columns_def stored_row_def)
  note tick = answered_effect [OF assms(8,13,11) s(1) assms(12) known, unfolded s(8), folded run_def run'_def]
  let ?ids = "map et_task_id new"
  have dom: "dom run' = at_task_id ` old \<union> set ?ids" unfolding tick(1) columns_ids by (simp add: image_Un image_image stored_row_def)
  have fresh: "\<exists>rt. run' (?ids ! k) = Some rt \<and> rt_Spec rt = wanted_task (ed_rows e ! k) g (?ids ! k)" if k: "k < n" for k
  proof -
    have "?ids ! k \<in> dom run'" unfolding dom using k s(3) by simp
    then obtain rt where rt: "run' (?ids ! k) = Some rt" by blast
    obtain st a where st: "st \<in> old \<union> stored_row u g ` set new" "serves L (task_columns X c st) a" "tk_TaskID a = ?ids ! k"
        "tk_Generation (rt_Spec rt) = tk_Generation a" "rt_Spec rt = a \<or> run (?ids ! k) = Some rt"
      using tick(2) [OF rt] by blast
    have "a = wanted_task (ed_rows e ! k) g (?ids ! k)"
      using new_row_wanted [OF st(2,3,1) s(7,6,4,5,2)] k s(3) by simp
    moreover from this have "run (?ids ! k) \<noteq> Some rt" using assms(9) st(4) unfolding run_def by (auto simp: wanted_task_def)
    ultimately show ?thesis using rt st(5) by blast
  qed
  have keep: "run' i = Some rt" if r: "run i = Some rt" "i \<in> at_task_id ` old"
      "\<forall>t \<in> old. at_task_id t = i \<longrightarrow> int32 (at_generation t) = tk_Generation (rt_Spec rt)" for i rt
  proof (rule tick(3) [OF r(1)])
    show "i \<in> dom run'" unfolding dom using r(2) by blast
    have "i \<notin> et_task_id ` set new" using r(2) s(7) by blast
    then show "\<forall>r \<in> task_columns X c ` (old \<union> stored_row u g ` set new). cr_task_id r = Some i \<longrightarrow>
        int32 (opt 0 (cr_task_generation r)) = tk_Generation (rt_Spec rt)"
      using r(3) by (auto simp: task_columns_def stored_row_def opt_def)
  qed
  have len: "length (ed_rows e) = n" using s(3,4) list_all2_lengthD by blast
  have disj: "at_task_id ` old \<inter> set ?ids = {}" using s(7) by auto
  show ?thesis
    by (rule exI [of _ ?ids]) (use dom fresh keep len disj s(3,6) in simp)
qed

text \<open>A user adds one ping task for a device that has none.\<close>

definition demo_ecto :: ecto where
  "demo_ecto = \<lparr>ec_dump = (\<lambda>s. Some (word_of_int (digits_value 0 s))), ec_text = (\<lambda>u. digits (unat u)),
     ec_sort = (\<lambda>ts. ts)\<rparr>"

definition demo_ctl_env :: db_env where
  "demo_ctl_env = \<lparr>de_fault = (\<lambda>_. FNone), de_begin = (\<lambda>_. TxOk), de_uuid = (\<lambda>n. of_nat n), de_ts = (\<lambda>t. t),
     de_string = (\<lambda>_. []), de_parse = (\<lambda>_. None)\<rparr>"

definition demo_config :: config_record where
  "demo_config = \<lparr>co_id = 7, co_generation = 1, co_report_endpoint = ''nats'', co_report_batch = 1, co_report_interval = 60,
     co_report_timeout = 10, co_updated_at = 0\<rparr>"

definition demo_control :: control_db where
  "demo_control = \<lparr>cd_devices = [(''s'', 7)], cd_configs = [demo_config], cd_tasks = [], cd_stmts = 0\<rparr>"

definition demo_form :: task_row where
  "demo_form = \<lparr>tr_ref = ''row-1'', tr_type = ''ping'', tr_target = '' h.io'', tr_port = [], tr_interval = ''30 ''\<rparr>"

definition demo_editor :: editor where
  "demo_editor = \<lparr>ed_config = ec_text demo_ecto 7, ed_rows = [demo_form], ed_flash = None\<rparr>"

lemma demo_ecto_law: "ecto_law demo_ecto"
  by (simp add: ecto_law_def demo_ecto_def digits_value_digits)

lemma demo_ecto_sort: "ec_sort demo_ecto ts = ts"
  by (simp add: demo_ecto_def)

lemma demo_built:
  "build_task demo_form [] = Ret \<lparr>et_task_id = ''ping-h-io'', et_type = ''ping'', et_params = JObj [(''target'', JStr ''h.io''), (''count'', j_int 5), (''size'', j_int 64)],
     et_schedule_enabled = True, et_interval = 30, et_jitter = 10\<rparr>"
proof -
  have t: "trim '' h.io'' = ''h.io''" "trim ''30 '' = ''30''" by (simp_all add: trim_def trim_with_def white_def Let_def)
  have "sanitize_target ''h.io'' = ''h-io''"
    by (simp add: sanitize_target_def trim_with_def lower_char_def id_char_def Let_def)
  then have "unique_task_id ''ping'' ''h.io'' None [] = ''ping-h-io''"
    by (simp add: unique_task_id_def ensure_unique.simps candidate_def)
  moreover have "target_regex ''h.io''" by (simp add: target_regex_def target_char_def Let_def)
  moreover have "integer_parse ''30'' = Some (30, [])" by (simp add: integer_parse_def is_digit_def Let_def)
  ultimately show ?thesis
    by (simp add: build_task_def demo_form_def t validate_type_def validate_target_def validate_port_def validate_interval_def
        task_types_def task_has_target_def task_has_port_def task_schedulable_def task_spec_def Let_def)
qed

definition demo_task_built :: editor_task where
  "demo_task_built = \<lparr>et_task_id = ''ping-h-io'', et_type = ''ping'', et_params = JObj [(''target'', JStr ''h.io''), (''count'', j_int 5), (''size'', j_int 64)],
     et_schedule_enabled = True, et_interval = 30, et_jitter = 10\<rparr>"

lemma demo_saved:
  obtains e' d' c where "save_tasks demo_ctl_env demo_ecto 0 demo_editor demo_control = (Ret e', d')" "ed_flash e' = Some (Added 1 2)"
    "config_rows demo_ecto d' ''s'' = [task_columns demo_ecto c (stored_row 7 2 demo_task_built)]"
proof -
  have u: "ec_dump demo_ecto (ec_text demo_ecto 7) = Some 7" using demo_ecto_law by (simp add: ecto_law_def)
  have b: "build_tasks demo_ctl_env demo_ecto [demo_form] (ec_text demo_ecto 7) demo_control = (Ret [demo_task_built], demo_control\<lparr>cd_stmts := 1\<rparr>)"
    by (simp add: build_tasks_def list_tasks_for_config_def u demo_ecto_sort ctl_query_def Let_def demo_ctl_env_def demo_control_def demo_built demo_task_built_def)
  have "\<exists>d' c. add_tasks demo_ctl_env demo_ecto 0 (ec_text demo_ecto 7) [demo_task_built] (demo_control\<lparr>cd_stmts := 1\<rparr>) = (Ret 2, d')
      \<and> cd_devices d' = [(''s'', 7)] \<and> cd_configs d' = [c] \<and> co_id c = 7 \<and> cd_tasks d' = [stored_row 7 2 demo_task_built]"
    by (simp add: add_tasks_def u Let_def demo_ctl_env_def bump_generation_def ctl_query_def demo_control_def demo_config_def insert_task_def in_s_def
        demo_task_built_def)
  then obtain d' c where a: "add_tasks demo_ctl_env demo_ecto 0 (ec_text demo_ecto 7) [demo_task_built] (demo_control\<lparr>cd_stmts := 1\<rparr>) = (Ret 2, d')"
    "cd_devices d' = [(''s'', 7)]" "cd_configs d' = [c]" "co_id c = 7" "cd_tasks d' = [stored_row 7 2 demo_task_built]" by blast
  show thesis
  proof (rule that)
    show "save_tasks demo_ctl_env demo_ecto 0 demo_editor demo_control = (Ret (demo_editor\<lparr>ed_rows := [], ed_flash := Some (Added 1 2)\<rparr>), d')"
      using a(1) by (simp add: save_tasks_def demo_editor_def b)
    show "config_rows demo_ecto d' ''s'' = [task_columns demo_ecto c (stored_row 7 2 demo_task_built)]"
      using a(2-5) by (simp add: config_rows_def stored_row_def)
  qed simp
qed

theorem saved_tasks_run_witness:
  "\<exists>e' d' s pb ds i rt. save_tasks demo_ctl_env demo_ecto 0 demo_editor demo_control = (Ret e', d') \<and> agent_reach demo_lib s
     \<and> dom (sv_running (as_supervisor s)) = {} \<and> dom (sv_running (as_supervisor (agent_tick demo_lib (Ret pb) [] ds s))) = {i}
     \<and> sv_running (as_supervisor (agent_tick demo_lib (Ret pb) [] ds s)) i = Some rt \<and> rt_Spec rt = wanted_task demo_form 2 i"
proof -
  obtain e' d' c where sv: "save_tasks demo_ctl_env demo_ecto 0 demo_editor demo_control = (Ret e', d')" "ed_flash e' = Some (Added 1 2)"
    "config_rows demo_ecto d' ''s'' = [task_columns demo_ecto c (stored_row 7 2 demo_task_built)]" by (rule demo_saved)
  let ?r = "task_columns demo_ecto c (stored_row 7 2 demo_task_built)"
  let ?q = "\<lambda>_ :: string. Some \<lparr>qr_rows = [Some ?r], qr_err = False\<rparr>"
  obtain s where s: "agent_reach demo_lib s" "dom (sv_running (as_supervisor s)) = {}"
    by (rule demo_start [where rpc = "Ret pb_config_zero" and ids = "[]"])
      (auto simp: pullConfiguration_def agentConfigFromProto_def pb_config_zero_def)
  have "\<exists>pb. GetAgentConfig demo_lib ?q ''s'' = Ret pb"
    by (simp add: GetAgentConfig_def loadAgentConfig_def task_columns_def stored_row_def demo_task_built_def row_task_def Let_def opt_def setTaskParams_def
        task_type_defs ping_params_def d_str_def d_num_def d_field_def j_values_def fold_eq_def lower_char_def d_int_j_int in_s_def)
  then obtain pb where pb: "GetAgentConfig demo_lib ?q ''s'' = Ret pb" by blast
  have rows: "task_rows [Some ?r] = [?r]" "known_type (opt [] (cr_type ?r))" "cr_task_id ?r = Some ''ping-h-io''"
    by (simp_all add: task_rows_def task_columns_def stored_row_def demo_task_built_def opt_def known_type_def TaskType_defs)
  obtain cf where cf: "agentConfigFromProto demo_lib (Some pb) = Ret cf" "map tk_TaskID (ac_Tasks cf) = [''ping-h-io'']"
    using served_config [OF pb HOL.refl] rows
    by (cases "agentConfigFromProto demo_lib (Some pb)") (auto simp: serves_def list_all2_Cons1)
  have "set (map tk_TaskID (ac_Tasks cf)) = {''ping-h-io''}" unfolding cf(2) by simp
  then have ord: "orders_ok demo_lib (Ret pb) [] [''ping-h-io''] (as_supervisor s)"
    using s(2) cf(1) by (simp add: orders_ok_def pullConfiguration_def visits_def)
  have law: "duration_law demo_lib" by (simp add: duration_law_def demo_lib_def)
  obtain ids rt where "length ids = 1" "dom (sv_running (as_supervisor (agent_tick demo_lib (Ret pb) [] [''ping-h-io''] s))) = set ids"
      "sv_running (as_supervisor (agent_tick demo_lib (Ret pb) [] [''ping-h-io''] s)) (ids ! 0) = Some rt" "rt_Spec rt = wanted_task demo_form 2 (ids ! 0)"
    using saved_tasks_run [OF demo_ecto_law law, where sid = "''s''" and d = demo_control and u = 7 and e = demo_editor and query = ?q
        and rs = "[]" and ds = "[''ping-h-io'']" and s = s and rpc = "Ret pb" and pb = pb, OF _ _ sv(1,2)] s sv(3) pb ord
    by (auto simp: demo_control_def demo_editor_def answers_def)
  moreover from this have "set ids = {ids ! 0}" by (cases ids) auto
  ultimately show ?thesis using sv(1) s by metis
qed

section \<open>All or nothing\<close>

text \<open>
  Property C35. A save is all or nothing. If the page reports that tasks were added, the generation of the configuration has risen by
  one, the whole form is stored under it, one task for every row with the type of the row, under identifiers that
  are new to the configuration and differ from each other, and no other row has changed; if it reports anything else, or crashes, the tables are as they
  were, as long as the answer to a statement is not lost.
\<close>

theorem save_tasks_all_or_nothing:
  assumes "save_tasks env X now e d = (r, d')" "\<forall>n. de_fault env n \<noteq> FLost" "duration_law L" "ecto_law X"
  shows "case r of
      Ret e' \<Rightarrow> (case ed_flash e' of
          Some (Added n g) \<Rightarrow> ed_rows e' = [] \<and> (\<exists>u c new. ec_dump X (ed_config e) = Some u \<and> filter (\<lambda>c. co_id c = u) (cd_configs d) = [c]
            \<and> g = co_generation c + 1 \<and> n = length new \<and> list_all2 (\<lambda>row t. et_type t = tr_type row) (ed_rows e) new
            \<and> distinct (map et_task_id new) \<and> et_task_id ` set new \<inter> at_task_id ` {t \<in> set (cd_tasks d). at_config t = u} = {}
            \<and> contents d' = (cd_devices d, map (bumped env u now) (cd_configs d), cd_tasks d @ map (stored_row u g) new))
        | _ \<Rightarrow> ed_rows e' = ed_rows e \<and> contents d' = contents d)
    | _ \<Rightarrow> contents d' = contents d"
proof -
  have kept: "contents d' = contents d" if "\<And>n g. r \<noteq> Ret (e\<lparr>ed_rows := [], ed_flash := Some (Added n g)\<rparr>)"
    using save_tasks_contents [OF assms(1,2)] that by blast
  show ?thesis
  proof (cases r)
    case (Ret e')
    show ?thesis
    proof (cases "\<exists>n g. ed_flash e' = Some (Added n g)")
      case True
      then obtain n g where f: "ed_flash e' = Some (Added n g)" by blast
      have "ed_rows e' = []" using assms(1) Ret f by (auto simp: save_tasks_def split: prod.splits outcome.splits)
      moreover obtain u c new where "ec_dump X (ed_config e) = Some u" "filter (\<lambda>c. co_id c = u) (cd_configs d) = [c]" "g = co_generation c + 1"
          "n = length new" "list_all2 (built L) (ed_rows e) new" "distinct (map et_task_id new)"
          "et_task_id ` set new \<inter> at_task_id ` {t \<in> set (cd_tasks d). at_config t = u} = {}"
          "contents d' = (cd_devices d, map (bumped env u now) (cd_configs d), cd_tasks d @ map (stored_row u g) new)"
        using save_tasks_added [OF assms(1) [unfolded Ret] f assms(3,4)] by (elim exE conjE)
      moreover have "list_all2 (\<lambda>row t. et_type t = tr_type row) (ed_rows e) new"
        by (rule list_all2_mono [OF \<open>list_all2 (built L) (ed_rows e) new\<close>]) (simp add: built_def)
      ultimately show ?thesis using Ret f by auto
    next
      case False
      then have "contents d' = contents d" using Ret by (intro kept) auto
      moreover have "ed_rows e' = ed_rows e" using assms(1) Ret False by (auto simp: save_tasks_def split: prod.splits outcome.splits)
      ultimately show ?thesis using Ret False by (auto split: option.splits flash.splits)
    qed
  qed (use kept in auto)
qed

theorem save_tasks_all_or_nothing_witness:
  "\<exists>e' d'. save_tasks demo_ctl_env demo_ecto 0 demo_editor demo_control = (Ret e', d') \<and> ed_rows e' = [] \<and> length (cd_tasks d') = 1
     \<and> map co_generation (cd_configs d') = [2]"
proof -
  obtain e' d' where sv: "save_tasks demo_ctl_env demo_ecto 0 demo_editor demo_control = (Ret e', d')" "ed_flash e' = Some (Added 1 2)"
    by (rule demo_saved)
  have law: "duration_law demo_lib" "\<forall>n. de_fault demo_ctl_env n \<noteq> FLost" by (simp_all add: duration_law_def demo_lib_def demo_ctl_env_def)
  have u: "ec_dump demo_ecto (ec_text demo_ecto 7) = Some 7" using demo_ecto_law by (simp add: ecto_law_def)
  show ?thesis
    using save_tasks_all_or_nothing [OF sv(1) law(2,1) demo_ecto_law] sv u
    by (auto simp: demo_editor_def demo_control_def demo_config_def contents_def bumped_def)
qed

section \<open>What the page does not prevent\<close>

text \<open>The identifiers in use are read before the transaction and the tables do not ask for different ones, so two pages that save at the same time can store the same
  identifier twice.\<close>

lemma concurrent_saves_clash:
  assumes "add_tasks env X now cid [t] d1 = (Ret g, d2)" "add_tasks env X now cid [t] d2 = (Ret g', d3)"
  shows "\<exists>u. ec_dump X cid = Some u \<and> \<not> distinct (map at_task_id (filter (\<lambda>t. at_config t = u) (cd_tasks d3)))"
  using add_tasks_Ret [OF assms(1)] add_tasks_Ret [OF assms(2)] by (auto simp: contents_def stored_row_def)

text \<open>Any positive interval is accepted; from 922337204 seconds on, the product with the jitter of the agent no longer fits in 64 bits, and starting the task panics.\<close>

lemma huge_interval_crashes:
  assumes "tr_type row \<noteq> TaskTypeStampReflector" "interval_of row = 922337204"
  shows "snd (startTaskLoop draw (wanted_task row g i) es) = LoopPanic"
  using assms by (simp add: startTaskLoop_def wanted_task_def wanted_schedule_def Let_def computeJitter_def second_def wrap_s_def signed_divide_int_def)

section \<open>Recommended targets\<close>

definition param_target :: "json \<Rightarrow> json" where
  "param_target params = (case params of
       JObj fs \<Rightarrow> (case map_of (rev fs) ''target'' of None \<Rightarrow> JStr [] | Some v \<Rightarrow> v)
     | _ \<Rightarrow> JStr [])"

definition covered :: "task_row list \<Rightarrow> stored_task list \<Rightarrow> json list" where
  "covered rows existing =
     map snd (filter (\<lambda>(type, target). type \<in> set [''ping'', ''stamp-sender''] \<and> target \<noteq> JStr [])
       (map (\<lambda>r. (tr_type r, JStr (trim (tr_target r)))) rows @ map (\<lambda>t. (at_type t, param_target (at_params t))) existing))"

definition recommended_trace_targets :: "task_row list \<Rightarrow> stored_task list \<Rightarrow> string list" where
  "recommended_trace_targets rows existing =
     rev (remdups (rev (filter (\<lambda>target. \<not> (target = [] \<or> JStr target \<in> set (covered rows existing)))
       (map (\<lambda>r. trim (tr_target r)) (filter (\<lambda>r. tr_type r \<in> set [''trace'', ''tracelb'']) rows)))))"

lemma snd_filtered:
  "x \<in> snd ` {y \<in> f ` A. case y of (c, z) \<Rightarrow> P c \<and> z \<noteq> w} \<longleftrightarrow> x \<noteq> w \<and> (\<exists>r \<in> A. P (fst (f r)) \<and> snd (f r) = x)"
  by (simp add: case_prod_beta) blast

lemma covered_iff:
  "x \<in> set (covered rows existing) \<longleftrightarrow> x \<noteq> JStr [] \<and>
     ((\<exists>r \<in> set rows. tr_type r \<in> {''ping'', ''stamp-sender''} \<and> JStr (trim (tr_target r)) = x)
      \<or> (\<exists>t \<in> set existing. at_type t \<in> {''ping'', ''stamp-sender''} \<and> param_target (at_params t) = x))"
  by (simp add: covered_def snd_filtered) blast

lemma recommended_iff:
  "target \<in> set (recommended_trace_targets rows existing) \<longleftrightarrow>
     target \<noteq> [] \<and> (\<exists>r \<in> set rows. tr_type r \<in> {''trace'', ''tracelb''} \<and> trim (tr_target r) = target)
     \<and> JStr target \<notin> set (covered rows existing)"
  by (auto simp: recommended_trace_targets_def)

lemma dropWhile_rev_idem: "dropWhile p (rev (dropWhile p (rev (dropWhile p s)))) = rev (dropWhile p (rev (dropWhile p s)))"
proof -
  let ?u = "dropWhile p s" and ?v = "rev (dropWhile p (rev (dropWhile p s)))"
  have u: "?u = ?v @ rev (takeWhile p (rev ?u))" by (metis rev_append rev_rev_ident takeWhile_dropWhile_id)
  show ?thesis
  proof (cases ?v)
    case (Cons c w)
    then have "?u = c # w @ rev (takeWhile p (rev ?u))" using u by simp
    then have "\<not> p c" by (metis hd_dropWhile list.distinct(1) list.sel(1))
    then show ?thesis unfolding Cons by simp
  next
    case Nil
    then show ?thesis by (metis dropWhile.simps(1))
  qed
qed

lemma trim_idem [simp]: "trim (trim s) = trim s"
  by (simp add: trim_def trim_with_def dropWhile_rev_idem)

text \<open>A recommendation is one of every traceroute in the form that nothing measures, each once; a form in which every recommendation was
  accepted as a ping has none left. Traceroutes that are already stored are never considered.\<close>

lemma recommended_distinct: "distinct (recommended_trace_targets rows existing)"
  by (simp add: recommended_trace_targets_def Let_def)

lemma recommendations_can_be_met:
  fixes e :: editor and draw :: "string \<Rightarrow> nat"
  defines "accept \<equiv> \<lambda>target. add_task_row (draw target) [''type'' \<mapsto> ''ping'', ''target'' \<mapsto> target]"
  shows "recommended_trace_targets (ed_rows (fold accept (recommended_trace_targets (ed_rows e) existing) e)) existing = []"
proof -
  let ?ts = "recommended_trace_targets (ed_rows e) existing"
  let ?new = "map (\<lambda>target. \<lparr>tr_ref = ''row-'' @ itoa (int (draw target)), tr_type = ''ping'', tr_target = target, tr_port = [], tr_interval = []\<rparr>)"
  have rows: "ed_rows (fold accept ts e) = ed_rows e @ ?new ts" for ts e
    by (induction ts arbitrary: e) (simp_all add: accept_def add_task_row_def task_types_def default_port_def task_has_port_def Let_def)
  have "target \<notin> set (recommended_trace_targets (ed_rows e @ ?new ?ts) existing)" for target
  proof
    assume "target \<in> set (recommended_trace_targets (ed_rows e @ ?new ?ts) existing)"
    then have t: "target \<noteq> []" "\<exists>r \<in> set (ed_rows e). tr_type r \<in> {''trace'', ''tracelb''} \<and> trim (tr_target r) = target"
      "JStr target \<notin> set (covered (ed_rows e @ ?new ?ts) existing)" by (auto simp: recommended_iff)
    have "set (covered (ed_rows e) existing) \<subseteq> set (covered (ed_rows e @ ?new ?ts) existing)" by (auto simp: covered_def)
    with t have "target \<in> set ?ts" unfolding recommended_iff by blast
    moreover from t(2) have "trim target = target" by auto
    ultimately show False using t(1,3) unfolding covered_iff by (simp add: ball_Un)
  qed
  then show ?thesis unfolding rows by (meson last_in_set)
qed

lemma stored_traceroutes_not_recommended: "recommended_trace_targets [] existing = []"
  by (simp add: recommended_trace_targets_def)

end
