(* ===== verification/Dashboard.thy ===== *)
theory Dashboard
  imports Argus_System Task_Editor
begin

text \<open>
  What the web frontend shows of the tables of Argus (\<^verbatim>\<open>frontend/lib/cepheus/dashboard.ex\<close>,
  \<^verbatim>\<open>frontend/lib/cepheus_web/live/alerts_live.ex\<close>): the time windows, the families of metrics and their tiles, the counts of open events, the
  health of an agent, the inbox of events with its filters, and the loss interval. The queries are functions of the
  tables of \<open>Argus_DB\<close> and of the time of the server.
\<close>

section \<open>Windows\<close>

definition windows :: "(string \<times> duration) list" where
  "windows = [(''15m'', 15 * 60 * second), (''1h'', 3600 * second), (''6h'', 6 * 3600 * second), (''24h'', 24 * 3600 * second)]"

definition valid_window :: "string \<Rightarrow> bool" where
  "valid_window w \<longleftrightarrow> map_of windows w \<noteq> None"

text \<open>The length of a window; an unknown one raises.\<close>

definition window_interval :: "string \<Rightarrow> (string, duration) outcome" where
  "window_interval w = (case map_of windows w of Some i \<Rightarrow> Ret i | None \<Rightarrow> Panic)"

text \<open>The events every overview selects: the open ones and those opened in the window.\<close>

definition shown :: "time \<Rightarrow> duration \<Rightarrow> ArgusEvent \<Rightarrow> bool" where
  "shown now interval e \<longleftrightarrow> ev_Status e = ''open'' \<or> now - interval < ev_OpenedAt e"

section \<open>Families of metrics\<close>

fun contains :: "string \<Rightarrow> string \<Rightarrow> bool" where
  "contains p [] = (p = [])"
| "contains p (c # cs) = (take (length p) (c # cs) = p \<or> contains p cs)"

definition metric_family :: "string \<Rightarrow> string" where
  "metric_family metric = (let m = map lower_char metric in
     if contains ''loss'' m \<or> contains ''betabinom'' m then ''loss''
     else if list_ex (\<lambda>p. contains p m) [''path'', ''asn'', ''link'', ''fingerprint''] then ''path''
     else if contains ''ping'' m then ''ping''
     else ''stamp'')"

record family =
  fa_open :: nat
  fa_agents :: "string list"
  fa_findings :: int

definition no_family :: family where
  "no_family = \<lparr>fa_open = 0, fa_agents = [], fa_findings = 0\<rparr>"

definition count_event :: "ArgusEvent \<Rightarrow> (string \<Rightarrow> family option) \<Rightarrow> string \<Rightarrow> family option" where
  "count_event e acc =
     (let family = metric_family (ev_Metric e);
          f = (case acc family of None \<Rightarrow> no_family | Some f \<Rightarrow> f)
      in acc(family \<mapsto> \<lparr>fa_open = fa_open f + (if ev_Status e = ''open'' then 1 else 0),
           fa_agents = List.insert (ev_SerialID e) (fa_agents f), fa_findings = fa_findings f + ev_FindingCount e\<rparr>))"

record tile =
  ti_id :: string
  ti_label :: string
  ti_detector :: string
  ti_open :: nat
  ti_agents :: nat
  ti_findings :: int

definition make_tile :: "(string \<Rightarrow> family option) \<Rightarrow> string \<times> string \<times> string \<Rightarrow> tile" where
  "make_tile acc = (\<lambda>(i, label, detector). let f = (case acc i of None \<Rightarrow> no_family | Some f \<Rightarrow> f) in
     \<lparr>ti_id = i, ti_label = label, ti_detector = detector, ti_open = fa_open f, ti_agents = length (fa_agents f), ti_findings = fa_findings f\<rparr>)"

definition family_stats :: "time \<Rightarrow> string \<Rightarrow> db \<Rightarrow> (string, tile list) outcome" where
  "family_stats now window d = obind (window_interval window) (\<lambda>interval.
     let acc = fold count_event (filter (shown now interval) (events d)) Map.empty in
     Ret (map (make_tile acc) [(''stamp'', ''STAMP latency'', ''EWMA''), (''ping'', ''Ping RTT'', ''EWMA''), (''loss'', ''Loss'', ''BETA-BINOMIAL'')]))"

section \<open>Counts and health\<close>

definition open_events :: "db \<Rightarrow> ArgusEvent list" where
  "open_events d = filter (\<lambda>e. ev_Status e = ''open'') (events d)"

definition open_event_counts_by_device :: "db \<Rightarrow> (string \<times> nat) list" where
  "open_event_counts_by_device d = map (\<lambda>s. (s, length (filter (\<lambda>e. ev_SerialID e = s) (open_events d)))) (remdups (map ev_SerialID (open_events d)))"

definition total_open_events :: "db \<Rightarrow> nat" where
  "total_open_events d = sum_list (map snd (open_event_counts_by_device d))"

text \<open>The largest severity; PostgreSQL puts NaN above everything.\<close>

definition pg_max :: "float64 \<Rightarrow> float64 \<Rightarrow> float64" where
  "pg_max a b = (if a = NaN \<or> b = NaN then NaN else if f_le a b then b else a)"

definition open_event_stats_by_device :: "db \<Rightarrow> string \<Rightarrow> (nat \<times> float64) option" where
  "open_event_stats_by_device d s = (case filter (\<lambda>e. ev_SerialID e = s) (open_events d) of
     [] \<Rightarrow> None
   | e # es \<Rightarrow> Some (Suc (length es), fold (\<lambda>e m. pg_max m (ev_PeakSeverity e)) es (ev_PeakSeverity e)))"

definition avg_ns :: "int option list \<Rightarrow> int option" where
  "avg_ns values = (let ns = List.map_filter (\<lambda>v. v) values in if ns = [] then None else Some (sum_list ns sdiv int (length ns)))"

text \<open>A float that is not finite reaches Elixir as an atom and is left out.\<close>

definition max_float :: "float64 option list \<Rightarrow> float64 option" where
  "max_float values = (let fs = filter is_fin (List.map_filter (\<lambda>v. v) values) in
     case fs of [] \<Rightarrow> None | f # fs' \<Rightarrow> Some (fold (\<lambda>x m. if f_lt m x then x else m) fs' f))"

definition latest_seen :: "time option list \<Rightarrow> time option" where
  "latest_seen rows = (case List.map_filter (\<lambda>v. v) rows of [] \<Rightarrow> None | t # ts \<Rightarrow> Some (fold (\<lambda>a b. if b < a then a else b) ts t))"

definition agent_status :: "time \<Rightarrow> nat \<Rightarrow> float64 option \<Rightarrow> time option \<Rightarrow> int \<Rightarrow> string" where
  "agent_status now open_count max_peak last_seen report_interval =
     (let stale = (case last_seen of None \<Rightarrow> True | Some dt \<Rightarrow> unix_sec now - unix_sec dt > max (report_interval * 2) 60);
          severe = (case max_peak of Some (Fin p) \<Rightarrow> 4 \<le> p | _ \<Rightarrow> False)
      in if 0 < open_count \<and> severe then ''alert''
         else if 0 < open_count then ''degraded''
         else if stale then ''degraded''
         else ''nominal'')"

section \<open>Status of an event\<close>

definition worst_policy :: "db \<Rightarrow> ArgusEvent \<Rightarrow> string" where
  "worst_policy d e =
     (let ss = map (ap_Status \<circ> snd) (filter (\<lambda>(k, _). rk_SerialID k = ev_SerialID e \<and> rk_Target k = ev_Target e
          \<and> rk_Port k = ev_Port e \<and> rk_Metric k = ev_Metric e) (policies d))
      in if ss = [] then ''unknown'' else if ''firing'' \<in> set ss then ''firing'' else if ''recovering'' \<in> set ss then ''recovering''
         else if ''watching'' \<in> set ss then ''watching'' else ''clean'')"

definition upper_char :: "char \<Rightarrow> char" where
  "upper_char c = (let n = (of_char c :: nat) in if 97 \<le> n \<and> n \<le> 122 then char_of (n - 32) else c)"

definition derive_display_status :: "string \<Rightarrow> string \<Rightarrow> string" where
  "derive_display_status status policy =
     (if status = ''closed'' then ''RESOLVED''
      else if status = ''open'' \<and> policy = ''recovering'' then ''RECOVERING''
      else if status = ''open'' then ''OPEN''
      else map upper_char status)"

section \<open>Lists of events\<close>

text \<open>Open before closed and the newest first in each group; among equals the order of the table, where SQL leaves it open.\<close>

definition order_events :: "ArgusEvent list \<Rightarrow> ArgusEvent list" where
  "order_events es = sort_key (\<lambda>e. if ev_Status e = ''open'' then 0 else 1 :: nat) (sort_key (\<lambda>e. - ev_OpenedAt e) es)"

definition events_for_device :: "time \<Rightarrow> string \<Rightarrow> string \<Rightarrow> db \<Rightarrow> (string, (ArgusEvent \<times> string) list) outcome" where
  "events_for_device now serial window d = obind (window_interval window) (\<lambda>interval.
     Ret (map (\<lambda>e. (e, derive_display_status (ev_Status e) (worst_policy d e)))
       (take 50 (order_events (filter (\<lambda>e. ev_SerialID e = serial \<and> shown now interval e) (events d))))))"

definition all_events :: "time \<Rightarrow> string \<Rightarrow> db \<Rightarrow> (string, ArgusEvent list) outcome" where
  "all_events now window d = obind (window_interval window) (\<lambda>interval.
     Ret (take 200 (order_events (filter (shown now interval) (events d)))))"

text \<open>One event with its latest findings; the query of a key cannot answer two rows.\<close>

definition event_detail :: "uuid \<Rightarrow> db \<Rightarrow> (string, (ArgusEvent \<times> ArgusFinding list) option) outcome" where
  "event_detail i d = (case filter (\<lambda>e. ev_ID e = i) (events d) of
     [] \<Rightarrow> Ret None
   | [e] \<Rightarrow> Ret (Some (e, take 50 (sort_key (\<lambda>f. - fi_Ts f) (filter (\<lambda>f. fi_EventID f = Some i) (findings d)))))
   | _ \<Rightarrow> Panic)"

section \<open>The inbox\<close>

definition sev_val :: "ArgusEvent \<Rightarrow> real" where
  "sev_val e = (case ev_PeakSeverity e of Fin p \<Rightarrow> p | _ \<Rightarrow> 0)"

definition status_ok :: "ArgusEvent \<Rightarrow> string \<Rightarrow> bool" where
  "status_ok e f = (if f = ''open'' then ev_Status e = ''open'' else if f = ''resolved'' then ev_Status e = ''closed'' else True)"

definition sev_ok :: "ArgusEvent \<Rightarrow> string \<Rightarrow> bool" where
  "sev_ok e f = (if f = ''crit'' then 4 \<le> sev_val e else if f = ''warn'' then 3 \<le> sev_val e \<and> sev_val e < 4
     else if f = ''watch'' then sev_val e < 3 else True)"

definition query_ok :: "ArgusEvent \<Rightarrow> string \<Rightarrow> bool" where
  "query_ok e q \<longleftrightarrow> q = [] \<or> contains q (map lower_char (ev_SerialID e @ '' '' @ ev_Target e @ '' '' @ ev_Metric e))"

definition apply_filters :: "ArgusEvent list \<Rightarrow> string \<Rightarrow> string \<Rightarrow> string \<Rightarrow> ArgusEvent list" where
  "apply_filters es status sev q = (let qn = trim (map lower_char q) in
     filter (\<lambda>e. status_ok e status \<and> sev_ok e sev \<and> query_ok e qn) es)"

definition pick_selected :: "uuid option \<Rightarrow> ArgusEvent list \<Rightarrow> ArgusEvent list \<Rightarrow> uuid option" where
  "pick_selected current filtered every =
     (case current of
        Some i \<Rightarrow> if i \<in> ev_ID ` set filtered then Some i
          else if filtered \<noteq> [] then Some (ev_ID (hd filtered)) else if every \<noteq> [] then Some (ev_ID (hd every)) else None
      | None \<Rightarrow> if filtered \<noteq> [] then Some (ev_ID (hd filtered)) else if every \<noteq> [] then Some (ev_ID (hd every)) else None)"

record inbox =
  ib_window :: string
  ib_status :: string
  ib_sev :: string
  ib_query :: string
  ib_selected :: "uuid option"
  ib_events :: "ArgusEvent list"
  ib_filtered :: "ArgusEvent list"
  ib_open :: nat
  ib_detail :: "(ArgusEvent \<times> ArgusFinding list) option"
  ib_alerts :: nat

text \<open>\<^verbatim>\<open>load\<close>, which every event of the page ends with.\<close>

definition load_inbox :: "time \<Rightarrow> db \<Rightarrow> inbox \<Rightarrow> (string, inbox) outcome" where
  "load_inbox now d b = obind (all_events now (ib_window b) d) (\<lambda>es.
     let filtered = apply_filters es (ib_status b) (ib_sev b) (ib_query b) in
     let selected = pick_selected (ib_selected b) filtered es in
     obind (case selected of None \<Rightarrow> Ret None | Some i \<Rightarrow> event_detail i d) (\<lambda>detail.
     Ret (b\<lparr>ib_events := es, ib_filtered := filtered, ib_open := length (filter (\<lambda>e. ev_Status e = ''open'') es),
       ib_selected := selected, ib_detail := detail, ib_alerts := total_open_events d\<rparr>)))"

datatype inbox_event = SetWindow string | Refresh | FilterStatus string | FilterSev string | Search string | SelectEvent uuid

fun handle_inbox :: "time \<Rightarrow> db \<Rightarrow> inbox_event \<Rightarrow> inbox \<Rightarrow> (string, inbox) outcome" where
  "handle_inbox now d (SetWindow w) b = (if valid_window w then load_inbox now d (b\<lparr>ib_window := w\<rparr>) else Ret b)"
| "handle_inbox now d Refresh b = load_inbox now d b"
| "handle_inbox now d (FilterStatus v) b = load_inbox now d (b\<lparr>ib_status := v\<rparr>)"
| "handle_inbox now d (FilterSev v) b = load_inbox now d (b\<lparr>ib_sev := v\<rparr>)"
| "handle_inbox now d (Search q) b = load_inbox now d (b\<lparr>ib_query := q\<rparr>)"
| "handle_inbox now d (SelectEvent i) b = load_inbox now d (b\<lparr>ib_selected := Some i\<rparr>)"

definition mount_inbox :: "time \<Rightarrow> db \<Rightarrow> (string, inbox) outcome" where
  "mount_inbox now d = load_inbox now d \<lparr>ib_window = ''15m'', ib_status = ''all'', ib_sev = ''all'', ib_query = [], ib_selected = None,
     ib_events = [], ib_filtered = [], ib_open = 0, ib_detail = None, ib_alerts = 0\<rparr>"

section \<open>Tiles count what they say\<close>

definition of_family :: "string \<Rightarrow> ArgusEvent list \<Rightarrow> ArgusEvent list" where
  "of_family i es = filter (\<lambda>e. metric_family (ev_Metric e) = i) es"

lemma count_events:
  "let f = (case fold count_event es Map.empty i of None \<Rightarrow> no_family | Some f \<Rightarrow> f); g = of_family i es in
   fa_open f = length (filter (\<lambda>e. ev_Status e = ''open'') g) \<and> distinct (fa_agents f) \<and> set (fa_agents f) = ev_SerialID ` set g
   \<and> fa_findings f = sum_list (map ev_FindingCount g)"
proof (induction es rule: rev_induct)
  case Nil
  then show ?case by (simp add: no_family_def of_family_def)
next
  case (snoc e es)
  then show ?case
    by (cases "metric_family (ev_Metric e) = i") (auto simp: Let_def count_event_def of_family_def List.insert_def)
qed

lemma sum_groups:
  assumes "finite S" "f ` set xs \<subseteq> S"
  shows "(\<Sum>s \<in> S. length (filter (\<lambda>e. f e = s) xs)) = length xs"
  using assms(2)
proof (induction xs)
  case (Cons x xs)
  have "(\<Sum>s \<in> S. length (filter (\<lambda>e. f e = s) (x # xs))) = (\<Sum>s \<in> S. (if s = f x then 1 else 0) + length (filter (\<lambda>e. f e = s) xs))"
    by (rule sum.cong) auto
  also have "\<dots> = 1 + length xs"
    using Cons assms(1) by (simp add: sum.distrib)
  finally show ?case by simp
qed simp

lemma total_open: "total_open_events d = length (open_events d)"
  using sum_groups [of "ev_SerialID ` set (open_events d)" ev_SerialID "open_events d"]
  by (simp add: total_open_events_def open_event_counts_by_device_def comp_def sum_list_distinct_conv_sum_set)

lemma families_exhaust:
  "length (of_family ''stamp'' es) + length (of_family ''ping'' es) + length (of_family ''loss'' es) + length (of_family ''path'' es) = length es"
proof -
  have "(\<lambda>e. metric_family (ev_Metric e)) ` set es \<subseteq> {''stamp'', ''ping'', ''loss'', ''path''}" by (auto simp: metric_family_def Let_def)
  from sum_groups [OF _ this] show ?thesis by (simp add: of_family_def)
qed

text \<open>An open event is shown whatever the window.\<close>

lemma open_in_family: "filter (\<lambda>e. ev_Status e = ''open'') (of_family i (filter (shown now interval) (events d))) = of_family i (open_events d)"
  by (auto simp: of_family_def open_events_def shown_def intro!: filter_cong)

text \<open>
  Property C37. The tiles of the overview count what they say. For every window, the tile of a family shows how many events of that
  family are open now, on how many agents the family has events that are open or fell into the window, and
  how many findings those events have; and no open event is missing from the tiles unless it is about a path.
\<close>

theorem family_tiles_count:
  assumes "valid_window window"
  shows "\<exists>interval tiles. window_interval window = Ret interval \<and> family_stats now window d = Ret tiles \<and> map ti_id tiles = [''stamp'', ''ping'', ''loss'']
    \<and> (\<forall>t \<in> set tiles. let g = of_family (ti_id t) (filter (shown now interval) (events d)) in
         ti_open t = length (of_family (ti_id t) (open_events d)) \<and> ti_agents t = card (ev_SerialID ` set g)
         \<and> ti_findings t = sum_list (map ev_FindingCount g))
    \<and> sum_list (map ti_open tiles) + length (of_family ''path'' (open_events d)) = total_open_events d"
proof -
  obtain interval where i: "window_interval window = Ret interval"
    using assms by (auto simp: valid_window_def window_interval_def)
  let ?acc = "fold count_event (filter (shown now interval) (events d)) Map.empty"
  let ?heads = "[(''stamp'', ''STAMP latency'', ''EWMA''), (''ping'', ''Ping RTT'', ''EWMA''), (''loss'', ''Loss'', ''BETA-BINOMIAL'')]"
  let ?tiles = "map (make_tile ?acc) ?heads"
  have stats: "family_stats now window d = Ret ?tiles" by (simp add: family_stats_def i Let_def)
  have ids: "ti_id (make_tile ?acc h) = fst h" for h by (cases h) (simp add: make_tile_def Let_def)
  let ?g = "\<lambda>h. of_family (fst h) (filter (shown now interval) (events d))"
  have one: "ti_open (make_tile ?acc h) = length (of_family (fst h) (open_events d)) \<and> ti_agents (make_tile ?acc h) = card (ev_SerialID ` set (?g h))
      \<and> ti_findings (make_tile ?acc h) = sum_list (map ev_FindingCount (?g h))" for h
    using count_events [of "filter (shown now interval) (events d)" "fst h"]
    by (cases h) (auto simp: make_tile_def Let_def open_in_family distinct_card [symmetric])
  have "sum_list (map ti_open ?tiles) + length (of_family ''path'' (open_events d)) = total_open_events d"
    using families_exhaust [of "open_events d"] by (simp add: total_open one)
  moreover have "map ti_id ?tiles = [''stamp'', ''ping'', ''loss'']" by (simp add: ids)
  moreover have "\<forall>t \<in> set ?tiles. let g = of_family (ti_id t) (filter (shown now interval) (events d)) in
         ti_open t = length (of_family (ti_id t) (open_events d)) \<and> ti_agents t = card (ev_SerialID ` set g)
         \<and> ti_findings t = sum_list (map ev_FindingCount g)"
    by (simp add: Let_def one ids)
  ultimately show ?thesis using i stats by (intro exI [of _ interval] exI [of _ ?tiles] conjI)
qed

definition demo_event :: "uuid \<Rightarrow> string \<Rightarrow> string \<Rightarrow> string \<Rightarrow> ArgusEvent" where
  "demo_event i serial metric status = \<lparr>ev_ID = i, ev_SerialID = serial, ev_Target = ''t'', ev_Port = 0, ev_Metric = metric, ev_Status = status,
     ev_OpenedAt = 0, ev_LastSeenAt = 0, ev_ClosedAt = None, ev_FindingCount = 3, ev_PeakSeverity = Fin 5, ev_Detectors = [''EWMA'']\<rparr>"

theorem family_tiles_count_witness:
  "\<exists>tiles. family_stats (30 * 3600 * second) ''15m'' (empty_db\<lparr>events := [demo_event 1 ''a'' ''rtt_p95_ns'' ''open'', demo_event 2 ''a'' ''loss'' ''closed'',
       demo_event 3 ''b'' ''loss'' ''open'']\<rparr>) = Ret tiles \<and> map ti_open tiles = [1, 0, 1] \<and> map ti_agents tiles = [1, 0, 1] \<and> map ti_findings tiles = [3, 0, 3]"
proof -
  let ?d = "empty_db\<lparr>events := [demo_event 1 ''a'' ''rtt_p95_ns'' ''open'', demo_event 2 ''a'' ''loss'' ''closed'', demo_event 3 ''b'' ''loss'' ''open'']\<rparr>"
  have fam: "metric_family ''rtt_p95_ns'' = ''stamp''" "metric_family ''loss'' = ''loss''"
    by (simp_all add: metric_family_def Let_def lower_char_def)
  have "valid_window ''15m''" by (simp add: valid_window_def windows_def)
  from family_tiles_count [OF this, of "30 * 3600 * second" ?d] obtain interval tiles where
    t: "window_interval ''15m'' = Ret interval" "family_stats (30 * 3600 * second) ''15m'' ?d = Ret tiles" "map ti_id tiles = [''stamp'', ''ping'', ''loss'']"
      "\<forall>t \<in> set tiles. let g = of_family (ti_id t) (filter (shown (30 * 3600 * second) interval) (events ?d)) in
         ti_open t = length (of_family (ti_id t) (open_events ?d)) \<and> ti_agents t = card (ev_SerialID ` set g)
         \<and> ti_findings t = sum_list (map ev_FindingCount g)"
    by (elim exE conjE) (rule that, assumption+)
  then have iv: "interval = 15 * 60 * second" by (simp add: window_interval_def windows_def)
  obtain a b c where tiles: "tiles = [a, b, c]" "ti_id a = ''stamp''" "ti_id b = ''ping''" "ti_id c = ''loss''"
    using t(3) by (auto simp: map_eq_Cons_conv)
  show ?thesis
    using t(2,4) unfolding tiles(1) iv
    by (simp add: Let_def tiles(2-4) of_family_def open_events_def shown_def demo_event_def fam second_def)
qed

text \<open>The metrics Argus monitors carry no trace of the series they belong to, so the latency of pings counts as that of STAMP and the ping tile stays empty.\<close>

lemma ping_tile_empty:
  assumes "\<forall>e \<in> set (events d). \<exists>ty. \<exists>ex \<in> set (CreateDefaultRegistry ty). ev_Metric e = ex_MetricName ex" "family_stats now window d = Ret tiles"
    and "t \<in> set tiles" "ti_id t = ''ping''"
  shows "ti_open t = 0 \<and> ti_agents t = 0 \<and> ti_findings t = 0"
proof -
  have none: "metric_family (ex_MetricName ex) \<noteq> ''ping''" if "ex \<in> set (CreateDefaultRegistry ty)" for ex ty
    using that by (auto simp: CreateDefaultRegistry_def metric_family_def Let_def lower_char_def split: if_splits)
  obtain interval where i: "window_interval window = Ret interval" "tiles = map (make_tile (fold count_event (filter (shown now interval) (events d)) Map.empty))
      [(''stamp'', ''STAMP latency'', ''EWMA''), (''ping'', ''Ping RTT'', ''EWMA''), (''loss'', ''Loss'', ''BETA-BINOMIAL'')]"
    using assms(2) by (auto simp: family_stats_def Let_def)
  have "of_family ''ping'' (filter (shown now interval) (events d)) = []"
    using assms(1) none by (fastforce simp: of_family_def filter_empty_conv)
  then show ?thesis
    using count_events [of "filter (shown now interval) (events d)" "''ping''"] assms(3,4)
    unfolding i(2) by (auto simp: make_tile_def Let_def)
qed

section \<open>The inbox hides no open event\<close>

lemma sorted_01:
  fixes f :: "'a \<Rightarrow> nat"
  shows "sorted (map f ys) \<Longrightarrow> \<forall>y \<in> set ys. f y \<le> 1 \<Longrightarrow> ys = filter (\<lambda>y. f y = 0) ys @ filter (\<lambda>y. f y \<noteq> 0) ys"
proof (induction ys)
  case (Cons y ys)
  show ?case
  proof (cases "f y = 0")
    case False
    then have "\<forall>z \<in> set ys. f z \<noteq> 0" using Cons.prems(1) by fastforce
    then show ?thesis using False by simp
  qed (use Cons in simp)
qed simp

lemma order_events_split:
  defines "x \<equiv> \<lambda>es. sort_key (\<lambda>e. - ev_OpenedAt e) es"
  shows "order_events es = filter (\<lambda>e. ev_Status e = ''open'') (x es) @ filter (\<lambda>e. ev_Status e \<noteq> ''open'') (x es)"
proof -
  let ?f = "\<lambda>e. if ev_Status e = ''open'' then 0 else 1 :: nat"
  have p: "(\<lambda>y. ?f y = 0) = (\<lambda>y. ev_Status y = ''open'')" "(\<lambda>y. ?f y = 1) = (\<lambda>y. ev_Status y \<noteq> ''open'')"
    "(\<lambda>y. ?f y \<noteq> 0) = (\<lambda>y. ev_Status y \<noteq> ''open'')" by auto
  have "order_events es = filter (\<lambda>y. ?f y = 0) (order_events es) @ filter (\<lambda>y. ?f y \<noteq> 0) (order_events es)"
    by (rule sorted_01) (auto simp: order_events_def)
  moreover have "filter (\<lambda>y. ?f y = 0) (order_events es) = filter (\<lambda>y. ?f y = 0) (x es)"
    "filter (\<lambda>y. ?f y = 1) (order_events es) = filter (\<lambda>y. ?f y = 1) (x es)"
    unfolding order_events_def x_def by (rule sort_key_stable)+
  ultimately show ?thesis unfolding p by simp
qed

lemma all_events_open:
  assumes "all_events now window d = Ret es" "length (open_events d) \<le> 200"
  shows "filter (\<lambda>e. ev_Status e = ''open'') es = sort_key (\<lambda>e. - ev_OpenedAt e) (open_events d)"
    and "\<exists>rest. es = sort_key (\<lambda>e. - ev_OpenedAt e) (open_events d) @ rest \<and> (\<forall>e \<in> set rest. ev_Status e \<noteq> ''open'')"
proof -
  obtain interval where es: "es = take 200 (order_events (filter (shown now interval) (events d)))"
    using assms(1) by (auto simp: all_events_def)
  let ?s = "filter (shown now interval) (events d)" and ?o = "sort_key (\<lambda>e. - ev_OpenedAt e) (open_events d)"
  let ?r = "filter (\<lambda>e. ev_Status e \<noteq> ''open'') (sort_key (\<lambda>e. - ev_OpenedAt e) ?s)"
  have "filter (\<lambda>e. ev_Status e = ''open'') ?s = open_events d" by (auto simp: open_events_def shown_def intro!: filter_cong)
  then have "order_events ?s = ?o @ ?r" unfolding order_events_split by (simp add: filter_sort)
  then have split: "es = ?o @ take (200 - length (open_events d)) ?r" using assms(2) by (simp add: es)
  have "\<forall>e \<in> set (take (200 - length (open_events d)) ?r). ev_Status e \<noteq> ''open''" by (auto dest: in_set_takeD)
  then show "\<exists>rest. es = ?o @ rest \<and> (\<forall>e \<in> set rest. ev_Status e \<noteq> ''open'')" using split by blast
  have "\<forall>e \<in> set ?o. ev_Status e = ''open''" by (simp add: open_events_def)
  then show "filter (\<lambda>e. ev_Status e = ''open'') es = ?o"
    unfolding split by (auto simp: filter_empty_conv dest: in_set_takeD)
qed

lemma pick_selected_valid:
  assumes "set filtered \<subseteq> set every"
  shows "case pick_selected current filtered every of
      None \<Rightarrow> every = []
    | Some i \<Rightarrow> i \<in> ev_ID ` set every \<and> (filtered \<noteq> [] \<longrightarrow> i \<in> ev_ID ` set filtered)"
proof -
  have "filtered \<noteq> [] \<Longrightarrow> ev_ID (hd filtered) \<in> ev_ID ` set every" using assms hd_in_set [of filtered] by blast
  then show ?thesis using assms by (auto simp: pick_selected_def split: option.splits)
qed

lemma only_event:
  assumes "distinct (map ev_ID es)" "e \<in> set es"
  shows "filter (\<lambda>x. ev_ID x = ev_ID e) es = [e]"
  using assms by (induction es) (auto simp: filter_empty_conv, metis image_eqI)

text \<open>Loading the page with a known window ends, and shows the details of the selected event.\<close>

lemma load_inbox_Ret:
  assumes "distinct (map ev_ID (events d))" "valid_window (ib_window b)"
  obtains es sel detail where "all_events now (ib_window b) d = Ret es" "set es \<subseteq> set (events d)"
    "sel = pick_selected (ib_selected b) (apply_filters es (ib_status b) (ib_sev b) (ib_query b)) es"
    "load_inbox now d b = Ret (b\<lparr>ib_events := es, ib_filtered := apply_filters es (ib_status b) (ib_sev b) (ib_query b),
       ib_open := length (filter (\<lambda>e. ev_Status e = ''open'') es), ib_selected := sel, ib_detail := detail, ib_alerts := total_open_events d\<rparr>)"
    "case sel of None \<Rightarrow> es = [] \<and> detail = None
     | Some i \<Rightarrow> \<exists>e \<in> set es. ev_ID e = i \<and> (apply_filters es (ib_status b) (ib_sev b) (ib_query b) \<noteq> []
           \<longrightarrow> e \<in> set (apply_filters es (ib_status b) (ib_sev b) (ib_query b)))
         \<and> detail = Some (e, take 50 (sort_key (\<lambda>f. - fi_Ts f) (filter (\<lambda>f. fi_EventID f = Some i) (findings d))))"
proof -
  obtain interval where i: "window_interval (ib_window b) = Ret interval"
    using assms(2) by (auto simp: valid_window_def window_interval_def)
  define es where "es = take 200 (order_events (filter (shown now interval) (events d)))"
  define filtered where "filtered = apply_filters es (ib_status b) (ib_sev b) (ib_query b)"
  define sel where "sel = pick_selected (ib_selected b) filtered es"
  have all: "all_events now (ib_window b) d = Ret es" by (simp add: all_events_def i es_def)
  have es: "set es \<subseteq> set (events d)" by (auto simp: es_def order_events_def dest!: in_set_takeD)
  have sub: "set filtered \<subseteq> set es" by (auto simp: filtered_def apply_filters_def Let_def)
  let ?det = "\<lambda>i. take 50 (sort_key (\<lambda>f. - fi_Ts f) (filter (\<lambda>f. fi_EventID f = Some i) (findings d)))"
  have load: "load_inbox now d b = obind (case sel of None \<Rightarrow> Ret None | Some i \<Rightarrow> event_detail i d) (\<lambda>detail.
     Ret (b\<lparr>ib_events := es, ib_filtered := filtered, ib_open := length (filter (\<lambda>e. ev_Status e = ''open'') es),
       ib_selected := sel, ib_detail := detail, ib_alerts := total_open_events d\<rparr>))"
    by (simp add: load_inbox_def all Let_def filtered_def sel_def)
  note found = that [OF all es, of sel, folded filtered_def, OF sel_def, unfolded load]
  show thesis
  proof (cases sel)
    case None
    then have "es = []" using pick_selected_valid [OF sub, of "ib_selected b"] by (simp add: sel_def)
    then show thesis using None by (intro found [of None]) simp_all
  next
    case (Some i)
    then have "i \<in> ev_ID ` set es" "filtered \<noteq> [] \<longrightarrow> i \<in> ev_ID ` set filtered"
      using pick_selected_valid [OF sub, of "ib_selected b"] by (simp_all add: sel_def)
    then obtain e where e: "e \<in> set es" "ev_ID e = i" "filtered \<noteq> [] \<longrightarrow> e \<in> set filtered" using sub by (cases "filtered = []") auto
    have "event_detail i d = Ret (Some (e, ?det i))" using only_event [OF assms(1), of e] e(1,2) es by (auto simp: event_detail_def)
    then show thesis using Some e by (intro found [of "Some (e, ?det i)"]) auto
  qed
qed

lemma handle_inbox_loads:
  assumes "valid_window (ib_window b)" "\<And>w. ev = SetWindow w \<Longrightarrow> valid_window w"
  obtains b1 where "handle_inbox now d ev b = load_inbox now d b1" "valid_window (ib_window b1)"
proof
  let ?b1 = "case ev of SetWindow w \<Rightarrow> b\<lparr>ib_window := w\<rparr> | Refresh \<Rightarrow> b | FilterStatus v \<Rightarrow> b\<lparr>ib_status := v\<rparr>
    | FilterSev v \<Rightarrow> b\<lparr>ib_sev := v\<rparr> | Search v \<Rightarrow> b\<lparr>ib_query := v\<rparr> | SelectEvent i \<Rightarrow> b\<lparr>ib_selected := Some i\<rparr>"
  show "handle_inbox now d ev b = load_inbox now d ?b1" "valid_window (ib_window ?b1)"
    using assms by (cases ev; simp)+
qed

text \<open>
  Property C36. The inbox hides no open event and always has something to show. On tables with unique event keys, every event of the page that
  reloads it, with at most 200 events open, ends with a page: the list starts with all open events, the newest first, and closed ones follow;
  both numbers of open events are the total of the fleet; the filtered list has exactly the events that pass the three filters, in the same order; and the
  details are those of the selected event, which is one of the filtered ones if there are any, otherwise one of the list, and missing only if the list is empty.
\<close>

theorem inbox_shows_every_open_event:
  assumes "distinct (map ev_ID (events d))" "valid_window (ib_window b)" "\<And>w. ev = SetWindow w \<Longrightarrow> valid_window w" "length (open_events d) \<le> 200"
  shows "\<exists>b'. handle_inbox now d ev b = Ret b' \<and> valid_window (ib_window b')
    \<and> (\<exists>rest. ib_events b' = sort_key (\<lambda>e. - ev_OpenedAt e) (open_events d) @ rest \<and> (\<forall>e \<in> set rest. ev_Status e \<noteq> ''open''))
    \<and> ib_open b' = total_open_events d \<and> ib_alerts b' = total_open_events d
    \<and> ib_filtered b' = filter (\<lambda>e. status_ok e (ib_status b') \<and> sev_ok e (ib_sev b') \<and> query_ok e (trim (map lower_char (ib_query b')))) (ib_events b')
    \<and> (case ib_selected b' of None \<Rightarrow> ib_events b' = [] \<and> ib_detail b' = None
       | Some i \<Rightarrow> \<exists>e \<in> set (ib_events b'). ev_ID e = i \<and> (ib_filtered b' \<noteq> [] \<longrightarrow> e \<in> set (ib_filtered b'))
           \<and> ib_detail b' = Some (e, take 50 (sort_key (\<lambda>f. - fi_Ts f) (filter (\<lambda>f. fi_EventID f = Some i) (findings d)))))"
proof -
  obtain b1 where b1: "handle_inbox now d ev b = load_inbox now d b1" "valid_window (ib_window b1)"
    by (rule handle_inbox_loads [OF assms(2,3)])
  obtain es sel detail where l: "all_events now (ib_window b1) d = Ret es"
      "load_inbox now d b1 = Ret (b1\<lparr>ib_events := es, ib_filtered := apply_filters es (ib_status b1) (ib_sev b1) (ib_query b1),
         ib_open := length (filter (\<lambda>e. ev_Status e = ''open'') es), ib_selected := sel, ib_detail := detail, ib_alerts := total_open_events d\<rparr>)"
        (is "_ = Ret ?b'")
      "case sel of None \<Rightarrow> es = [] \<and> detail = None
       | Some i \<Rightarrow> \<exists>e \<in> set es. ev_ID e = i \<and> (apply_filters es (ib_status b1) (ib_sev b1) (ib_query b1) \<noteq> []
             \<longrightarrow> e \<in> set (apply_filters es (ib_status b1) (ib_sev b1) (ib_query b1)))
           \<and> detail = Some (e, take 50 (sort_key (\<lambda>f. - fi_Ts f) (filter (\<lambda>f. fi_EventID f = Some i) (findings d))))"
    by (rule load_inbox_Ret [OF assms(1) b1(2)])
  note o = all_events_open [OF l(1) assms(4)]
  have f: "ib_window ?b' = ib_window b1" "ib_status ?b' = ib_status b1" "ib_sev ?b' = ib_sev b1" "ib_query ?b' = ib_query b1" "ib_events ?b' = es"
      "ib_filtered ?b' = apply_filters es (ib_status b1) (ib_sev b1) (ib_query b1)" "ib_open ?b' = length (filter (\<lambda>e. ev_Status e = ''open'') es)"
      "ib_selected ?b' = sel" "ib_detail ?b' = detail" "ib_alerts ?b' = total_open_events d" by simp_all
  have n: "length (filter (\<lambda>e. ev_Status e = ''open'') es) = total_open_events d" unfolding o(1) by (simp add: total_open)
  show ?thesis unfolding b1(1) l(2)
    by (rule exI [of _ ?b'], intro conjI HOL.refl; (unfold f)?) (use b1(2) o(2) n l(3) in \<open>simp_all add: apply_filters_def Let_def\<close>)
qed

theorem inbox_shows_every_open_event_witness:
  "\<exists>b b' e. mount_inbox (30 * 3600 * second) (empty_db\<lparr>events := [demo_event 2 ''a'' ''loss'' ''closed'', demo_event 3 ''b'' ''loss'' ''open'']\<rparr>) = Ret b
     \<and> handle_inbox (30 * 3600 * second) (empty_db\<lparr>events := [demo_event 2 ''a'' ''loss'' ''closed'', demo_event 3 ''b'' ''loss'' ''open'']\<rparr>) (Search ''A'') b = Ret b'
     \<and> ib_open b' = 1 \<and> ib_selected b' = Some (ev_ID e) \<and> ib_detail b' = Some (e, [])"
proof -
  let ?d = "empty_db\<lparr>events := [demo_event 2 ''a'' ''loss'' ''closed'', demo_event 3 ''b'' ''loss'' ''open'']\<rparr>" and ?now = "30 * 3600 * second :: int"
  have d: "distinct (map ev_ID (events ?d))" "open_events ?d = [demo_event 3 ''b'' ''loss'' ''open'']" "findings ?d = []"
    by (simp_all add: demo_event_def open_events_def empty_db_def)
  let ?b = "\<lparr>ib_window = ''15m'', ib_status = ''all'', ib_sev = ''all'', ib_query = [], ib_selected = None,
     ib_events = [], ib_filtered = [], ib_open = 0, ib_detail = None, ib_alerts = 0\<rparr>"
  have w: "valid_window ''15m''" by (simp add: valid_window_def windows_def)
  have "\<exists>b. mount_inbox ?now ?d = Ret b \<and> ib_window b = ''15m''"
    by (rule load_inbox_Ret [OF d(1), of ?b ?now]) (use w in \<open>simp_all add: mount_inbox_def\<close>)
  then obtain b where b: "mount_inbox ?now ?d = Ret b" "ib_window b = ''15m''" by blast
  have p: "inbox_event.Search ''A'' = SetWindow w \<Longrightarrow> valid_window w" for w by simp
  from b(2) w p obtain b' rest where b': "handle_inbox ?now ?d (Search ''A'') b = Ret b'" "ib_events b' = demo_event 3 ''b'' ''loss'' ''open'' # rest"
      "ib_open b' = 1"
      "case ib_selected b' of None \<Rightarrow> ib_events b' = [] \<and> ib_detail b' = None
       | Some i \<Rightarrow> \<exists>e \<in> set (ib_events b'). ev_ID e = i \<and> (ib_filtered b' \<noteq> [] \<longrightarrow> e \<in> set (ib_filtered b'))
           \<and> ib_detail b' = Some (e, take 50 (sort_key (\<lambda>f. - fi_Ts f) (filter (\<lambda>f. fi_EventID f = Some i) [])))"
    using inbox_shows_every_open_event [OF d(1), of b "Search ''A''" ?now] unfolding d(2,3) total_open by (simp del: handle_inbox.simps) blast
  then obtain e where "ib_selected b' = Some (ev_ID e)" "ib_detail b' = Some (e, [])" by (cases "ib_selected b'") auto
  then show ?thesis using b(1) b'(1,3) by blast
qed

section \<open>The loss interval\<close>

record posterior =
  po_mean :: float64
  po_lo :: float64
  po_hi :: float64

text \<open>\<^verbatim>\<open>loss_posterior\<close>; an operation of Elixir whose result is not finite would raise, which the bounds below exclude.\<close>

definition loss_posterior :: "int \<Rightarrow> int \<Rightarrow> posterior option" where
  "loss_posterior recv sent =
     (if sent > 0 then
        let lost = max (sent - recv) 0;
            n = sent;
            p = f_div (f_of_int lost) (f_of_int n);
            z = fl (196 / 100);
            denom = f_add (Fin 1) (f_div (f_mul z z) (f_of_int n));
            center = f_div (f_add p (f_div (f_mul z z) (f_of_int (2 * n)))) denom;
            margin = f_mul (f_div z denom) (f_sqrt (f_add (f_div (f_mul p (f_sub (Fin 1) p)) (f_of_int n)) (f_div (f_mul z z) (f_of_int (4 * n * n)))))
        in Some \<lparr>po_mean = f_mul p (Fin 100), po_lo = f_mul (f_max (f_sub center margin) (Fin 0)) (Fin 100),
             po_hi = f_mul (f_min (f_add center margin) (Fin 1)) (Fin 100)\<rparr>
      else None)"

text \<open>A rounded result stays between exact bounds.\<close>

lemma fl_between:
  assumes "a \<le> x" "x \<le> b" "rnd a = a" "rnd b = b" "\<bar>a\<bar> \<le> 2 ^ 1000" "\<bar>b\<bar> \<le> 2 ^ 1000"
  shows "fl x = Fin (rnd x) \<and> a \<le> rnd x \<and> rnd x \<le> b"
proof -
  have "\<bar>x\<bar> \<le> 2 ^ 1000" using assms(1,2,5,6) by linarith
  then show ?thesis using fl_fin [of x] rnd_mono [OF assms(1)] rnd_mono [OF assms(2)] assms(3,4) by simp
qed

lemma fl_upto: "0 \<le> x \<Longrightarrow> x \<le> of_int k \<Longrightarrow> \<bar>k\<bar> \<le> 1000 \<Longrightarrow> fl x = Fin (rnd x) \<and> 0 \<le> rnd x \<and> rnd x \<le> of_int k"
proof -
  assume x: "0 \<le> x" "x \<le> of_int k" "\<bar>k\<bar> \<le> 1000"
  have k: "rnd (of_int k) = of_int k" using x(3) by (intro rnd_of_int) simp
  have "\<bar>real_of_int k\<bar> \<le> 1000" using x(3) by (simp add: abs_le_iff)
  also have "(1000 :: real) \<le> 2 ^ 1000" by (rule order_trans [of _ "2 ^ 10"]) (simp, rule power_increasing, simp_all)
  finally show ?thesis using fl_between [OF x(1,2) rnd_0 k] by simp
qed

lemma count_rounds:
  assumes "1 \<le> n" "n \<le> 2 ^ 130"
  shows "f_of_int n = Fin (rnd (of_int n)) \<and> 1 \<le> rnd (of_int n)"
proof -
  have n: "1 \<le> real_of_int n" "real_of_int n \<le> 2 ^ 130" using assms by (simp, metis of_int_le_numeral_power_cancel_iff)
  have "(2 :: real) ^ 130 \<le> 2 ^ 1000" by (rule power_increasing) simp_all
  then have "\<bar>real_of_int n\<bar> \<le> 2 ^ 1000" using n by linarith
  then show ?thesis using fl_fin [of "of_int n"] rnd_mono [OF n(1)] by (simp add: f_of_int_def)
qed

lemma quot_unit: "0 \<le> a \<Longrightarrow> a \<le> of_int k \<Longrightarrow> 1 \<le> b \<Longrightarrow> \<bar>k\<bar> \<le> 1000 \<Longrightarrow>
  f_div (Fin a) (Fin b) = Fin (rnd (a / b)) \<and> 0 \<le> rnd (a / b) \<and> rnd (a / b) \<le> of_int k"
proof -
  assume a: "0 \<le> a" "a \<le> of_int k" "1 \<le> b" "\<bar>k\<bar> \<le> 1000"
  have "a * 1 \<le> a * b" using a(1,3) by (intro mult_left_mono) auto
  then have "a / b \<le> a" using a(3) by (simp add: divide_le_eq)
  then have "a / b \<le> of_int k" using a(2) by linarith
  then show ?thesis using fl_upto [of "a / b" k] a by auto
qed

lemma prod_unit: "0 \<le> a \<Longrightarrow> a \<le> of_int k \<Longrightarrow> 0 \<le> b \<Longrightarrow> b \<le> of_int l \<Longrightarrow> \<bar>k * l\<bar> \<le> 1000 \<Longrightarrow>
  f_mul (Fin a) (Fin b) = Fin (rnd (a * b)) \<and> 0 \<le> rnd (a * b) \<and> rnd (a * b) \<le> of_int (k * l)"
proof -
  assume a: "0 \<le> a" "a \<le> of_int k" "0 \<le> b" "b \<le> of_int l" "\<bar>k * l\<bar> \<le> 1000"
  have "a * b \<le> of_int (k * l)" using a by (simp add: mult_mono)
  then show ?thesis using fl_upto [of "a * b" "k * l"] a by simp
qed

lemma sum_unit: "0 \<le> a \<Longrightarrow> a \<le> of_int k \<Longrightarrow> 0 \<le> b \<Longrightarrow> b \<le> of_int l \<Longrightarrow> \<bar>k + l\<bar> \<le> 1000 \<Longrightarrow>
  f_add (Fin a) (Fin b) = Fin (rnd (a + b)) \<and> 0 \<le> rnd (a + b) \<and> rnd (a + b) \<le> of_int (k + l)"
  using fl_upto [of "a + b" "k + l"] by simp

text \<open>The ends of the interval from its middle and its half width.\<close>

lemma interval_ends:
  assumes "0 \<le> c" "c \<le> 1" "0 \<le> m" "m \<le> 6"
  shows "\<exists>lo hi. f_mul (f_max (f_sub (Fin c) (Fin m)) (Fin 0)) (Fin 100) = Fin lo \<and> f_mul (f_min (f_add (Fin c) (Fin m)) (Fin 1)) (Fin 100) = Fin hi
    \<and> 0 \<le> lo \<and> lo \<le> hi \<and> hi \<le> 100"
proof -
  have six: "rnd (- 6) = - 6" "rnd 7 = 7" "(6 :: real) \<le> 2 ^ 1000" "(7 :: real) \<le> 2 ^ 1000"
    using rnd_of_int [of "- 6"] rnd_of_int [of 7] order_trans [of 7 "2 ^ 3" "2 ^ 1000 :: real"] power_increasing [of 3 1000 "2 :: real"] by simp_all
  have l: "fl (c - m) = Fin (rnd (c - m))" "rnd (c - m) \<le> 1"
    using fl_between [of "- 6" "c - m" 1] assms six by simp_all
  have h: "fl (c + m) = Fin (rnd (c + m))" "0 \<le> rnd (c + m)"
    using fl_between [of 0 "c + m" 7] assms six by simp_all
  have lh: "rnd (c - m) \<le> rnd (c + m)" using assms(3) by (intro rnd_mono) simp
  define lo hi where "lo = max (rnd (c - m)) 0" and "hi = min (rnd (c + m)) 1"
  have ord: "0 \<le> lo" "lo \<le> hi" "hi \<le> 1" "0 \<le> hi" "lo \<le> 1" using l(2) h(2) lh by (auto simp: lo_def hi_def)
  have e: "f_max (f_sub (Fin c) (Fin m)) (Fin 0) = Fin lo" "f_min (f_add (Fin c) (Fin m)) (Fin 1) = Fin hi"
    using l(1) h(1) by (simp_all add: f_sub_def f_max_def f_min_def lo_def hi_def max_def min_def)
  have "f_mul (Fin lo) (Fin 100) = Fin (rnd (lo * 100)) \<and> 0 \<le> rnd (lo * 100)" "f_mul (Fin hi) (Fin 100) = Fin (rnd (hi * 100)) \<and> rnd (hi * 100) \<le> 100"
    using prod_unit [of lo 1 100 100] prod_unit [of hi 1 100 100] ord by simp_all
  moreover have "rnd (lo * 100) \<le> rnd (hi * 100)" using ord(2) by (intro rnd_mono) simp
  ultimately show ?thesis unfolding e by simp
qed

text \<open>The middle and the half width, each from the one below it. The middle is at most 1 because its numerator is rounded like its denominator.\<close>

lemma loss_middle:
  assumes "0 \<le> p" "p \<le> 1" "0 \<le> zz" "zz \<le> 4" "1 \<le> n" "n \<le> n2"
  shows "\<exists>d c. f_add (Fin 1) (f_div (Fin zz) (Fin n)) = Fin d \<and> 1 \<le> d
    \<and> f_div (f_add (Fin p) (f_div (Fin zz) (Fin n2))) (Fin d) = Fin c \<and> 0 \<le> c \<and> c \<le> 1"
proof -
  define q q2 where "q = rnd (zz / n)" and "q2 = rnd (zz / n2)"
  have q: "f_div (Fin zz) (Fin n) = Fin q" "0 \<le> q" "q \<le> 4" "f_div (Fin zz) (Fin n2) = Fin q2" "0 \<le> q2" "q2 \<le> 4"
    using quot_unit [of zz 4 n] quot_unit [of zz 4 n2] assms by (auto simp: q_def q2_def)
  have qq: "q2 \<le> q" unfolding q_def q2_def using assms by (intro rnd_mono divide_left_mono) auto
  define d a where "d = rnd (1 + q)" and "a = rnd (p + q2)"
  have d: "f_add (Fin 1) (Fin q) = Fin d" "1 \<le> d" using sum_unit [of 1 1 q 4] q(2,3) rnd_mono [of 1 "1 + q"] by (auto simp: d_def)
  have a: "f_add (Fin p) (Fin q2) = Fin a" "0 \<le> a" using sum_unit [of p 1 q2 4] q(5,6) assms(1,2) by (auto simp: a_def)
  have "a \<le> d" unfolding a_def d_def using assms(2) qq by (intro rnd_mono) linarith
  then have c: "0 \<le> a / d" "a / d \<le> 1" using a(2) d(2) by (auto simp: divide_le_eq)
  have "f_div (Fin a) (Fin d) = Fin (rnd (a / d)) \<and> 0 \<le> rnd (a / d) \<and> rnd (a / d) \<le> 1"
    using fl_upto [of "a / d" 1] c d(2) by simp
  then show ?thesis unfolding q(1,4) a(1) using d by auto
qed

lemma loss_width:
  assumes "0 \<le> p" "p \<le> 1" "0 \<le> z" "z \<le> 2" "0 \<le> zz" "zz \<le> 4" "1 \<le> d" "1 \<le> n" "1 \<le> n4"
  shows "\<exists>m. f_mul (f_div (Fin z) (Fin d)) (f_sqrt (f_add (f_div (f_mul (Fin p) (f_sub (Fin 1) (Fin p))) (Fin n)) (f_div (Fin zz) (Fin n4)))) = Fin m
    \<and> 0 \<le> m \<and> m \<le> 6"
proof -
  obtain u where u: "f_sub (Fin 1) (Fin p) = Fin u" "0 \<le> u" "u \<le> 1"
    using fl_upto [of "1 - p" 1] assms(1,2) by (auto simp: f_sub_def)
  obtain v where v: "f_mul (Fin p) (Fin u) = Fin v" "0 \<le> v" "v \<le> 1" using prod_unit [of p 1 u 1] assms(1,2) u by auto
  obtain w where w: "f_div (Fin v) (Fin n) = Fin w" "0 \<le> w" "w \<le> 1" using quot_unit [of v 1 n] v assms(8) by auto
  obtain x where x: "f_div (Fin zz) (Fin n4) = Fin x" "0 \<le> x" "x \<le> 4" using quot_unit [of zz 4 n4] assms(5,6,9) by auto
  obtain y where y: "f_add (Fin w) (Fin x) = Fin y" "0 \<le> y" "y \<le> 5" using sum_unit [of w 1 x 4] w x by auto
  have "sqrt y \<le> 3" using y(2,3) by (intro real_le_lsqrt) auto
  then obtain r where r: "f_sqrt (Fin y) = Fin r" "0 \<le> r" "r \<le> 3" using fl_upto [of "sqrt y" 3] y(2) by auto
  obtain t where t: "f_div (Fin z) (Fin d) = Fin t" "0 \<le> t" "t \<le> 2" using quot_unit [of z 2 d] assms(3,4,7) by auto
  show ?thesis unfolding u(1) v(1) w(1) x(1) y(1) r(1) t(1) using prod_unit [of t 2 r 3] t r by auto
qed

text \<open>
  The loss interval is an interval of percentages. For any counts of a window with at least one probe sent, the computation never fails in
  floating point, and its results are ordered: the mean and both ends lie between 0 and 100, and the lower end is not above the upper one.
\<close>

lemma loss_posterior_bounds:
  assumes "0 \<le> recv" "0 < sent" "sent < 2 ^ 30"
  shows "\<exists>m lo hi. loss_posterior recv sent = Some \<lparr>po_mean = Fin m, po_lo = Fin lo, po_hi = Fin hi\<rparr>
    \<and> 0 \<le> m \<and> m \<le> 100 \<and> 0 \<le> lo \<and> lo \<le> hi \<and> hi \<le> 100"
proof -
  let ?lost = "max (sent - recv) 0"
  have "sent * sent < 2 ^ 30 * 2 ^ 30" using assms by (intro mult_strict_mono) auto
  then have big: "1 \<le> sent" "sent \<le> 2 ^ 130" "1 \<le> 2 * sent" "2 * sent \<le> 2 ^ 130" "4 * sent * sent \<le> 2 ^ 130" using assms by simp_all
  have pos: "1 \<le> 4 * sent * sent" using assms(2) by (smt (verit, best) mult_le_cancel_left1)
  obtain n n2 n4 where n: "f_of_int sent = Fin n" "f_of_int (2 * sent) = Fin n2" "f_of_int (4 * sent * sent) = Fin n4" "1 \<le> n" "1 \<le> n2" "1 \<le> n4"
      "n = rnd (of_int sent)" "n2 = rnd (of_int (2 * sent))"
    using count_rounds [OF big(1,2)] count_rounds [OF big(3,4)] count_rounds [OF pos big(5)] by blast
  have nn: "n \<le> n2" unfolding n(7,8) using assms(2) by (intro rnd_mono) simp
  have lost: "f_of_int ?lost = Fin (of_int ?lost)" "rnd (of_int sent) = of_int sent"
    using assms fl_fin [of "of_int ?lost"] rnd_of_int [of ?lost] rnd_of_int [of sent] count_rounds [of ?lost] by (auto simp: f_of_int_def)
  have "0 \<le> real_of_int ?lost / n \<and> real_of_int ?lost / n \<le> 1" using assms n(4) unfolding n(7) lost(2) by (simp add: divide_le_eq)
  then obtain p where p: "f_div (f_of_int ?lost) (Fin n) = Fin p" "0 \<le> p" "p \<le> 1"
    using fl_upto [of "of_int ?lost / n" 1] n(4) unfolding lost(1) by auto
  obtain z where z: "fl (196 / 100) = Fin z" "0 \<le> z" "z \<le> 2" using fl_upto [of "196 / 100" 2] by auto
  obtain zz where zz: "f_mul (Fin z) (Fin z) = Fin zz" "0 \<le> zz" "zz \<le> 4" using prod_unit [of z 2 z 2] z by auto
  obtain d c where c: "f_add (Fin 1) (f_div (Fin zz) (Fin n)) = Fin d" "1 \<le> d"
      "f_div (f_add (Fin p) (f_div (Fin zz) (Fin n2))) (Fin d) = Fin c" "0 \<le> c" "c \<le> 1"
    using loss_middle [OF p(2,3) zz(2,3) n(4) nn] by blast
  obtain m where m: "f_mul (f_div (Fin z) (Fin d)) (f_sqrt (f_add (f_div (f_mul (Fin p) (f_sub (Fin 1) (Fin p))) (Fin n)) (f_div (Fin zz) (Fin n4)))) = Fin m"
      "0 \<le> m" "m \<le> 6"
    using loss_width [OF p(2,3) z(2,3) zz(2,3) c(2) n(4,6)] by blast
  obtain lo hi where e: "f_mul (f_max (f_sub (Fin c) (Fin m)) (Fin 0)) (Fin 100) = Fin lo" "f_mul (f_min (f_add (Fin c) (Fin m)) (Fin 1)) (Fin 100) = Fin hi"
      "0 \<le> lo" "lo \<le> hi" "hi \<le> 100" using interval_ends [OF c(4,5) m(2,3)] by blast
  obtain mean where mean: "f_mul (Fin p) (Fin 100) = Fin mean" "0 \<le> mean" "mean \<le> 100" using prod_unit [of p 1 100 100] p by auto
  have "loss_posterior recv sent = Some \<lparr>po_mean = Fin mean, po_lo = Fin lo, po_hi = Fin hi\<rparr>"
    unfolding loss_posterior_def Let_def n(1-3) p(1) z(1) zz(1) c(1,3) m(1) e(1,2) mean(1) using assms(2) by simp
  then show ?thesis using e(3-5) mean(2,3) by blast
qed

end
