(* ===== verification/Probe_Stats.thy ===== *)
theory Probe_Stats
  imports Go_Float
begin

text \<open>
  The latency statistics of the ping and STAMP processors (\<^verbatim>\<open>msToDuration\<close>,
  \<^verbatim>\<open>computeStats\<close> and \<^verbatim>\<open>percentile\<close> of their \<^verbatim>\<open>processor.go\<close>, the last two
  the same text in both). Durations are 64-bit nanosecond counts; the interpolation is done in
  floating point. An index outside the slice is a panic.
\<close>

definition msToDuration :: "float64 \<Rightarrow> duration" where
  "msToDuration ms = f_to_i64 (f_mul ms (f_of_int millisecond))"

definition slice_at :: "int list \<Rightarrow> int \<Rightarrow> (string, int) outcome" where
  "slice_at xs i = (if 0 \<le> i \<and> i < int (length xs) then Ret (xs ! nat i) else Panic)"

definition percentile :: "duration list \<Rightarrow> float64 \<Rightarrow> (string, duration) outcome" where
  "percentile vs p =
     (if length vs = 0 then Ret 0
      else if length vs = 1 then slice_at vs 0
      else let rank = f_mul p (f_of_int (int (length vs) - 1));
               lo = f_to_i64 rank;
               hi = int64 (lo + 1)
           in if int (length vs) \<le> hi then slice_at vs (int (length vs) - 1)
              else let fr = f_sub rank (f_of_int lo)
                in obind (slice_at vs lo) (\<lambda>a. obind (slice_at vs hi) (\<lambda>b.
                     Ret (f_to_i64 (f_add (f_mul (f_of_int a) (f_sub (Fin 1) fr)) (f_mul (f_of_int b) fr))))))"

record LatencyStats =
  ls_Mean :: duration
  ls_P50 :: duration
  ls_P95 :: duration
  ls_StdDev :: duration

fun sum64 :: "int \<Rightarrow> int list \<Rightarrow> int" where
  "sum64 acc [] = acc"
| "sum64 acc (v # vs) = sum64 (int64 (acc + v)) vs"

definition computeStats :: "duration list \<Rightarrow> (string, LatencyStats) outcome" where
  "computeStats values =
     (if length values = 0 then Ret \<lparr>ls_Mean = 0, ls_P50 = 0, ls_P95 = 0, ls_StdDev = 0\<rparr>
      else let vs = sort values;
               mean = sum64 0 vs sdiv int (length vs)
           in obind (percentile vs (fl (1 / 2))) (\<lambda>p50.
              obind (percentile vs (fl (95 / 100))) (\<lambda>p95.
              Ret \<lparr>ls_Mean = mean, ls_P50 = p50, ls_P95 = p95, ls_StdDev = 0\<rparr>)))"

lemma stats_no_error: "slice_at xs i \<noteq> Err e" "percentile xs p \<noteq> Err e" "computeStats xs \<noteq> Err e"
proof -
  show at: "slice_at xs i \<noteq> Err e" for xs i by (simp add: slice_at_def)
  show pc: "percentile xs p \<noteq> Err e" for xs p by (simp add: percentile_def Let_def at obind_eq_Err)
  show "computeStats xs \<noteq> Err e" by (simp add: computeStats_def Let_def pc obind_eq_Err)
qed

section \<open>The interpolation stays within the values\<close>

text \<open>Rounding below \<open>2 ^ 52\<close> moves a value by at most a quarter.\<close>

lemma rnd_small_error:
  assumes "\<bar>x\<bar> < 2 ^ 52"
  shows "\<bar>rnd x - x\<bar> \<le> 1 / 4"
proof -
  have "expo x \<le> 51"
  proof (rule ccontr)
    assume "\<not> expo x \<le> 51"
    then have "2 powi 52 \<le> (2 :: real) powi expo x" by (intro two_powi_mono) simp
    also have "\<dots> \<le> \<bar>x\<bar>" using \<open>\<not> expo x \<le> 51\<close> by (intro expo_lower) simp
    finally show False using assms by simp
  qed
  then have "ulp x \<le> 2 powi (- 1)" unfolding ulp_def by (intro two_powi_mono) simp
  then show ?thesis using rnd_error [of x] by (simp add: power_int_minus)
qed

lemma rnd_unit:
  assumes "0 \<le> x" "x \<le> 1"
  shows "0 \<le> rnd x" "rnd x \<le> 1"
  using rnd_nonneg [OF assms(1)] rnd_mono [OF assms(2)] by simp_all

lemma fl_small: "\<bar>x\<bar> < 2 ^ 53 \<Longrightarrow> fl x = Fin (rnd x)"
proof -
  assume x: "\<bar>x\<bar> < 2 ^ 53"
  have "rnd x \<le> 2 ^ 53" "- (2 ^ 53) \<le> rnd x"
    using rnd_mono [of x "2 ^ 53"] rnd_mono [of "- (2 ^ 53)" x] rnd_of_int [of "2 ^ 53"] rnd_of_int [of "- (2 ^ 53)"] x
    by simp_all
  moreover have "(2 :: real) ^ 53 < two1024" by (rule power_strict_increasing) simp_all
  ultimately show ?thesis by (simp add: fl_def Let_def)
qed

lemma rnd_unit_error:
  assumes "0 \<le> x" "x \<le> 1"
  shows "\<bar>rnd x - x\<bar> \<le> 1 / 2 ^ 53"
proof -
  have "expo x \<le> expo 1" using assms by (intro expo_mono) simp
  also have "expo 1 = 0" by (rule expo_eqI) simp_all
  finally have "ulp x \<le> 2 powi (- 52)" unfolding ulp_def by (intro two_powi_mono) simp
  then show ?thesis using rnd_error [of x] by (simp add: power_int_minus)
qed

lemma interpolate_bounds:
  fixes a b f :: real
  assumes m: "m \<le> a" "m \<le> b" "a \<le> M" "b \<le> M" and bnd: "- (2 ^ 50) \<le> m" "M \<le> 2 ^ 50" and f: "0 \<le> f" "f \<le> 1"
  defines "x \<equiv> rnd (rnd (a * rnd (1 - f)) + rnd (b * f))"
  shows "m - 1 < x" "x < M + 1" "f_add (f_mul (Fin a) (f_sub (Fin 1) (Fin f))) (f_mul (Fin b) (Fin f)) = Fin x"
proof -
  define g where "g = rnd (1 - f)"
  have g: "0 \<le> g" "g \<le> 1" "\<bar>g - (1 - f)\<bar> \<le> 1 / 2 ^ 53"
    using rnd_unit [of "1 - f"] rnd_unit_error [of "1 - f"] f by (auto simp: g_def)
  have ab: "\<bar>a\<bar> \<le> 2 ^ 50" "\<bar>b\<bar> \<le> 2 ^ 50" using m bnd by (auto simp: abs_le_iff)
  have ag: "\<bar>a * g\<bar> \<le> 2 ^ 50" "\<bar>b * f\<bar> \<le> 2 ^ 50"
    using mult_mono [OF ab(1) g(2)] mult_mono [OF ab(2) f(2)] g(1) f(1) by (simp_all add: abs_mult)
  have e1: "\<bar>rnd (a * g) - a * g\<bar> \<le> 1 / 4" and e2: "\<bar>rnd (b * f) - b * f\<bar> \<le> 1 / 4"
    using rnd_small_error ag by simp_all
  have s: "\<bar>rnd (a * g) + rnd (b * f)\<bar> < 2 ^ 52" using ag e1 e2 unfolding abs_le_iff abs_less_iff by simp
  have e3: "\<bar>x - (rnd (a * g) + rnd (b * f))\<bar> \<le> 1 / 4" unfolding x_def g_def [symmetric] by (rule rnd_small_error [OF s])
  have "\<bar>a * g - a * (1 - f)\<bar> \<le> 2 ^ 50 * (1 / 2 ^ 53)"
    using mult_mono [OF ab(1) g(3)] by (simp add: abs_mult flip: right_diff_distrib)
  then have e0: "\<bar>a * g - a * (1 - f)\<bar> \<le> 1 / 8" by simp
  have "m * (1 - f) + m * f \<le> a * (1 - f) + b * f" "a * (1 - f) + b * f \<le> M * (1 - f) + M * f"
    using m f by (intro add_mono mult_right_mono; simp)+
  then have c: "m \<le> a * (1 - f) + b * f" "a * (1 - f) + b * f \<le> M" by (simp_all add: algebra_simps)
  show "m - 1 < x" "x < M + 1" using c e0 e1 e2 e3 by linarith+
  show "f_add (f_mul (Fin a) (f_sub (Fin 1) (Fin f))) (f_mul (Fin b) (Fin f)) = Fin x"
    using ag s f by (simp add: f_sub_def fl_small x_def flip: g_def)
qed

definition in_range :: "duration \<Rightarrow> bool" where
  "in_range d \<longleftrightarrow> \<bar>d\<bar> \<le> 2 ^ 50"

lemma f_of_int_small: "\<bar>n\<bar> \<le> 2 ^ 50 \<Longrightarrow> f_of_int n = Fin (of_int n)"
proof -
  assume "\<bar>n\<bar> \<le> 2 ^ 50"
  then have "\<bar>real_of_int n\<bar> < 2 ^ 53" by simp
  then show ?thesis using \<open>\<bar>n\<bar> \<le> 2 ^ 50\<close> rnd_of_int [of n] by (simp add: f_of_int_def fl_small)
qed

lemma trunc_bounds: "m - 1 < x \<Longrightarrow> x < M + 1 \<Longrightarrow> m - 1 \<le> trunc x" "m - 1 < x \<Longrightarrow> x < M + 1 \<Longrightarrow> trunc x \<le> M + 1" for x :: real and m M :: int
  by (simp_all add: trunc_def) linarith+

text \<open>A percentile of non-decreasing values is at most one nanosecond away from their range.\<close>

lemma percentile_bounds:
  assumes "sorted vs" "vs \<noteq> []" "list_all in_range vs" "length vs \<le> 2 ^ 50" "0 \<le> q" "q \<le> 1" "rnd q = q"
  shows "\<exists>d. percentile vs (Fin q) = Ret d \<and> hd vs - 1 \<le> d \<and> d \<le> last vs + 1"
proof (cases "length vs = 1")
  case True
  then obtain v where "vs = [v]" by (cases vs) auto
  then show ?thesis by (simp add: percentile_def slice_at_def)
next
  case False
  then have n: "2 \<le> length vs" using assms(2) by (cases vs; cases "tl vs") auto
  define N where "N = int (length vs) - 1"
  have N: "1 \<le> N" "N \<le> 2 ^ 50" using n assms(4) by (auto simp: N_def)
  define rank where "rank = rnd (q * of_int N)"
  have qN: "0 \<le> q * of_int N" "q * of_int N \<le> of_int N" using assms(5,6) N mult_right_mono [of q 1 "of_int N"] by simp_all
  have rN: "rnd (of_int N) = (of_int N :: real)" using N by (intro rnd_of_int) simp
  have rank: "0 \<le> rank" "rank \<le> of_int N" using rnd_nonneg [OF qN(1)] rnd_mono [OF qN(2)] rN by (simp_all add: rank_def)
  define lo where "lo = \<lfloor>rank\<rfloor>"
  have lo: "0 \<le> lo" "lo \<le> N" "of_int lo \<le> rank" "rank < of_int lo + 1"
    using rank unfolding lo_def by (simp_all add: floor_le_iff)
  have fN: "f_of_int N = Fin (of_int N)" using N by (intro f_of_int_small) simp
  have "of_int N < (2 ^ 53 :: real)" using N(2) by simp
  with qN(2) have "q * of_int N < 2 ^ 53" by (rule le_less_trans)
  then have "\<bar>q * of_int N\<bar> < 2 ^ 53" using qN(1) by (simp only: abs_of_nonneg)
  then have frank: "f_mul (Fin q) (f_of_int N) = Fin rank" by (simp add: fN fl_small rank_def)
  have flo: "f_to_i64 (Fin rank) = lo" using lo N rank by (simp add: trunc_def in_s_def flip: lo_def)
  have hi: "int64 (lo + 1) = lo + 1" using lo N by (intro wrap_s_id) (simp_all add: in_s_def)
  have last: "vs ! nat N = last vs" using n assms(2) by (simp add: last_conv_nth N_def nat_diff_distrib)
  have hdv: "hd vs = vs ! 0" using assms(2) by (simp add: hd_conv_nth)
  have len: "int (length vs) = N + 1" "length vs \<noteq> 0" "length vs \<noteq> 1" using n by (auto simp: N_def)
  have eq: "percentile vs (Fin q) = (if N + 1 \<le> lo + 1 then slice_at vs N
      else obind (slice_at vs lo) (\<lambda>a. obind (slice_at vs (lo + 1)) (\<lambda>b. let fr = f_sub (Fin rank) (f_of_int lo) in
        Ret (f_to_i64 (f_add (f_mul (f_of_int a) (f_sub (Fin 1) fr)) (f_mul (f_of_int b) fr))))))"
    unfolding percentile_def Let_def by (simp only: len frank flo hi if_False add_diff_cancel_right')
  show ?thesis
  proof (cases "N + 1 \<le> lo + 1")
    case True
    then have "percentile vs (Fin q) = Ret (last vs)"
      unfolding eq slice_at_def using N(1) last len(1) by simp
    moreover have "hd vs \<le> last vs" unfolding hdv last [symmetric] using assms(1) n by (intro sorted_nth_mono) (auto simp: N_def)
    ultimately show ?thesis by simp
  next
    case False
    let ?a = "vs ! nat lo" and ?b = "vs ! nat (lo + 1)"
    define f where "f = rnd (rank - of_int lo)"
    have f: "0 \<le> f" "f \<le> 1" using rnd_unit [of "rank - of_int lo"] lo by (simp_all add: f_def)
    have in_len: "nat lo < length vs" "nat (lo + 1) < length vs" using False lo by (auto simp: N_def)
    have ab: "hd vs \<le> ?a" "?a \<le> last vs" "hd vs \<le> ?b" "?b \<le> last vs"
      unfolding hdv last [symmetric] using assms(1) in_len lo False
      by (auto intro!: sorted_nth_mono simp: N_def)
    have rng: "\<And>i. i < length vs \<Longrightarrow> \<bar>vs ! i\<bar> \<le> 2 ^ 50"
      using assms(3) by (simp add: list_all_length in_range_def)
    have bnd: "- (2 ^ 50) \<le> real_of_int (hd vs)" "real_of_int (last vs) \<le> 2 ^ 50"
    proof -
      have "\<bar>hd vs\<bar> \<le> 2 ^ 50" "\<bar>last vs\<bar> \<le> 2 ^ 50"
        using rng [of 0] rng [of "nat N"] n assms(2) unfolding hdv last [symmetric] by (simp_all add: N_def)
      then show "- (2 ^ 50) \<le> real_of_int (hd vs)" "real_of_int (last vs) \<le> 2 ^ 50" by simp_all
    qed
    have fl_lo: "f_of_int lo = Fin (of_int lo)" using lo N by (intro f_of_int_small) simp
    have fr: "f_sub (Fin rank) (f_of_int lo) = Fin f"
      using lo by (simp add: fl_lo f_sub_def fl_small f_def)
    note ib = interpolate_bounds [of "of_int (hd vs)" "of_int ?a" "of_int ?b" "of_int (last vs)" f, OF _ _ _ _ bnd f, simplified, OF ab(1,3,2,4)]
    let ?x = "rnd (rnd (of_int ?a * rnd (1 - f)) + rnd (of_int ?b * f))"
    have "percentile vs (Fin q) = Ret (f_to_i64 (Fin ?x))"
      unfolding eq fr using False lo in_len ib(3) rng by (simp add: slice_at_def Let_def f_of_int_small)
    moreover have "hd vs - 1 \<le> trunc ?x" "trunc ?x \<le> last vs + 1"
      using trunc_bounds [of "hd vs" ?x "last vs"] ib(1,2) by simp_all
    moreover have "in_s 64 (trunc ?x)" using calculation(2,3) bnd by (simp add: in_s_def)
    ultimately show ?thesis by simp
  qed
qed

lemma sorted_hd_min: "xs \<noteq> [] \<Longrightarrow> sorted xs \<Longrightarrow> hd xs = Min (set xs)" for xs :: "int list"
  by (rule Min_eqI [symmetric]) (cases xs; auto)+

lemma sorted_last_max: "xs \<noteq> [] \<Longrightarrow> sorted xs \<Longrightarrow> last xs = Max (set xs)" for xs :: "int list"
  by (rule Max_eqI [symmetric]) (cases xs rule: rev_cases; auto simp: sorted_append)+

lemma fl_unit: "0 \<le> x \<Longrightarrow> x \<le> 1 \<Longrightarrow> \<exists>q. fl x = Fin q \<and> 0 \<le> q \<and> q \<le> 1 \<and> rnd q = q"
proof -
  assume x: "0 \<le> x" "x \<le> 1"
  have "fl x = Fin (rnd x)" using x by (intro fl_small) simp
  moreover have "rnd (rnd x) = rnd x" 
  proof (rule rnd_idem)
    have "\<bar>rnd x\<bar> \<le> 1" using rnd_unit [OF x] by simp
    also have "1 < two1024" by (rule one_less_power) simp_all
    finally show "\<bar>rnd x\<bar> < two1024" .
  qed
  ultimately show ?thesis using rnd_unit [OF x] by blast
qed

lemma computeStats_range:
  assumes "vs \<noteq> []" "list_all in_range vs" "length vs \<le> 2 ^ 50"
  shows "\<exists>st. computeStats vs = Ret st
    \<and> Min (set vs) - 1 \<le> ls_P50 st \<and> ls_P50 st \<le> Max (set vs) + 1
    \<and> Min (set vs) - 1 \<le> ls_P95 st \<and> ls_P95 st \<le> Max (set vs) + 1"
proof -
  have "sort vs \<noteq> []" using assms(1) by (metis length_0_conv length_sort)
  then have vs: "sorted (sort vs)" "sort vs \<noteq> []" "list_all in_range (sort vs)" "length (sort vs) \<le> 2 ^ 50"
    using assms by (simp_all add: list_all_iff)
  note ends = sorted_hd_min [OF vs(2,1)] sorted_last_max [OF vs(2,1)]
  obtain q1 where q1: "fl (1 / 2) = Fin q1" "0 \<le> q1" "q1 \<le> 1" "rnd q1 = q1" using fl_unit [of "1 / 2"] by (simp del: fl_simps) blast
  obtain q2 where q2: "fl (95 / 100) = Fin q2" "0 \<le> q2" "q2 \<le> 1" "rnd q2 = q2" using fl_unit [of "95 / 100"] by (simp del: fl_simps) blast
  obtain p50 where "percentile (sort vs) (Fin q1) = Ret p50" "hd (sort vs) - 1 \<le> p50" "p50 \<le> last (sort vs) + 1"
    using percentile_bounds [OF vs q1(2,3,4)] by blast
  moreover obtain p95 where "percentile (sort vs) (Fin q2) = Ret p95" "hd (sort vs) - 1 \<le> p95" "p95 \<le> last (sort vs) + 1"
    using percentile_bounds [OF vs q2(2,3,4)] by blast
  ultimately show ?thesis using assms(1) q1(1) q2(1) unfolding computeStats_def ends by (simp add: Let_def)
qed

lemma computeStats_total:
  assumes "list_all in_range vs" "length vs \<le> 2 ^ 50"
  shows "\<exists>st. computeStats vs = Ret st \<and> in_s 64 (ls_P50 st) \<and> in_s 64 (ls_P95 st)"
proof (cases "vs = []")
  case True
  then show ?thesis by (simp add: computeStats_def in_s_def)
next
  case False
  have "in_range (Min (set vs))" "in_range (Max (set vs))"
    using assms(1) False Min_in [of "set vs"] Max_in [of "set vs"] by (simp_all add: list_all_iff)
  then show ?thesis
    using computeStats_range [OF False assms] by (fastforce simp: in_range_def in_s_def)
qed

text \<open>
  Property C25. The statistics of a batch always exist, for any number of values up to 2^50, each
  of at most 2^50 nanoseconds (13 days): the percentile indices stay inside the sorted slice, and the
  interpolated median and 95th percentile lie within one nanosecond of the range of the values.
\<close>

theorem computeStats_bounds:
  assumes "vs \<noteq> []" "list_all in_range vs" "length vs \<le> 2 ^ 50"
  shows "\<exists>st. computeStats vs = Ret st
    \<and> Min (set vs) - 1 \<le> ls_P50 st \<and> ls_P50 st \<le> Max (set vs) + 1
    \<and> Min (set vs) - 1 \<le> ls_P95 st \<and> ls_P95 st \<le> Max (set vs) + 1"
  by (rule computeStats_range [OF assms])

theorem computeStats_bounds_witness:
  "\<exists>st. computeStats [30, 10, 20] = Ret st \<and> 9 \<le> ls_P95 st \<and> ls_P95 st \<le> 31"
proof -
  have "list_all in_range [30, 10, 20]" by (simp add: in_range_def)
  from computeStats_bounds [OF _ this] show ?thesis by auto
qed

end
