(* ===== verification/Probe_Flush.thy ===== *)
theory Probe_Flush
  imports Pg_Base
begin

text \<open>
  The batch writer of the ping and STAMP processors (\<^verbatim>\<open>runFlusher\<close>, \<^verbatim>\<open>flush\<close> and
  \<^verbatim>\<open>nakAll\<close>, the same text in both up to the row types). The two insert statements are
  arguments here; \<open>probe_store\<close> is what they promise, and each processor shows it for its own
  statements. Acknowledgements are outputs: a failed one is only logged.
\<close>

definition flushSize :: nat where "flushSize = 50"

record ('m, 'p) pending =
  pe_msg :: nat
  pe_measurement :: 'm
  pe_probes :: "'p list"

record ('m, 'p) pstore =
  ps_measurements :: "(uuid \<times> 'm) list"
  ps_probes :: "'p list"
  ps_stmts :: nat

datatype settle = Acked nat | Nakked nat

fun settled_msg :: "settle \<Rightarrow> nat" where
  "settled_msg (Acked n) = n"
| "settled_msg (Nakked n) = n"

section \<open>Statements\<close>

definition pexec :: "db_env \<Rightarrow> (nat \<Rightarrow> ('m, 'p) pstore \<Rightarrow> (db_error + 'a) \<times> ('m, 'p) pstore) \<Rightarrow>
    ('m, 'p) pstore \<Rightarrow> (db_error + 'a) \<times> ('m, 'p) pstore" where
  "pexec env q d =
     (let n = ps_stmts d; d' = d\<lparr>ps_stmts := Suc n\<rparr> in
      case de_fault env n of
        FNone \<Rightarrow> q n d'
      | FFail \<Rightarrow> (Inl DbFail, d')
      | FLost \<Rightarrow> (Inl DbFail, snd (q n d')))"

text \<open>A measurement refers to its agent configuration, when it has one.\<close>

definition insert_measurement ::
  "db_env \<Rightarrow> (uuid \<Rightarrow> bool) \<Rightarrow> uuid pgval \<Rightarrow> 'm \<Rightarrow> ('m, 'p) pstore \<Rightarrow> (db_error + uuid) \<times> ('m, 'p) pstore" where
  "insert_measurement env agents cfg m = pexec env (\<lambda>n d.
     let i = de_uuid env n in
     if pg_Valid cfg \<and> \<not> agents (pg_val cfg) then (Inl ForeignKeyViolation, d)
     else if i \<in> fst ` set (ps_measurements d) then (Inl UniqueViolation, d)
     else (Inr i, d\<lparr>ps_measurements := ps_measurements d @ [(i, m)]\<rparr>))"

text \<open>The rows of a copy, each referring to a measurement.\<close>

definition insert_probes ::
  "db_env \<Rightarrow> ('p \<Rightarrow> uuid pgval) \<Rightarrow> 'p list \<Rightarrow> ('m, 'p) pstore \<Rightarrow> (db_error + nat) \<times> ('m, 'p) pstore" where
  "insert_probes env mid rows = pexec env (\<lambda>n d.
     if list_ex (\<lambda>r. pg_Valid (mid r) \<and> pg_val (mid r) \<notin> fst ` set (ps_measurements d)) rows
     then (Inl ForeignKeyViolation, d)
     else (Inr (length rows), d\<lparr>ps_probes := ps_probes d @ rows\<rparr>))"

text \<open>The row source of a copy (the iterators of \<^verbatim>\<open>copyfrom.go\<close>), and the rows a copy reads from it.\<close>

record 'p copy_iter =
  ci_rows :: "'p list"
  ci_skippedFirstNextCall :: bool

definition iter_Next :: "'p copy_iter \<Rightarrow> bool \<times> 'p copy_iter" where
  "iter_Next r =
     (if length (ci_rows r) = 0 then (False, r)
      else if \<not> ci_skippedFirstNextCall r then (True, r\<lparr>ci_skippedFirstNextCall := True\<rparr>)
      else let r' = r\<lparr>ci_rows := tl (ci_rows r)\<rparr> in (0 < length (ci_rows r'), r'))"

definition iter_Values :: "'p copy_iter \<Rightarrow> 'p" where
  "iter_Values r = ci_rows r ! 0"

function copy_rows :: "'p copy_iter \<Rightarrow> 'p list" where
  "copy_rows r = (case iter_Next r of (has_next, r') \<Rightarrow> if has_next then iter_Values r' # copy_rows r' else [])"
  by auto
termination
  by (relation "measure (\<lambda>r. 2 * length (ci_rows r) + (if ci_skippedFirstNextCall r then 0 else 1))")
    (auto simp: iter_Next_def Let_def split: if_splits)

declare copy_rows.simps [simp del]

lemma copy_rows_skipped: "copy_rows \<lparr>ci_rows = xs, ci_skippedFirstNextCall = True\<rparr> = tl xs"
proof (induction xs)
  case (Cons x xs)
  then show ?case
    by (subst copy_rows.simps) (cases xs; simp add: iter_Next_def iter_Values_def)
qed (subst copy_rows.simps, simp add: iter_Next_def)

lemma copy_rows_all: "copy_rows \<lparr>ci_rows = xs, ci_skippedFirstNextCall = False\<rparr> = xs"
  by (subst copy_rows.simps) (cases xs; simp add: iter_Next_def iter_Values_def copy_rows_skipped)

text \<open>What a successful insert leaves.\<close>

lemma pexec_Inr: "pexec env q d = (Inr a, d') \<Longrightarrow> \<exists>n. q n (d\<lparr>ps_stmts := Suc (ps_stmts d)\<rparr>) = (Inr a, d')"
  by (auto simp: pexec_def Let_def split: fault.splits)

lemma insert_measurement_ok:
  "insert_measurement env agents cfg m d = (Inr i, d') \<Longrightarrow>
   ps_measurements d' = ps_measurements d @ [(i, m)] \<and> ps_probes d' = ps_probes d"
  unfolding insert_measurement_def by (drule pexec_Inr) (auto simp: Let_def split: if_splits)

lemma insert_probes_ok:
  "insert_probes env mid rows d = (Inr n, d') \<Longrightarrow>
   ps_measurements d' = ps_measurements d \<and> ps_probes d' = ps_probes d @ rows"
  unfolding insert_probes_def by (drule pexec_Inr) (auto split: if_splits)

section \<open>Writing a batch\<close>

fun insert_batch where
  "insert_batch insM insP setid [] d = (Inr (), d)"
| "insert_batch insM insP setid (p # ps) d = (case insM (pe_measurement p) d of
     (Inl e, d1) \<Rightarrow> (Inl e, d1)
   | (Inr measurement, d1) \<Rightarrow>
       if length (pe_probes p) = 0 then insert_batch insM insP setid ps d1
       else case insP (map (setid \<lparr>pg_val = measurement, pg_Valid = True\<rparr>) (pe_probes p)) d1 of
         (Inl e, d2) \<Rightarrow> (Inl e, d2)
       | (Inr _, d2) \<Rightarrow> insert_batch insM insP setid ps d2)"

definition nakAll :: "('m, 'p) pending list \<Rightarrow> settle list" where
  "nakAll batch = map (\<lambda>p. Nakked (pe_msg p)) batch"

definition flush_batch ::
  "db_env \<Rightarrow> ('m \<Rightarrow> ('m, 'p) pstore \<Rightarrow> (db_error + uuid) \<times> ('m, 'p) pstore) \<Rightarrow>
   ('p list \<Rightarrow> ('m, 'p) pstore \<Rightarrow> (db_error + nat) \<times> ('m, 'p) pstore) \<Rightarrow> (uuid pgval \<Rightarrow> 'p \<Rightarrow> 'p) \<Rightarrow>
   ('m, 'p) pending list \<Rightarrow> ('m, 'p) pstore \<Rightarrow> ('m, 'p) pstore \<times> settle list" where
  "flush_batch env insM insP setid batch d =
     (if length batch = 0 then (d, [])
      else let d0 = d\<lparr>ps_stmts := Suc (ps_stmts d)\<rparr> in
        case de_begin env (ps_stmts d) of
          TxErr _ \<Rightarrow> (d0, nakAll batch)
        | TxOk \<Rightarrow> (case insert_batch insM insP setid batch d0 of
            (Inl e, d1) \<Rightarrow> (d0\<lparr>ps_stmts := Suc (ps_stmts d1)\<rparr>, nakAll batch)
          | (Inr _, d1) \<Rightarrow> (case de_fault env (ps_stmts d1) of
              FNone \<Rightarrow> (d1\<lparr>ps_stmts := Suc (ps_stmts d1)\<rparr>, map (\<lambda>p. Acked (pe_msg p)) batch)
            | FFail \<Rightarrow> (d0\<lparr>ps_stmts := Suc (ps_stmts d1)\<rparr>, nakAll batch)
            | FLost \<Rightarrow> (d1\<lparr>ps_stmts := Suc (ps_stmts d1)\<rparr>, nakAll batch))))"

section \<open>The flusher loop\<close>

datatype ('m, 'p) flush_event =
    Received "('m, 'p) pending"
  | Ticked
  | Stopped

type_synonym ('m, 'p) flusher = "('m, 'p) pending list \<times> ('m, 'p) pstore \<times> settle list"

fun run_flusher ::
  "(('m, 'p) pending list \<Rightarrow> ('m, 'p) pstore \<Rightarrow> ('m, 'p) pstore \<times> settle list) \<Rightarrow>
   ('m, 'p) flush_event list \<Rightarrow> ('m, 'p) flusher \<Rightarrow> ('m, 'p) flusher" where
  "run_flusher flush [] s = s"
| "run_flusher flush (Stopped # es) s = s"
| "run_flusher flush (Received p # es) (batch, d, settled) =
     (let batch' = batch @ [p] in
      if flushSize \<le> length batch'
      then case flush batch' d of (d', out) \<Rightarrow> run_flusher flush es ([], d', settled @ out)
      else run_flusher flush es (batch', d, settled))"
| "run_flusher flush (Ticked # es) (batch, d, settled) =
     (case flush batch d of (d', out) \<Rightarrow> run_flusher flush es ([], d', settled @ out))"

lemma run_flusher_tick:
  "run_flusher flush (es @ [Ticked]) (batch, d, settled) = (batch', d', settled') \<Longrightarrow>
   Stopped \<notin> set (es @ [Ticked]) \<Longrightarrow> batch' = []"
proof (induction es arbitrary: batch d settled)
  case (Cons e es)
  then show ?case by (cases e) (auto simp: Let_def split: prod.splits if_splits)
qed (auto split: prod.splits)

section \<open>What the statements promise, and what the writer makes of it\<close>

text \<open>The rows of a batch under the given measurement identifiers.\<close>

definition probe_rows :: "(uuid pgval \<Rightarrow> 'p \<Rightarrow> 'p) \<Rightarrow> uuid list \<Rightarrow> ('m, 'p) pending list \<Rightarrow> 'p list" where
  "probe_rows setid ids batch =
     concat (map (\<lambda>(i, p). map (setid \<lparr>pg_val = i, pg_Valid = True\<rparr>) (pe_probes p)) (zip ids batch))"

definition stores :: "(uuid pgval \<Rightarrow> 'p \<Rightarrow> 'p) \<Rightarrow> ('m, 'p) pending list \<Rightarrow> ('m, 'p) pstore \<Rightarrow> ('m, 'p) pstore \<Rightarrow> bool" where
  "stores setid batch d d' \<longleftrightarrow> (\<exists>ids. length ids = length batch
     \<and> ps_measurements d' = ps_measurements d @ zip ids (map pe_measurement batch)
     \<and> ps_probes d' = ps_probes d @ probe_rows setid ids batch)"

definition same_tables :: "('m, 'p) pstore \<Rightarrow> ('m, 'p) pstore \<Rightarrow> bool" where
  "same_tables d d' \<longleftrightarrow> ps_measurements d' = ps_measurements d \<and> ps_probes d' = ps_probes d"

lemma stores_Nil: "same_tables d d' \<Longrightarrow> stores setid [] d d'"
  by (simp add: stores_def same_tables_def probe_rows_def)

lemma stores_append:
  assumes "stores setid xs d d1" "stores setid ys d1 d2"
  shows "stores setid (xs @ ys) d d2"
proof -
  obtain ks where i: "length ks = length xs" "ps_measurements d1 = ps_measurements d @ zip ks (map pe_measurement xs)"
    "ps_probes d1 = ps_probes d @ probe_rows setid ks xs" using assms(1) by (auto simp: stores_def)
  obtain js where j: "length js = length ys" "ps_measurements d2 = ps_measurements d1 @ zip js (map pe_measurement ys)"
    "ps_probes d2 = ps_probes d1 @ probe_rows setid js ys" using assms(2) by (auto simp: stores_def)
  show ?thesis unfolding stores_def
    by (rule exI [of _ "ks @ js"]) (use i j in \<open>simp add: probe_rows_def\<close>)
qed

definition received_msgs :: "('m, 'p) flush_event list \<Rightarrow> nat list" where
  "received_msgs es = concat (map (\<lambda>e. case e of Received p \<Rightarrow> [pe_msg p] | _ \<Rightarrow> []) es)"

locale probe_store =
  fixes insM :: "'m \<Rightarrow> ('m, 'p) pstore \<Rightarrow> (db_error + uuid) \<times> ('m, 'p) pstore"
    and insP :: "'p list \<Rightarrow> ('m, 'p) pstore \<Rightarrow> (db_error + nat) \<times> ('m, 'p) pstore"
    and setid :: "uuid pgval \<Rightarrow> 'p \<Rightarrow> 'p"
  assumes insM_ok: "insM m d = (Inr i, d') \<Longrightarrow>
      ps_measurements d' = ps_measurements d @ [(i, m)] \<and> ps_probes d' = ps_probes d"
    and insP_ok: "insP rows d = (Inr n, d') \<Longrightarrow>
      ps_measurements d' = ps_measurements d \<and> ps_probes d' = ps_probes d @ rows"
begin

lemma insert_batch_stores: "insert_batch insM insP setid batch d = (Inr u, d') \<Longrightarrow> stores setid batch d d'"
proof (induction batch arbitrary: d)
  case Nil
  then show ?case by (simp add: stores_Nil same_tables_def)
next
  case (Cons p ps)
  from Cons.prems obtain i d1 where m: "insM (pe_measurement p) d = (Inr i, d1)"
    by (auto split: prod.splits sum.splits)
  let ?rows = "map (setid \<lparr>pg_val = i, pg_Valid = True\<rparr>) (pe_probes p)"
  obtain d2 where d2: "ps_measurements d2 = ps_measurements d1" "ps_probes d2 = ps_probes d1 @ ?rows"
    "insert_batch insM insP setid ps d2 = (Inr u, d')"
  proof (cases "pe_probes p = []")
    case True
    then show ?thesis using Cons.prems m that [of d1] by simp
  next
    case False
    then obtain n d2 where r: "insP ?rows d1 = (Inr n, d2)" "insert_batch insM insP setid ps d2 = (Inr u, d')"
      using Cons.prems m by (auto split: prod.splits sum.splits)
    then show ?thesis using insP_ok [OF r(1)] that [of d2] by simp
  qed
  have "stores setid [p] d d2" unfolding stores_def
    by (rule exI [of _ "[i]"]) (use insM_ok [OF m] d2(1,2) in \<open>simp add: probe_rows_def\<close>)
  from stores_append [OF this Cons.IH [OF d2(3)]] show ?case by simp
qed

lemma flush_cases:
  assumes "flush_batch env insM insP setid batch d = (d', out)"
  obtains (acked) "stores setid batch d d'" "out = map (\<lambda>p. Acked (pe_msg p)) batch"
  | (nakked) "same_tables d d'" "out = map (\<lambda>p. Nakked (pe_msg p)) batch"
  | (lost) "stores setid batch d d'" "out = map (\<lambda>p. Nakked (pe_msg p)) batch" "\<exists>n. de_fault env n = FLost"
proof (cases "batch = []")
  case True
  then show ?thesis using assms acked by (simp add: flush_batch_def stores_Nil same_tables_def)
next
  case False
  let ?d0 = "d\<lparr>ps_stmts := Suc (ps_stmts d)\<rparr>"
  have st: "stores setid batch ?d0 x \<Longrightarrow> stores setid batch d (x\<lparr>ps_stmts := n\<rparr>)" for x n
    by (simp add: stores_def)
  show ?thesis
  proof (cases "de_begin env (ps_stmts d)")
    case (TxErr x)
    then show ?thesis using assms False nakked by (auto simp: flush_batch_def Let_def nakAll_def same_tables_def)
  next
    case TxOk
    obtain r d1 where ib: "insert_batch insM insP setid batch ?d0 = (r, d1)" by (cases "insert_batch insM insP setid batch ?d0")
    note flush = assms [unfolded flush_batch_def Let_def, simplified TxOk ib False, simplified]
    show ?thesis
    proof (cases r)
      case (Inl e)
      then show ?thesis using flush False nakked by (auto simp: nakAll_def same_tables_def)
    next
      case (Inr u)
      then have s: "stores setid batch ?d0 d1" using insert_batch_stores ib by simp
      show ?thesis
        using flush Inr False st [OF s] acked nakked lost
        by (cases "de_fault env (ps_stmts d1)") (auto simp: nakAll_def same_tables_def)
    qed
  qed
qed

lemma flush_settles:
  "flush_batch env insM insP setid batch d = (d', out) \<Longrightarrow> map settled_msg out = map pe_msg batch"
  by (erule flush_cases) (simp_all add: comp_def)

text \<open>
  Over a run of the loop every received message is settled exactly once, in order, or is still in
  the batch, which never reaches the flush size.
\<close>

lemma run_flusher_settles:
  assumes "run_flusher (flush_batch env insM insP setid) es (batch, d, done) = (batch', d', done')"
    and "Stopped \<notin> set es" "length batch < flushSize"
  shows "map settled_msg done' @ map pe_msg batch' = map settled_msg done @ map pe_msg batch @ received_msgs es
    \<and> length batch' < flushSize"
  using assms
proof (induction es arbitrary: batch d "done")
  case (Cons e es)
  show ?case
  proof (cases e)
    case (Received p)
    obtain d1 out where f: "flush_batch env insM insP setid (batch @ [p]) d = (d1, out)"
      by (cases "flush_batch env insM insP setid (batch @ [p]) d")
    show ?thesis
      using Cons.prems Cons.IH [of "batch @ [p]" d "done"] Cons.IH [of "[]" d1 "done @ out"] flush_settles [OF f]
      by (cases "flushSize \<le> length (batch @ [p])") (auto simp: Received f received_msgs_def flushSize_def)
  next
    case Ticked
    obtain d1 out where f: "flush_batch env insM insP setid batch d = (d1, out)"
      by (cases "flush_batch env insM insP setid batch d")
    show ?thesis
      using Cons.prems Cons.IH [of "[]" d1 "done @ out"] flush_settles [OF f]
      by (auto simp: Ticked f received_msgs_def flushSize_def)
  next
    case Stopped
    then show ?thesis using Cons.prems by simp
  qed
qed (simp add: received_msgs_def)

text \<open>What was acknowledged is stored.\<close>

lemma flush_mono_acked:
  assumes "flush_batch env insM insP setid batch d = (d', out)"
  shows "set (ps_measurements d) \<subseteq> set (ps_measurements d')"
    and "Acked n \<in> set out \<Longrightarrow> \<exists>p \<in> set batch. pe_msg p = n \<and> pe_measurement p \<in> snd ` set (ps_measurements d')"
proof -
  have st: "set (ps_measurements d) \<subseteq> set (ps_measurements d')"
    "\<forall>p \<in> set batch. pe_measurement p \<in> snd ` set (ps_measurements d')" if "stores setid batch d d'"
  proof -
    obtain ids where i: "length ids = length batch"
      "ps_measurements d' = ps_measurements d @ zip ids (map pe_measurement batch)"
      using \<open>stores setid batch d d'\<close> by (auto simp: stores_def)
    have "snd ` set (zip ids (map pe_measurement batch)) = pe_measurement ` set batch"
      using i(1) by (metis length_map list.set_map map_snd_zip)
    then show "set (ps_measurements d) \<subseteq> set (ps_measurements d')"
      "\<forall>p \<in> set batch. pe_measurement p \<in> snd ` set (ps_measurements d')"
      using i(2) by (auto simp: image_Un)
  qed
  show "set (ps_measurements d) \<subseteq> set (ps_measurements d')"
    using assms by (rule flush_cases) (use st(1) in \<open>auto simp: same_tables_def\<close>)
  assume n: "Acked n \<in> set out"
  from assms show "\<exists>p \<in> set batch. pe_msg p = n \<and> pe_measurement p \<in> snd ` set (ps_measurements d')"
    by (rule flush_cases) (use n st(2) in auto)
qed

lemma run_flusher_acked:
  assumes "run_flusher (flush_batch env insM insP setid) es (batch, d, done) = (batch', d', done')"
  shows "set (ps_measurements d) \<subseteq> set (ps_measurements d') \<and> (Acked n \<in> set done' \<longrightarrow> Acked n \<in> set done
      \<or> (\<exists>p. (p \<in> set batch \<or> Received p \<in> set es) \<and> pe_msg p = n \<and> pe_measurement p \<in> snd ` set (ps_measurements d')))"
  using assms
proof (induction es arbitrary: batch d "done")
  case (Cons e es)
  have step: "set (ps_measurements d) \<subseteq> set (ps_measurements d') \<and> (Acked n \<in> set done' \<longrightarrow> Acked n \<in> set done
      \<or> (\<exists>p. (p \<in> set xs \<or> Received p \<in> set es) \<and> pe_msg p = n \<and> pe_measurement p \<in> snd ` set (ps_measurements d')))"
    if f: "flush_batch env insM insP setid xs d = (d1, out)"
      and r: "run_flusher (flush_batch env insM insP setid) es ([], d1, done @ out) = (batch', d', done')" for xs d1 out
    using flush_mono_acked(1) [OF f] flush_mono_acked(2) [OF f, of n] Cons.IH [OF r] by fastforce
  show ?case
  proof (cases e)
    case (Received p)
    obtain d1 out where f: "flush_batch env insM insP setid (batch @ [p]) d = (d1, out)"
      by (cases "flush_batch env insM insP setid (batch @ [p]) d")
    show ?thesis
    proof (cases "flushSize \<le> length (batch @ [p])")
      case True
      then show ?thesis using Cons.prems step [OF f] by (simp add: Received f) blast
    next
      case False
      then show ?thesis using Cons.prems Cons.IH [of "batch @ [p]" d "done"] by (simp add: Received) blast
    qed
  next
    case Ticked
    obtain d1 out where f: "flush_batch env insM insP setid batch d = (d1, out)"
      by (cases "flush_batch env insM insP setid batch d")
    show ?thesis using Cons.prems step [OF f] by (simp add: Ticked f)
  next
    case Stopped
    then show ?thesis using Cons.prems by simp
  qed
qed simp

end

end
