(* ===== verification/Probe_Pipeline.thy ===== *)
theory Probe_Pipeline
  imports Probe_Flush Nats_Base
begin

text \<open>
  The two goroutines of the ping and STAMP processors (\<^verbatim>\<open>Start\<close> in \<^verbatim>\<open>processor.go\<close>), in every
  interleaving: the fetch loop, which handles a message and sends its row into a bounded channel, and the
  flusher, which collects rows from it and writes them. What is done with one message and how a batch is written are
  arguments; the messages, and how their publications end, are inputs. The handle of a message is its position among the messages fetched.
\<close>

definition pendingBuffer :: nat where "pendingBuffer = 256"

record ('m, 'p) pipe =
  pi_sending :: "('m, 'p) pending option"
  pi_channel :: "('m, 'p) pending list"
  pi_batch :: "('m, 'p) pending list"
  pi_store :: "('m, 'p) pstore"
  pi_settled :: "settle list"
  pi_out :: published
  pi_crashed :: bool

type_synonym ('m, 'p) handler = "pub_result \<Rightarrow> nat \<Rightarrow> json option \<Rightarrow> (string, published \<times> ('m, 'p) pending handled) outcome"

type_synonym ('m, 'p) writer = "('m, 'p) pending list \<Rightarrow> ('m, 'p) pstore \<Rightarrow> ('m, 'p) pstore \<times> settle list"

definition pipe_start :: "('m, 'p) pstore \<Rightarrow> ('m, 'p) pipe" where
  "pipe_start d = \<lparr>pi_sending = None, pi_channel = [], pi_batch = [], pi_store = d, pi_settled = [], pi_out = [], pi_crashed = False\<rparr>"

text \<open>The fetch loop handles the next message; a panic ends the process.\<close>

definition pipe_fetch :: "('m, 'p) handler \<Rightarrow> pub_result \<Rightarrow> nat \<Rightarrow> json option \<Rightarrow> ('m, 'p) pipe \<Rightarrow> ('m, 'p) pipe" where
  "pipe_fetch handle pr n data s = (case handle pr n data of
       Ret (out, Rejected) \<Rightarrow> s\<lparr>pi_out := pi_out s @ out, pi_settled := pi_settled s @ [Nakked n]\<rparr>
     | Ret (out, Enqueued p) \<Rightarrow> s\<lparr>pi_out := pi_out s @ out, pi_sending := Some p\<rparr>
     | _ \<Rightarrow> s\<lparr>pi_crashed := True\<rparr>)"

text \<open>It sends the row when the channel has room; until then it waits.\<close>

definition pipe_send :: "('m, 'p) pipe \<Rightarrow> ('m, 'p) pipe" where
  "pipe_send s = (case pi_sending s of
       Some p \<Rightarrow> if length (pi_channel s) < pendingBuffer then s\<lparr>pi_channel := pi_channel s @ [p], pi_sending := None\<rparr> else s
     | None \<Rightarrow> s)"

text \<open>The flusher writes its batch.\<close>

definition pipe_flush :: "('m, 'p) writer \<Rightarrow> ('m, 'p) pending list \<Rightarrow> ('m, 'p) pipe \<Rightarrow> ('m, 'p) pipe" where
  "pipe_flush flush batch s = (case flush batch (pi_store s) of (d', out) \<Rightarrow>
     s\<lparr>pi_batch := [], pi_store := d', pi_settled := pi_settled s @ out\<rparr>)"

definition pipe_take :: "('m, 'p) writer \<Rightarrow> ('m, 'p) pipe \<Rightarrow> ('m, 'p) pipe" where
  "pipe_take flush s = (case pi_channel s of
       [] \<Rightarrow> s
     | p # rest \<Rightarrow> let batch = pi_batch s @ [p]; s' = s\<lparr>pi_channel := rest\<rparr> in
         if flushSize \<le> length batch then pipe_flush flush batch s' else s'\<lparr>pi_batch := batch\<rparr>)"

definition pipe_tick :: "('m, 'p) writer \<Rightarrow> ('m, 'p) pipe \<Rightarrow> ('m, 'p) pipe" where
  "pipe_tick flush s = pipe_flush flush (pi_batch s) s"

inductive pipe_step :: "('m, 'p) writer \<Rightarrow> ('m, 'p) pipe \<Rightarrow> ('m, 'p) pipe \<Rightarrow> bool" for flush where
  send: "\<not> pi_crashed s \<Longrightarrow> pipe_step flush s (pipe_send s)"
| take: "\<not> pi_crashed s \<Longrightarrow> pipe_step flush s (pipe_take flush s)"
| tick: "\<not> pi_crashed s \<Longrightarrow> pipe_step flush s (pipe_tick flush s)"

inductive pipe_reach :: "('m, 'p) handler \<Rightarrow> ('m, 'p) writer \<Rightarrow> ('m, 'p) pipe \<Rightarrow> (pub_result \<times> json option) list \<Rightarrow> ('m, 'p) pipe \<Rightarrow> bool"
  for handle flush s0 where
  started: "pipe_reach handle flush s0 [] s0"
| fetch: "pipe_reach handle flush s0 hist s \<Longrightarrow> \<not> pi_crashed s \<Longrightarrow> pi_sending s = None
    \<Longrightarrow> pipe_reach handle flush s0 (hist @ [(pr, data)]) (pipe_fetch handle pr (length hist) data s)"
| step: "pipe_reach handle flush s0 hist s \<Longrightarrow> pipe_step flush s s' \<Longrightarrow> pipe_reach handle flush s0 hist s'"

lemma case_published:
  "(case r of (False, out) \<Rightarrow> f out | (True, out) \<Rightarrow> g out) = (if fst r then g (snd r) else f (snd r))"
  by (cases r) (auto split: bool.split)

section \<open>Where a message can be\<close>

definition in_flight :: "('m, 'p) pipe \<Rightarrow> ('m, 'p) pending list" where
  "in_flight s = pi_batch s @ pi_channel s @ (case pi_sending s of None \<Rightarrow> [] | Some p \<Rightarrow> [p])"

text \<open>The rows of the messages fetched, and the messages that get one.\<close>

definition row_of :: "('m, 'p) handler \<Rightarrow> (pub_result \<times> json option) list \<Rightarrow> nat \<Rightarrow> published \<Rightarrow> ('m, 'p) pending \<Rightarrow> bool" where
  "row_of handle hist n out p \<longleftrightarrow> n < length hist \<and> (case hist ! n of (pr, data) \<Rightarrow> handle pr n data = Ret (out, Enqueued p))"

text \<open>The messages a state accounts for.\<close>

definition accounted :: "('m, 'p) pipe \<Rightarrow> nat list" where
  "accounted s = map settled_msg (pi_settled s) @ map pe_msg (in_flight s)"

definition core_inv :: "('m, 'p) handler \<Rightarrow> (pub_result \<times> json option) list \<Rightarrow> ('m, 'p) pipe \<Rightarrow> bool" where
  "core_inv handle hist s \<longleftrightarrow> length (pi_channel s) \<le> pendingBuffer
     \<and> distinct (accounted s) \<and> set (accounted s) \<subseteq> {..<length hist}
     \<and> (\<not> pi_crashed s \<longrightarrow> set (accounted s) = {..<length hist})
     \<and> (\<forall>p \<in> set (in_flight s). \<exists>out. row_of handle hist (pe_msg p) out p \<and> set out \<subseteq> set (pi_out s))
     \<and> (\<forall>n. Acked n \<in> set (pi_settled s) \<longrightarrow> (\<exists>out p. row_of handle hist n out p \<and> set out \<subseteq> set (pi_out s)
          \<and> pe_measurement p \<in> snd ` set (ps_measurements (pi_store s))))"

definition pipe_inv :: "('m, 'p) handler \<Rightarrow> (pub_result \<times> json option) list \<Rightarrow> ('m, 'p) pipe \<Rightarrow> bool" where
  "pipe_inv handle hist s \<longleftrightarrow> core_inv handle hist s \<and> length (pi_batch s) < flushSize"

lemma core_invD:
  assumes "core_inv handle hist s"
  shows "length (pi_channel s) \<le> pendingBuffer" "distinct (accounted s)" "set (accounted s) \<subseteq> {..<length hist}"
    "\<not> pi_crashed s \<Longrightarrow> set (accounted s) = {..<length hist}"
    "p \<in> set (in_flight s) \<Longrightarrow> \<exists>out. row_of handle hist (pe_msg p) out p \<and> set out \<subseteq> set (pi_out s)"
    "Acked n \<in> set (pi_settled s) \<Longrightarrow> \<exists>out p. row_of handle hist n out p \<and> set out \<subseteq> set (pi_out s)
       \<and> pe_measurement p \<in> snd ` set (ps_measurements (pi_store s))"
  using assms unfolding core_inv_def by blast+

lemma core_invI:
  assumes "length (pi_channel s) \<le> pendingBuffer" "distinct (accounted s)" "set (accounted s) \<subseteq> {..<length hist}"
    and "\<not> pi_crashed s \<Longrightarrow> set (accounted s) = {..<length hist}"
    and "\<And>p. p \<in> set (in_flight s) \<Longrightarrow> \<exists>out. row_of handle hist (pe_msg p) out p \<and> set out \<subseteq> set (pi_out s)"
    and "\<And>n. Acked n \<in> set (pi_settled s) \<Longrightarrow> \<exists>out p. row_of handle hist n out p \<and> set out \<subseteq> set (pi_out s)
       \<and> pe_measurement p \<in> snd ` set (ps_measurements (pi_store s))"
  shows "core_inv handle hist s"
  using assms unfolding core_inv_def by blast

lemma row_of_snoc: "row_of handle hist n out p \<Longrightarrow> row_of handle (hist @ [x]) n out p"
  by (simp add: row_of_def nth_append)

lemma pipe_start_inv: "pipe_inv handle [] (pipe_start d)"
  by (simp add: pipe_inv_def core_inv_def pipe_start_def accounted_def in_flight_def flushSize_def)

lemma pipe_send_inv: "pipe_inv handle hist s \<Longrightarrow> pipe_inv handle hist (pipe_send s)"
  by (auto simp: pipe_inv_def core_inv_def pipe_send_def accounted_def in_flight_def split: option.splits)

lemma accounted_settle:
  "set (accounted (s\<lparr>pi_out := out, pi_settled := pi_settled s @ [x]\<rparr>)) = insert (settled_msg x) (set (accounted s))"
  "distinct (accounted (s\<lparr>pi_out := out, pi_settled := pi_settled s @ [x]\<rparr>)) \<longleftrightarrow> settled_msg x \<notin> set (accounted s) \<and> distinct (accounted s)"
  by (auto simp: accounted_def in_flight_def)

lemma accounted_send:
  "pi_sending s = None \<Longrightarrow> accounted (s\<lparr>pi_out := out, pi_sending := Some p\<rparr>) = accounted s @ [pe_msg p]"
  by (simp add: accounted_def in_flight_def)

lemma pipe_fetch_cases [case_names rejected enqueued crash]:
  obtains out where "handle pr n data = Ret (out, Rejected)"
  | out p where "handle pr n data = Ret (out, Enqueued p)"
  | "pipe_fetch handle pr n data s = s\<lparr>pi_crashed := True\<rparr>"
proof (cases "handle pr n data")
  case (Ret r)
  obtain out h where "r = (out, h)" by fastforce
  then show ?thesis using Ret that by (cases h) (auto simp: pipe_fetch_def)
qed (use that in \<open>auto simp: pipe_fetch_def\<close>)

text \<open>What the pipeline relies on: the statements keep the contract of the writer, and the row of a message carries its handle.\<close>

locale probe_pipeline = probe_store insM insP setid
  for insM :: "'m \<Rightarrow> ('m, 'p) pstore \<Rightarrow> (db_error + uuid) \<times> ('m, 'p) pstore"
    and insP :: "'p list \<Rightarrow> ('m, 'p) pstore \<Rightarrow> (db_error + nat) \<times> ('m, 'p) pstore"
    and setid :: "uuid pgval \<Rightarrow> 'p \<Rightarrow> 'p" +
  fixes handle :: "('m, 'p) handler"
  assumes handle_msg: "handle pr n data = Ret (out, Enqueued p) \<Longrightarrow> pe_msg p = n"
    and handle_total: "handle pr n data \<noteq> Err e \<and> handle pr n data \<noteq> Ret (out, Dropped)"
begin

lemma pipe_fetch_inv:
  assumes "pipe_inv handle hist s" "\<not> pi_crashed s" "pi_sending s = None"
  shows "pipe_inv handle (hist @ [(pr, data)]) (pipe_fetch handle pr (length hist) data s)"
proof -
  let ?h = "hist @ [(pr, data)]" and ?s = "pipe_fetch handle pr (length hist) data s"
  have inv: "core_inv handle hist s" and len: "length (pi_batch s) < flushSize" using assms(1) by (simp_all add: pipe_inv_def)
  note D = core_invD [OF inv]
  have all: "set (accounted s) = {..<length hist}" by (rule D(4) [OF assms(2)])
  have acked: "\<exists>out p. row_of handle ?h n out p \<and> set out \<subseteq> set (pi_out s @ more_out)
      \<and> pe_measurement p \<in> snd ` set (ps_measurements (pi_store s))" if n: "Acked n \<in> set (pi_settled s)" for n more_out
  proof -
    obtain out p where "row_of handle hist n out p" "set out \<subseteq> set (pi_out s)" "pe_measurement p \<in> snd ` set (ps_measurements (pi_store s))"
      using D(6) [OF n] by blast
    then show ?thesis using row_of_snoc by (intro exI [of _ out] exI [of _ p]) auto
  qed
  have flying: "\<exists>out. row_of handle ?h (pe_msg p) out p \<and> set out \<subseteq> set (pi_out s @ more_out)" if p: "p \<in> set (in_flight s)" for p more_out
  proof -
    obtain out where "row_of handle hist (pe_msg p) out p" "set out \<subseteq> set (pi_out s)" using D(5) [OF p] by blast
    then show ?thesis using row_of_snoc by (intro exI [of _ out]) auto
  qed
  have "core_inv handle ?h ?s"
  proof (rule pipe_fetch_cases [of handle pr "length hist" data _ s], goal_cases rejected enqueued crash)
    case (rejected out)
    have s: "?s = s\<lparr>pi_out := pi_out s @ out, pi_settled := pi_settled s @ [Nakked (length hist)]\<rparr>"
      using rejected by (simp add: pipe_fetch_def)
    have fl: "in_flight ?s = in_flight s" by (simp add: s in_flight_def)
    show ?thesis
      by (rule core_invI) (use D(1,2) all acked [where more_out = out] flying [where more_out = out]
        in \<open>auto simp: s accounted_settle lessThan_Suc fl [unfolded s]\<close>)
  next
    case (enqueued out p)
    have s: "?s = s\<lparr>pi_out := pi_out s @ out, pi_sending := Some p\<rparr>" using enqueued by (simp add: pipe_fetch_def)
    have p: "row_of handle ?h (pe_msg p) out p" "pe_msg p = length hist"
      using enqueued handle_msg [OF enqueued] by (simp_all add: row_of_def)
    have fl: "in_flight ?s = in_flight s @ [p]" using assms(3) by (simp add: s in_flight_def)
    show ?thesis
    proof (rule core_invI)
      show "\<exists>out. row_of handle ?h (pe_msg p') out p' \<and> set out \<subseteq> set (pi_out ?s)" if "p' \<in> set (in_flight ?s)" for p'
      proof (cases "p' = p")
        case True
        then show ?thesis using p(1) by (intro exI [of _ out]) (simp add: s)
      next
        case False
        then have "p' \<in> set (in_flight s)" using that by (simp add: fl)
        then show ?thesis using flying [of p' out] by (simp add: s)
      qed
    qed (use D(1,2) all acked [where more_out = out] p(2) in \<open>auto simp: s accounted_send [OF assms(3)] lessThan_Suc\<close>)
  next
    case crash
    show ?thesis
      by (rule core_invI) (use D(1,2,3) acked [where more_out = "[]"] flying [where more_out = "[]"] in \<open>auto simp: crash accounted_def in_flight_def\<close>)
  qed
  then show ?thesis
    using len by (auto simp: pipe_inv_def pipe_fetch_def split: outcome.splits prod.splits handled.splits)
qed

lemma pipe_flush_inv:
  assumes "core_inv handle hist (s\<lparr>pi_batch := batch\<rparr>)"
  shows "pipe_inv handle hist (pipe_flush (flush_batch env insM insP setid) batch s)"
proof -
  obtain d' out where f: "flush_batch env insM insP setid batch (pi_store s) = (d', out)" by fastforce
  let ?s = "s\<lparr>pi_batch := [], pi_store := d', pi_settled := pi_settled s @ out\<rparr>"
  note D = core_invD [OF assms]
  have fl: "in_flight (s\<lparr>pi_batch := batch\<rparr>) = batch @ in_flight ?s" by (simp add: in_flight_def)
  have acc: "accounted ?s = accounted (s\<lparr>pi_batch := batch\<rparr>)"
    using flush_settles [OF f] by (simp add: accounted_def fl)
  have "core_inv handle hist ?s"
  proof (rule core_invI, unfold acc)
    show "\<exists>outs p. row_of handle hist n outs p \<and> set outs \<subseteq> set (pi_out ?s) \<and> pe_measurement p \<in> snd ` set (ps_measurements (pi_store ?s))"
      if n: "Acked n \<in> set (pi_settled ?s)" for n
    proof (cases "Acked n \<in> set out")
      case True
      obtain p where p: "p \<in> set batch" "pe_msg p = n" "pe_measurement p \<in> snd ` set (ps_measurements d')"
        using flush_mono_acked(2) [OF f True] by blast
      then obtain outs where "row_of handle hist n outs p" "set outs \<subseteq> set (pi_out s)" using D(5) [of p] by (auto simp: fl)
      then show ?thesis using p(3) by (intro exI [of _ outs] exI [of _ p]) simp
    next
      case False
      then have "Acked n \<in> set (pi_settled (s\<lparr>pi_batch := batch\<rparr>))" using n by simp
      then obtain outs p where "row_of handle hist n outs p" "set outs \<subseteq> set (pi_out s)"
        "pe_measurement p \<in> snd ` set (ps_measurements (pi_store s))" using D(6) by fastforce
      then show ?thesis using flush_mono_acked(1) [OF f] by (intro exI [of _ outs] exI [of _ p]) (auto simp: image_iff)
    qed
    show "\<exists>outs. row_of handle hist (pe_msg p) outs p \<and> set outs \<subseteq> set (pi_out ?s)" if "p \<in> set (in_flight ?s)" for p
      using D(5) [of p] that by (simp add: fl)
  qed (use D(1-4) in auto)
  then show ?thesis by (simp add: pipe_inv_def pipe_flush_def f flushSize_def)
qed

lemma pipe_take_inv:
  assumes "pipe_inv handle hist s"
  shows "pipe_inv handle hist (pipe_take (flush_batch env insM insP setid) s)"
proof (cases "pi_channel s")
  case (Cons p rest)
  let ?s = "s\<lparr>pi_channel := rest, pi_batch := pi_batch s @ [p]\<rparr>"
  have fl: "in_flight ?s = in_flight s" by (simp add: in_flight_def Cons)
  then have acc: "accounted ?s = accounted s" by (simp add: accounted_def)
  have "core_inv handle hist ?s" using assms Cons unfolding pipe_inv_def core_inv_def fl acc by simp
  moreover have "pipe_inv handle hist (pipe_flush (flush_batch env insM insP setid) (pi_batch s @ [p]) (s\<lparr>pi_channel := rest\<rparr>))"
    by (rule pipe_flush_inv) (use calculation in simp)
  ultimately show ?thesis by (simp add: pipe_take_def Cons Let_def pipe_inv_def)
qed (use assms in \<open>simp add: pipe_take_def\<close>)

lemma pipe_step_inv:
  assumes "pipe_step (flush_batch env insM insP setid) s s'" "pipe_inv handle hist s"
  shows "pipe_inv handle hist s'"
  using assms
proof cases
  case tick
  have "core_inv handle hist (s\<lparr>pi_batch := pi_batch s\<rparr>)" using assms(2) by (simp add: pipe_inv_def)
  then show ?thesis unfolding tick(1) pipe_tick_def by (rule pipe_flush_inv)
qed (simp_all add: pipe_send_inv pipe_take_inv)

lemma pipe_reach_inv: "pipe_reach handle (flush_batch env insM insP setid) (pipe_start d) hist s \<Longrightarrow> pipe_inv handle hist s"
proof (induction rule: pipe_reach.induct)
  case (step hist s s')
  then show ?case using pipe_step_inv by blast
qed (simp_all add: pipe_start_inv pipe_fetch_inv)

text \<open>The process ends only by a panic of the handler.\<close>

lemma pipe_crash:
  assumes "pipe_reach handle flush (pipe_start d) hist s" "pi_crashed s"
  shows "\<exists>hist' pr data. hist = hist' @ [(pr, data)] \<and> handle pr (length hist') data = Panic"
  using assms
proof cases
  case started
  then show ?thesis using assms(2) by (simp add: pipe_start_def)
next
  case (fetch hist' s' pr data)
  then have "handle pr (length hist') data = Panic"
    using assms(2) handle_total [of pr "length hist'" data]
    by (auto simp: pipe_fetch_def split: outcome.splits prod.splits handled.splits)
  then show ?thesis using fetch(1) by blast
next
  case (step s')
  from step(2) have "\<not> pi_crashed s"
    by cases (auto simp: pipe_send_def pipe_take_def pipe_tick_def pipe_flush_def Let_def split: option.splits list.splits prod.splits)
  then show ?thesis using assms(2) by simp
qed

end

section \<open>The way out\<close>

text \<open>Without new messages the two goroutines can always bring everything they hold to the end.\<close>

lemma pipe_flush_frame [simp]:
  "pi_crashed (pipe_flush flush b s) = pi_crashed s" "pi_sending (pipe_flush flush b s) = pi_sending s"
  "pi_channel (pipe_flush flush b s) = pi_channel s" "pi_batch (pipe_flush flush b s) = []"
  by (simp_all add: pipe_flush_def split: prod.splits)

lemma pipe_take_frame:
  "pi_channel s = p # rest \<Longrightarrow> pi_channel (pipe_take flush s) = rest \<and> pi_sending (pipe_take flush s) = pi_sending s
     \<and> pi_crashed (pipe_take flush s) = pi_crashed s"
  by (simp add: pipe_take_def Let_def)

lemma pipe_empties_channel:
  assumes "\<not> pi_crashed s"
  shows "\<exists>s'. (pipe_step flush)\<^sup>*\<^sup>* s s' \<and> pi_channel s' = [] \<and> pi_sending s' = pi_sending s \<and> \<not> pi_crashed s'"
  using assms
proof (induction "pi_channel s" arbitrary: s)
  case (Cons p rest)
  let ?s = "pipe_take flush s"
  have f: "pi_channel ?s = rest" "pi_sending ?s = pi_sending s" "\<not> pi_crashed ?s"
    using pipe_take_frame [of s p rest flush] Cons by simp_all
  then obtain s' where "(pipe_step flush)\<^sup>*\<^sup>* ?s s'" "pi_channel s' = []" "pi_sending s' = pi_sending s" "\<not> pi_crashed s'"
    using Cons.hyps(1) [of ?s] by auto
  moreover have "(pipe_step flush)\<^sup>*\<^sup>* s s'"
    using pipe_step.take [OF Cons.prems] calculation(1) by (rule converse_rtranclp_into_rtranclp)
  ultimately show ?case by blast
next
  case Nil
  then show ?case by (intro exI [of _ s]) simp
qed

lemma pipe_empties:
  assumes "\<not> pi_crashed s"
  shows "\<exists>s'. (pipe_step flush)\<^sup>*\<^sup>* s s' \<and> in_flight s' = [] \<and> \<not> pi_crashed s'"
proof -
  obtain s1 where s1: "(pipe_step flush)\<^sup>*\<^sup>* s s1" "pi_channel s1 = []" "\<not> pi_crashed s1"
    using pipe_empties_channel [OF assms] by blast
  have send: "pi_sending (pipe_send s1) = None" "\<not> pi_crashed (pipe_send s1)"
    using s1 by (auto simp: pipe_send_def pendingBuffer_def split: option.splits)
  then obtain s2 where s2: "(pipe_step flush)\<^sup>*\<^sup>* (pipe_send s1) s2" "pi_channel s2 = []" "pi_sending s2 = None" "\<not> pi_crashed s2"
    using pipe_empties_channel [of "pipe_send s1" flush] by auto
  have "(pipe_step flush)\<^sup>*\<^sup>* s (pipe_tick flush s2)"
    using s1(1) pipe_step.send [OF s1(3), of flush] s2(1) pipe_step.tick [OF s2(4), of flush]
    by (meson rtranclp.rtrancl_into_rtrancl rtranclp_trans)
  moreover have "in_flight (pipe_tick flush s2) = []" "\<not> pi_crashed (pipe_tick flush s2)"
    using s2 by (simp_all add: in_flight_def pipe_tick_def)
  ultimately show ?thesis by blast
qed

lemma pipe_steps_reach:
  "(pipe_step flush)\<^sup>*\<^sup>* s s' \<Longrightarrow> pipe_reach handle flush s0 hist s \<Longrightarrow> pipe_reach handle flush s0 hist s'"
  by (induction rule: rtranclp_induct) (auto intro: pipe_reach.step)

end
