(* ===== verification/Ping_Processor.thy ===== *)
theory Ping_Processor
  imports Common_Messages Probe_Stats Probe_Pipeline
begin

text \<open>
  The ping processor (\<^verbatim>\<open>services/ping-processor/processor.go\<close> and its \<^verbatim>\<open>db\<close> package): the
  start-up sequence, the handling of one fetched report, the rows built from scamper's ping record,
  the published measurement, and the batch writer of \<open>Probe_Flush\<close> on its two insert
  statements. A nil dereference is \<open>Panic\<close>.
\<close>

section \<open>Rows\<close>

record InsertPingMeasurementParams =
  pim_Timestamp :: "time pgval"
  pim_SerialID :: string
  pim_AgentConfigID :: "uuid pgval"
  pim_Target :: string
  pim_Sent :: int
  pim_Received :: int
  pim_Loss :: float64
  pim_RttMinNs :: int
  pim_RttAvgNs :: int
  pim_RttMaxNs :: int
  pim_RttP50Ns :: int
  pim_RttP95Ns :: int
  pim_RttStddevNs :: int

record InsertPingProbesParams =
  pip_MeasurementID :: "uuid pgval"
  pip_Tx :: "time pgval"
  pip_Rx :: "time pgval"
  pip_IsLost :: bool
  pip_Seq :: "int pgval"
  pip_Rtt :: "int pgval"

type_synonym ping_store = "(InsertPingMeasurementParams, InsertPingProbesParams) pstore"
type_synonym pendingPing = "(InsertPingMeasurementParams, InsertPingProbesParams) pending"

definition InsertPingMeasurement ::
  "db_env \<Rightarrow> (uuid \<Rightarrow> bool) \<Rightarrow> InsertPingMeasurementParams \<Rightarrow> ping_store \<Rightarrow> (db_error + uuid) \<times> ping_store" where
  "InsertPingMeasurement env agents arg = insert_measurement env agents (pim_AgentConfigID arg) arg"

definition InsertPingProbes ::
  "db_env \<Rightarrow> InsertPingProbesParams list \<Rightarrow> ping_store \<Rightarrow> (db_error + nat) \<times> ping_store" where
  "InsertPingProbes env arg =
     insert_probes env pip_MeasurementID (copy_rows \<lparr>ci_rows = arg, ci_skippedFirstNextCall = False\<rparr>)"

section \<open>Building the rows\<close>

definition ping_time :: "sec_usec \<Rightarrow> time pgval" where
  "ping_time su = \<lparr>pg_val = time_unix (su_Sec su) (int64 (su_Usec su * 1000)), pg_Valid = True\<rparr>"

definition ping_probe_row :: "PingResponse \<Rightarrow> InsertPingProbesParams" where
  "ping_probe_row r = \<lparr>pip_MeasurementID = no_uuid, pip_Tx = ping_time (pg_Tx r), pip_Rx = ping_time (pg_Rx r),
     pip_IsLost = False, pip_Seq = Int4 (pg_Seq r), pip_Rtt = Int8 (msToDuration (pg_Rtt r))\<rparr>"

definition ping_lost_row :: "time \<Rightarrow> InsertPingProbesParams" where
  "ping_lost_row ts = \<lparr>pip_MeasurementID = no_uuid, pip_Tx = \<lparr>pg_val = ts, pg_Valid = True\<rparr>,
     pip_Rx = \<lparr>pg_val = time_zero, pg_Valid = False\<rparr>, pip_IsLost = True,
     pip_Seq = \<lparr>pg_val = 0, pg_Valid = False\<rparr>, pip_Rtt = \<lparr>pg_val = 0, pg_Valid = False\<rparr>\<rparr>"

definition buildPing :: "db_env \<Rightarrow> string \<Rightarrow> string option \<Rightarrow> time \<Rightarrow> PingDataPayload \<Rightarrow>
    (string, InsertPingMeasurementParams \<times> InsertPingProbesParams list \<times> PingMetrics) outcome" where
  "buildPing env serialId agentConfigId timestamp pingData =
     (let parsed = (case agentConfigId of None \<Rightarrow> Some no_uuid | Some s \<Rightarrow> UUID env s);
          rtts = map (\<lambda>r. msToDuration (pg_Rtt r)) (pd_Responses pingData)
      in obind (computeStats rtts) (\<lambda>stats.
        let sent = int32 (pd_PingSent pingData);
            received = int32 (pst_Replies (pd_Statistics pingData));
            loss = (if 0 < sent then f_sub (Fin 1) (f_div (f_of_int received) (f_of_int sent)) else Fin 0);
            st = pd_Statistics pingData
        in case parsed of
             None \<Rightarrow> Panic
           | Some cfg \<Rightarrow>
             let measurement = \<lparr>pim_Timestamp = \<lparr>pg_val = timestamp, pg_Valid = True\<rparr>, pim_SerialID = serialId,
                   pim_AgentConfigID = cfg, pim_Target = pd_Dst pingData, pim_Sent = sent, pim_Received = received,
                   pim_Loss = loss, pim_RttMinNs = msToDuration (pst_Min st), pim_RttAvgNs = msToDuration (pst_Avg st),
                   pim_RttMaxNs = msToDuration (pst_Max st), pim_RttP50Ns = ls_P50 stats, pim_RttP95Ns = ls_P95 stats,
                   pim_RttStddevNs = msToDuration (pst_Stddev st)\<rparr>;
                 lostCount = int32 (sent - received);
                 probeRows = map ping_probe_row (pd_Responses pingData) @ replicate (nat lostCount) (ping_lost_row timestamp)
             in Ret (measurement, probeRows, \<lparr>pm_RttP95Ns = ls_P95 stats, pm_Sent = sent, pm_Received = received\<rparr>)))"

section \<open>Publishing\<close>

definition ping_publishMeasurement ::
  "pub_result \<Rightarrow> string \<Rightarrow> string \<Rightarrow> time \<Rightarrow> PingMetrics \<Rightarrow> bool \<times> published" where
  "ping_publishMeasurement pr serialId target timestamp metrics =
     (case PingMetrics_enc metrics of
        None \<Rightarrow> (False, [])
      | Some metricsData \<Rightarrow>
          (case MeasurementEvent_enc \<lparr>me_Type = ProbeTypePing, me_SerialID = serialId, me_Target = target, me_Port = 0,
              me_Src = [], me_Timestamp = timestamp, me_Metrics = Some metricsData\<rparr> of
             None \<Rightarrow> (False, [])
           | Some eventData \<Rightarrow> publish pr (''cepheus.measurement.ping.'' @ serialId) eventData))"

section \<open>One fetched message\<close>

text \<open>\<open>data\<close> is \<open>None\<close> when the message is not a JSON document; \<open>stop\<close> tells that the context ends
  before the flusher takes the row.\<close>

definition ping_handle :: "db_env \<Rightarrow> pub_result \<Rightarrow> bool \<Rightarrow> nat \<Rightarrow> json option \<Rightarrow>
    (string, published \<times> pendingPing handled) outcome" where
  "ping_handle env pr stop msg data =
     (case d_message ReportPayload_dec data of
        None \<Rightarrow> Ret ([], Rejected)
      | Some payload \<Rightarrow>
          if pr_ProbeType (re_Payload payload) \<noteq> ProbeTypePing then Ret ([], Rejected)
          else (case d_message PingDataPayload_dec (pr_Data (re_Payload payload)) of
            None \<Rightarrow> Ret ([], Rejected)
          | Some pingData \<Rightarrow>
              obind (buildPing env (re_SerialID payload) (Some (re_AgentConfigId payload))
                  (pr_Timestamp (re_Payload payload)) pingData) (\<lambda>(measurement, probes, metrics).
                (case ping_publishMeasurement pr (re_SerialID payload) (pd_Dst pingData)
                    (pr_Timestamp (re_Payload payload)) metrics of
                   (False, out) \<Rightarrow> Ret (out, Rejected)
                 | (True, out) \<Rightarrow> if stop then Ret (out, Dropped)
                     else Ret (out, Enqueued \<lparr>pe_msg = msg, pe_measurement = measurement, pe_probes = probes\<rparr>)))))"

section \<open>The flusher and the start-up\<close>

definition ping_flush :: "db_env \<Rightarrow> (uuid \<Rightarrow> bool) \<Rightarrow> pendingPing list \<Rightarrow> ping_store \<Rightarrow> ping_store \<times> settle list" where
  "ping_flush env agents = flush_batch env (InsertPingMeasurement env agents) (InsertPingProbes env)
     (\<lambda>i r. r\<lparr>pip_MeasurementID := i\<rparr>)"

definition ping_runFlusher ::
  "db_env \<Rightarrow> (uuid \<Rightarrow> bool) \<Rightarrow> (InsertPingMeasurementParams, InsertPingProbesParams) flush_event list \<Rightarrow>
   (InsertPingMeasurementParams, InsertPingProbesParams) flusher \<Rightarrow>
   (InsertPingMeasurementParams, InsertPingProbesParams) flusher" where
  "ping_runFlusher env agents = run_flusher (ping_flush env agents)"

definition ping_GetConfig :: "(string \<Rightarrow> string) \<Rightarrow> (string, ProcessorConfig) outcome" where
  "ping_GetConfig = processor_config"

definition ping_Start :: "nats_env \<Rightarrow> ProcessorConfig \<Rightarrow> StreamConfig list \<times> (string, ConsumerConfig) outcome" where
  "ping_Start env cfg = start_processor env cfg
     \<lparr>st_Name = ''PROBE_PING'', st_Description = ''Stream for ping probe data'',
      st_Subjects = [''cepheus.probe.ping.>''], st_MaxAge = 0\<rparr> ''probe-ping-processor''"

section \<open>The statements keep the contract of the writer\<close>

interpretation ping_writer: probe_store "InsertPingMeasurement env agents" "InsertPingProbes env"
    "\<lambda>i r. r\<lparr>pip_MeasurementID := i\<rparr>" for env agents
  by unfold_locales
    (auto simp: InsertPingMeasurement_def InsertPingProbes_def insert_measurement_ok insert_probes_ok copy_rows_all)

text \<open>
  A batch of ping measurements is written completely or not at all. Afterwards either every message is
  acknowledged and all rows of the batch are stored, each probe row under the identifier of its own
  measurement; or every message is returned for redelivery and the tables are as before. The one
  exception is a commit whose answer is lost: the rows are stored and the messages returned.
\<close>

lemma ping_flush_all_or_nothing:
  "case ping_flush env agents batch d of (d', out) \<Rightarrow>
     (\<exists>ids. length ids = length batch
        \<and> ps_measurements d' = ps_measurements d @ zip ids (map pe_measurement batch)
        \<and> ps_probes d' = ps_probes d @ concat (map (\<lambda>(i, p).
            map (\<lambda>r. r\<lparr>pip_MeasurementID := \<lparr>pg_val = i, pg_Valid = True\<rparr>\<rparr>) (pe_probes p)) (zip ids batch))
        \<and> (out = map (\<lambda>p. Acked (pe_msg p)) batch
           \<or> out = map (\<lambda>p. Nakked (pe_msg p)) batch \<and> (\<exists>n. de_fault env n = FLost)))
     \<or> ps_measurements d' = ps_measurements d \<and> ps_probes d' = ps_probes d
        \<and> out = map (\<lambda>p. Nakked (pe_msg p)) batch"
proof -
  obtain d' out where f: "ping_flush env agents batch d = (d', out)" by (cases "ping_flush env agents batch d")
  have "flush_batch env (InsertPingMeasurement env agents) (InsertPingProbes env)
      (\<lambda>i r. r\<lparr>pip_MeasurementID := i\<rparr>) batch d = (d', out)"
    using f by (simp only: ping_flush_def)
  then show ?thesis
    by (rule ping_writer.flush_cases) (auto simp: f stores_def same_tables_def probe_rows_def)
qed

section \<open>Rows and metrics of a report\<close>

text \<open>
  Property C24. The rows of a ping report account for every packet sent. When scamper reports as many
  replies as it lists, of round-trip times below 13 days, and no more than it sent, the processor builds one
  row per packet, marks exactly the missing ones as lost, and stores and publishes the same counts and the
  same 95th percentile.
\<close>

theorem ping_rows_account_for_every_packet:
  assumes "UUID env cid = Some cfg"
    and "list_all (\<lambda>r. in_range (msToDuration (pg_Rtt r))) (pd_Responses pingData)"
    and "pst_Replies (pd_Statistics pingData) = int (length (pd_Responses pingData))"
    and "int (length (pd_Responses pingData)) \<le> pd_PingSent pingData" "pd_PingSent pingData < 2 ^ 31"
  shows "\<exists>m rows metrics. buildPing env sid (Some cid) ts pingData = Ret (m, rows, metrics)
    \<and> int (length rows) = pd_PingSent pingData
    \<and> length (filter (\<lambda>r. \<not> pip_IsLost r) rows) = length (pd_Responses pingData)
    \<and> pim_Sent m = pd_PingSent pingData \<and> pim_Received m = int (length (pd_Responses pingData))
    \<and> metrics = \<lparr>pm_RttP95Ns = pim_RttP95Ns m, pm_Sent = pim_Sent m, pm_Received = pim_Received m\<rparr>
    \<and> PingMetrics_ok metrics"
proof -
  let ?n = "length (pd_Responses pingData)"
  have ids: "int32 (pd_PingSent pingData) = pd_PingSent pingData" "int32 (int ?n) = int ?n"
    "int32 (pd_PingSent pingData - int ?n) = pd_PingSent pingData - int ?n"
    using assms(4,5) by (auto intro!: wrap_s_id simp: in_s_def)
  have "?n \<le> 2 ^ 50" using assms(4,5) by simp
  then obtain st where st: "computeStats (map (\<lambda>r. msToDuration (pg_Rtt r)) (pd_Responses pingData)) = Ret st"
    "in_s 64 (ls_P95 st)"
    using computeStats_total [of "map (\<lambda>r. msToDuration (pg_Rtt r)) (pd_Responses pingData)"] assms(2)
    by (auto simp: list_all_iff)
  have rows: "filter (\<lambda>r. \<not> pip_IsLost r) (map ping_probe_row xs) = map ping_probe_row xs" for xs
    by (simp add: filter_id_conv ping_probe_row_def)
  have lost: "filter (\<lambda>r. \<not> pip_IsLost r) (replicate k (ping_lost_row ts)) = []" for k
    by (simp add: ping_lost_row_def)
  show ?thesis
    using assms(1,3,4,5) st(2) by (simp add: buildPing_def Let_def st(1) ids rows lost PingMetrics_ok_def in_s_def)
qed

definition demo_db_env :: db_env where
  "demo_db_env = \<lparr>de_fault = (\<lambda>_. FNone), de_begin = (\<lambda>_. TxOk), de_uuid = of_nat, de_ts = id,
     de_string = (\<lambda>_. ''id''), de_parse = (\<lambda>s. if s = ''id'' then Some 7 else None)\<rparr>"

definition demo_ping :: PingDataPayload where
  "demo_ping = \<lparr>pd_Type = ''ping'', pd_Version = ''0.4'', pd_Method = ''icmp-echo'', pd_Src = ''10.0.0.1'',
     pd_Dst = ''10.0.0.2'', pd_Start = \<lparr>su_Sec = 0, su_Usec = 0\<rparr>, pd_StopReason = ''COMPLETED'', pd_StopData = 0,
     pd_PingSent = 4, pd_ProbeSize = 84, pd_Userid = 0, pd_TTL = 64, pd_Tos = 0, pd_Wait = 1, pd_Timeout = 1,
     pd_Responses = [ping_response_zero], pd_NoResponses = [],
     pd_Statistics = \<lparr>pst_Replies = 1, pst_Loss = Fin 0, pst_Min = Fin 0, pst_Max = Fin 0, pst_Avg = Fin 0,
       pst_Stddev = Fin 0\<rparr>\<rparr>"

lemma msToDuration_0 [simp]: "msToDuration (Fin 0) = 0"
  by (simp add: msToDuration_def f_of_int_def millisecond_def fl_small trunc_def in_s_def)

theorem ping_rows_account_for_every_packet_witness:
  "\<exists>m rows metrics. buildPing demo_db_env ''s1'' (Some ''id'') 5 demo_ping = Ret (m, rows, metrics)
     \<and> length rows = 4 \<and> length (filter (\<lambda>r. \<not> pip_IsLost r) rows) = 1 \<and> pm_Sent metrics = 4"
proof -
  have "UUID demo_db_env ''id'' = Some \<lparr>pg_val = 7, pg_Valid = True\<rparr>"
    by (simp add: UUID_def demo_db_env_def)
  from ping_rows_account_for_every_packet [OF this, of demo_ping "''s1''" 5] show ?thesis
    by (force simp: demo_ping_def ping_response_zero_def in_range_def)
qed

text \<open>A report whose configuration identifier does not parse crashes the processor.\<close>

lemma ping_bad_config_panics:
  assumes "d_message ReportPayload_dec data = Some payload" "pr_ProbeType (re_Payload payload) = ProbeTypePing"
    and "d_message PingDataPayload_dec (pr_Data (re_Payload payload)) = Some pingData"
    and "de_parse env (re_AgentConfigId payload) = None"
  shows "ping_handle env pr stop msg data = Panic"
  using assms
  by (cases "computeStats (map (\<lambda>r. msToDuration (pg_Rtt r)) (pd_Responses pingData))")
    (auto simp: ping_handle_def buildPing_def UUID_def Let_def stats_no_error)

section \<open>The running processor\<close>

definition ping_process :: "db_env \<Rightarrow> (uuid \<Rightarrow> bool) \<Rightarrow> ping_store \<Rightarrow> (pub_result \<times> json option) list \<Rightarrow>
    (InsertPingMeasurementParams, InsertPingProbesParams) pipe \<Rightarrow> bool" where
  "ping_process env agents d = pipe_reach (\<lambda>pr. ping_handle env pr False) (ping_flush env agents) (pipe_start d)"

lemma buildPing_no_error: "buildPing env sid cid ts d \<noteq> Err e"
  by (auto simp: buildPing_def Let_def obind_eq_Err stats_no_error split: option.splits)

interpretation ping_pipeline: probe_pipeline "InsertPingMeasurement env agents" "InsertPingProbes env"
    "\<lambda>i r. r\<lparr>pip_MeasurementID := i\<rparr>" "\<lambda>pr. ping_handle env pr False" for env agents
  by unfold_locales (auto simp: ping_handle_def obind_eq_Ret obind_eq_Err buildPing_no_error case_published split: option.splits if_splits)



end
