(* ===== verification/Stamp_Processor.thy ===== *)
theory Stamp_Processor
  imports Common_Messages Probe_Stats Probe_Pipeline
begin

text \<open>
  The STAMP processor (\<^verbatim>\<open>services/stamp-processor/processor.go\<close> and its \<^verbatim>\<open>db\<close> package), in the
  same parts as the ping processor. Statistics are taken over the probes that came back; lost
  probes become rows without a receive time.
\<close>

section \<open>Rows\<close>

record InsertStampMeasurementParams =
  sim_Timestamp :: "time pgval"
  sim_SerialID :: string
  sim_AgentConfigID :: "uuid pgval"
  sim_Target :: string
  sim_Port :: int
  sim_Sent :: int
  sim_Received :: int
  sim_Loss :: float64
  sim_RttP95Ns :: int
  sim_BwdP95Ns :: int
  sim_FwdP95Ns :: int

record InsertStampProbesParams =
  sip_MeasurementID :: "uuid pgval"
  sip_Tx :: "time pgval"
  sip_IsLost :: bool
  sip_Rx :: "time pgval"
  sip_Rtt :: "int pgval"
  sip_ForwardDelay :: "int pgval"
  sip_BackwardDelay :: "int pgval"

type_synonym stamp_store = "(InsertStampMeasurementParams, InsertStampProbesParams) pstore"
type_synonym pendingStamp = "(InsertStampMeasurementParams, InsertStampProbesParams) pending"

definition InsertStampMeasurement ::
  "db_env \<Rightarrow> (uuid \<Rightarrow> bool) \<Rightarrow> InsertStampMeasurementParams \<Rightarrow> stamp_store \<Rightarrow> (db_error + uuid) \<times> stamp_store" where
  "InsertStampMeasurement env agents arg = insert_measurement env agents (sim_AgentConfigID arg) arg"

definition InsertStampProbes ::
  "db_env \<Rightarrow> InsertStampProbesParams list \<Rightarrow> stamp_store \<Rightarrow> (db_error + nat) \<times> stamp_store" where
  "InsertStampProbes env arg =
     insert_probes env sip_MeasurementID (copy_rows \<lparr>ci_rows = arg, ci_skippedFirstNextCall = False\<rparr>)"

section \<open>Building the rows\<close>

definition stamp_probe_row :: "StampProbeData \<Rightarrow> InsertStampProbesParams" where
  "stamp_probe_row p = \<lparr>sip_MeasurementID = no_uuid, sip_Tx = \<lparr>pg_val = spd_Tx p, pg_Valid = True\<rparr>,
     sip_IsLost = spd_IsLost p, sip_Rx = \<lparr>pg_val = spd_Rx p, pg_Valid = \<not> spd_IsLost p\<rparr>,
     sip_Rtt = \<lparr>pg_val = spd_Rtt p, pg_Valid = \<not> spd_IsLost p\<rparr>,
     sip_ForwardDelay = \<lparr>pg_val = spd_ForwardDelay p, pg_Valid = \<not> spd_IsLost p\<rparr>,
     sip_BackwardDelay = \<lparr>pg_val = spd_BackwardDelay p, pg_Valid = \<not> spd_IsLost p\<rparr>\<rparr>"

definition buildStamp :: "db_env \<Rightarrow> string \<Rightarrow> string option \<Rightarrow> StampData \<Rightarrow>
    (string, InsertStampMeasurementParams \<times> InsertStampProbesParams list \<times> StampMetrics) outcome" where
  "buildStamp env serialId agentConfigId stampData =
     (let parsed = (case agentConfigId of None \<Rightarrow> Some no_uuid | Some s \<Rightarrow> UUID env s);
          arrived = filter (\<lambda>p. \<not> spd_IsLost p) (sd_Probes stampData)
      in obind (computeStats (map spd_Rtt arrived)) (\<lambda>rttStats.
         obind (computeStats (map spd_ForwardDelay arrived)) (\<lambda>fwdStats.
         obind (computeStats (map spd_BackwardDelay arrived)) (\<lambda>bwdStats.
         case parsed of
           None \<Rightarrow> Panic
         | Some cfg \<Rightarrow> Ret
            (\<lparr>sim_Timestamp = \<lparr>pg_val = sd_Timestamp stampData, pg_Valid = True\<rparr>, sim_SerialID = serialId,
               sim_AgentConfigID = cfg, sim_Target = sd_Target stampData, sim_Port = int32 (sd_Port stampData),
               sim_Sent = int32 (sd_Sent stampData), sim_Received = int32 (sd_Received stampData),
               sim_Loss = sd_Loss stampData, sim_RttP95Ns = ls_P95 rttStats, sim_BwdP95Ns = ls_P95 bwdStats,
               sim_FwdP95Ns = ls_P95 fwdStats\<rparr>,
             map stamp_probe_row (sd_Probes stampData),
             \<lparr>sm_RttP95Ns = ls_P95 rttStats, sm_FwdP95Ns = ls_P95 fwdStats, sm_BwdP95Ns = ls_P95 bwdStats,
              sm_Sent = sd_Sent stampData, sm_Received = sd_Received stampData\<rparr>)))))"

section \<open>Publishing\<close>

definition stamp_publishMeasurement ::
  "pub_result \<Rightarrow> string \<Rightarrow> string \<Rightarrow> int \<Rightarrow> time \<Rightarrow> StampMetrics \<Rightarrow> bool \<times> published" where
  "stamp_publishMeasurement pr serialId target port timestamp metrics =
     (case StampMetrics_enc metrics of
        None \<Rightarrow> (False, [])
      | Some metricsData \<Rightarrow>
          (case MeasurementEvent_enc \<lparr>me_Type = ProbeTypeStamp, me_SerialID = serialId, me_Target = target,
              me_Port = port, me_Src = [], me_Timestamp = timestamp, me_Metrics = Some metricsData\<rparr> of
             None \<Rightarrow> (False, [])
           | Some eventData \<Rightarrow> publish pr (''cepheus.measurement.stamp.'' @ serialId) eventData))"

section \<open>One fetched message\<close>

text \<open>The raw data field is written out and read again; a missing one becomes \<open>null\<close>.\<close>

definition stamp_handle :: "db_env \<Rightarrow> pub_result \<Rightarrow> bool \<Rightarrow> nat \<Rightarrow> json option \<Rightarrow>
    (string, published \<times> pendingStamp handled) outcome" where
  "stamp_handle env pr stop msg data =
     (case d_message ReportPayload_dec data of
        None \<Rightarrow> Ret ([], Rejected)
      | Some payload \<Rightarrow>
          if pr_ProbeType (re_Payload payload) \<noteq> ProbeTypeStamp then Ret ([], Rejected)
          else (case StampData_dec (j_raw (pr_Data (re_Payload payload))) of
            None \<Rightarrow> Ret ([], Rejected)
          | Some stampData \<Rightarrow>
              obind (buildStamp env (re_SerialID payload) (Some (re_AgentConfigId payload)) stampData)
               (\<lambda>(measurement, probes, metrics).
                (case stamp_publishMeasurement pr (re_SerialID payload) (sd_Target stampData)
                    (int32 (sd_Port stampData)) (sd_Timestamp stampData) metrics of
                   (False, out) \<Rightarrow> Ret (out, Rejected)
                 | (True, out) \<Rightarrow> if stop then Ret (out, Dropped)
                     else Ret (out, Enqueued \<lparr>pe_msg = msg, pe_measurement = measurement, pe_probes = probes\<rparr>)))))"

section \<open>The flusher and the start-up\<close>

definition stamp_flush :: "db_env \<Rightarrow> (uuid \<Rightarrow> bool) \<Rightarrow> pendingStamp list \<Rightarrow> stamp_store \<Rightarrow> stamp_store \<times> settle list" where
  "stamp_flush env agents = flush_batch env (InsertStampMeasurement env agents) (InsertStampProbes env)
     (\<lambda>i r. r\<lparr>sip_MeasurementID := i\<rparr>)"

definition stamp_runFlusher ::
  "db_env \<Rightarrow> (uuid \<Rightarrow> bool) \<Rightarrow> (InsertStampMeasurementParams, InsertStampProbesParams) flush_event list \<Rightarrow>
   (InsertStampMeasurementParams, InsertStampProbesParams) flusher \<Rightarrow>
   (InsertStampMeasurementParams, InsertStampProbesParams) flusher" where
  "stamp_runFlusher env agents = run_flusher (stamp_flush env agents)"

definition stamp_GetConfig :: "(string \<Rightarrow> string) \<Rightarrow> (string, ProcessorConfig) outcome" where
  "stamp_GetConfig = processor_config"

definition stamp_Start :: "nats_env \<Rightarrow> ProcessorConfig \<Rightarrow> StreamConfig list \<times> (string, ConsumerConfig) outcome" where
  "stamp_Start env cfg = start_processor env cfg
     \<lparr>st_Name = ''PROBE_STAMP'', st_Description = ''Stream for STAMP probe data'',
      st_Subjects = [''cepheus.probe.stamp.>''], st_MaxAge = 0\<rparr> ''probe-stamp-processor''"

section \<open>The statements keep the contract of the writer\<close>

interpretation stamp_writer: probe_store "InsertStampMeasurement env agents" "InsertStampProbes env"
    "\<lambda>i r. r\<lparr>sip_MeasurementID := i\<rparr>" for env agents
  by unfold_locales
    (auto simp: InsertStampMeasurement_def InsertStampProbes_def insert_measurement_ok insert_probes_ok copy_rows_all)

text \<open>
  The flusher settles every message. As long as it runs, whatever the database does, the messages
  settled so far followed by those in the current batch are exactly the messages received, in order; the
  batch stays below the flush size; after a tick of the timer nothing is left waiting; and
  every acknowledged message has its measurement in the table.
\<close>

lemma flusher_settles_every_message:
  assumes "Stopped \<notin> set es"
    and "stamp_runFlusher env agents es ([], d, []) = (batch, d', settled)"
  shows "map settled_msg settled @ map pe_msg batch = received_msgs es \<and> length batch < flushSize
    \<and> (es \<noteq> [] \<and> last es = Ticked \<longrightarrow> batch = [])
    \<and> (\<forall>n. Acked n \<in> set settled \<longrightarrow> (\<exists>p. Received p \<in> set es \<and> pe_msg p = n
          \<and> pe_measurement p \<in> snd ` set (ps_measurements d')))"
proof -
  let ?fl = "flush_batch env (InsertStampMeasurement env agents) (InsertStampProbes env) (\<lambda>i r. r\<lparr>sip_MeasurementID := i\<rparr>)"
  have run: "run_flusher ?fl es ([], d, []) = (batch, d', settled)"
    using assms(2) by (simp only: stamp_runFlusher_def stamp_flush_def)
  have "batch = []" if "es \<noteq> []" "last es = Ticked"
  proof -
    obtain es' where es: "es = es' @ [Ticked]" using \<open>es \<noteq> []\<close> \<open>last es = Ticked\<close> by (metis append_butlast_last_id)
    show ?thesis using run assms(1) unfolding es by (rule run_flusher_tick)
  qed
  then show ?thesis
    using stamp_writer.run_flusher_settles [OF run assms(1)] stamp_writer.run_flusher_acked [OF run]
    by (simp add: flushSize_def)
qed

definition demo_pending :: "nat \<Rightarrow> pendingStamp" where
  "demo_pending n = \<lparr>pe_msg = n, pe_measurement = \<lparr>sim_Timestamp = \<lparr>pg_val = 0, pg_Valid = True\<rparr>, sim_SerialID = ''s'',
     sim_AgentConfigID = no_uuid, sim_Target = ''t'', sim_Port = 862, sim_Sent = 1, sim_Received = 0, sim_Loss = Fin 1,
     sim_RttP95Ns = 0, sim_BwdP95Ns = 0, sim_FwdP95Ns = 0\<rparr>,
     pe_probes = [stamp_probe_row stamp_probe_zero]\<rparr>"

definition calm_db :: db_env where
  "calm_db = \<lparr>de_fault = (\<lambda>_. FNone), de_begin = (\<lambda>_. TxOk), de_uuid = of_nat, de_ts = id, de_string = (\<lambda>_. []),
     de_parse = (\<lambda>_. None)\<rparr>"

section \<open>Metrics of a report\<close>

definition probes_in_range :: "StampData \<Rightarrow> bool" where
  "probes_in_range d \<longleftrightarrow> length (sd_Probes d) \<le> 2 ^ 50
     \<and> list_all (\<lambda>p. in_range (spd_Rtt p) \<and> in_range (spd_ForwardDelay p) \<and> in_range (spd_BackwardDelay p)) (sd_Probes d)"

text \<open>A report with sound values gives rows and metrics that can be published.\<close>

lemma buildStamp_ok:
  assumes "UUID env cid = Some cfg" "probes_in_range d" "StampData_ok d"
  obtains m metrics where "buildStamp env sid (Some cid) d = Ret (m, map stamp_probe_row (sd_Probes d), metrics)"
    "StampMetrics_ok metrics" "sm_Sent metrics = sd_Sent d" "sm_Received metrics = sd_Received d"
    "sm_RttP95Ns metrics = sim_RttP95Ns m"
proof -
  let ?arr = "filter (\<lambda>p. \<not> spd_IsLost p) (sd_Probes d)"
  have len: "length ?arr \<le> 2 ^ 50"
    using assms(2) unfolding probes_in_range_def by (meson length_filter_le order_trans)
  have tot: "\<exists>st. computeStats (map f ?arr) = Ret st \<and> in_s 64 (ls_P95 st)"
    if "list_all (\<lambda>p. in_range (f p)) (sd_Probes d)" for f
    using computeStats_total [of "map f ?arr"] len that by (auto simp: list_all_iff)
  obtain r where r: "computeStats (map spd_Rtt ?arr) = Ret r" "in_s 64 (ls_P95 r)"
    using tot [of spd_Rtt] assms(2) by (auto simp: probes_in_range_def list_all_iff)
  obtain f where f: "computeStats (map spd_ForwardDelay ?arr) = Ret f" "in_s 64 (ls_P95 f)"
    using tot [of spd_ForwardDelay] assms(2) by (auto simp: probes_in_range_def list_all_iff)
  obtain b where b: "computeStats (map spd_BackwardDelay ?arr) = Ret b" "in_s 64 (ls_P95 b)"
    using tot [of spd_BackwardDelay] assms(2) by (auto simp: probes_in_range_def list_all_iff)
  show thesis
    by (rule that, simp add: buildStamp_def Let_def r f b assms(1))
      (use r f b assms(3) in \<open>simp_all add: StampMetrics_ok_def StampData_ok_def\<close>)
qed

section \<open>The running processor\<close>

definition stamp_process :: "db_env \<Rightarrow> (uuid \<Rightarrow> bool) \<Rightarrow> stamp_store \<Rightarrow> (pub_result \<times> json option) list \<Rightarrow>
    (InsertStampMeasurementParams, InsertStampProbesParams) pipe \<Rightarrow> bool" where
  "stamp_process env agents d = pipe_reach (\<lambda>pr. stamp_handle env pr False) (stamp_flush env agents) (pipe_start d)"

lemma buildStamp_no_error: "buildStamp env sid cid d \<noteq> Err e"
  by (auto simp: buildStamp_def Let_def obind_eq_Err stats_no_error split: option.splits)

interpretation stamp_pipeline: probe_pipeline "InsertStampMeasurement env agents" "InsertStampProbes env"
    "\<lambda>i r. r\<lparr>sip_MeasurementID := i\<rparr>" "\<lambda>pr. stamp_handle env pr False" for env agents
  by unfold_locales (auto simp: stamp_handle_def obind_eq_Ret obind_eq_Err buildStamp_no_error case_published split: option.splits if_splits)

text \<open>
  Property C23. The STAMP processor cannot get stuck. From every state its two goroutines reach, unless a report has crashed it, they
  can go on without further messages until every report fetched so far has been settled, each exactly once: a full
  channel, a failing database or a pending batch never block them for good.
\<close>

theorem stamp_process_settles_every_report:
  assumes "stamp_process env agents d hist s" "\<not> pi_crashed s"
  shows "\<exists>s'. (pipe_step (stamp_flush env agents))\<^sup>*\<^sup>* s s' \<and> stamp_process env agents d hist s' \<and> in_flight s' = []
    \<and> distinct (map settled_msg (pi_settled s')) \<and> set (map settled_msg (pi_settled s')) = {..<length hist}"
proof -
  obtain s' where s': "(pipe_step (stamp_flush env agents))\<^sup>*\<^sup>* s s'" "in_flight s' = []" "\<not> pi_crashed s'"
    using pipe_empties [OF assms(2)] by blast
  have run: "stamp_process env agents d hist s'"
    using assms(1) pipe_steps_reach [OF s'(1)] unfolding stamp_process_def by blast
  have inv: "core_inv (\<lambda>pr. stamp_handle env pr False) hist s'"
    using stamp_pipeline.pipe_reach_inv [OF run [unfolded stamp_process_def stamp_flush_def]] by (simp add: pipe_inv_def)
  then show ?thesis
    using core_invD(2,4) [OF inv] s' run by (intro exI [of _ s']) (simp add: accounted_def)
qed

text \<open>A report of a session without answers, accepted by the processor.\<close>

definition demo_stamp_data :: StampData where
  "demo_stamp_data = \<lparr>sd_Target = ''t'', sd_Port = 862, sd_Sent = 0, sd_Received = 0, sd_Loss = Fin 0, sd_Probes = [], sd_Timestamp = 5\<rparr>"

definition demo_stamp_env :: db_env where
  "demo_stamp_env = calm_db\<lparr>de_parse := (\<lambda>_. Some 7)\<rparr>"

lemma demo_stamp_enqueued:
  obtains doc out p where "stamp_handle demo_stamp_env \<lparr>po_ok = True, po_copies = 1\<rparr> False 0 (Some doc) = Ret (out, Enqueued p)"
proof -
  have ok: "StampData_ok demo_stamp_data"
    by (simp add: StampData_ok_def demo_stamp_data_def in_s_def json_time_ok_def second_def)
  obtain sj where sj: "StampData_dec sj = Some demo_stamp_data"
    using StampData_codec.enc_total [OF ok] StampData_codec.dec_enc [OF ok] by blast
  let ?p = "\<lparr>re_Payload = \<lparr>pr_TaskID = ''t'', pr_ProbeType = ProbeTypeStamp, pr_Kind = ''stamp'', pr_Timestamp = 5, pr_Data = Some sj\<rparr>,
    re_SerialID = ''s1'', re_SentTimestamp = 6, re_AgentConfigId = ''id''\<rparr>"
  have rp: "ReportPayload_ok ?p" by (simp add: ReportPayload_ok_def json_time_ok_def second_def)
  obtain doc where doc: "ReportPayload_dec doc = Some ?p"
    using ReportPayload_codec.enc_total [OF rp] ReportPayload_codec.dec_enc [OF rp] by blast
  have uuid: "UUID demo_stamp_env ''id'' = Some \<lparr>pg_val = 7, pg_Valid = True\<rparr>" by (simp add: UUID_def demo_stamp_env_def)
  obtain m metrics where b: "buildStamp demo_stamp_env ''s1'' (Some ''id'') demo_stamp_data = Ret (m, map stamp_probe_row (sd_Probes demo_stamp_data), metrics)"
    "StampMetrics_ok metrics"
    by (rule buildStamp_ok [OF uuid _ ok]) (simp_all add: probes_in_range_def demo_stamp_data_def)
  obtain mj where mj: "StampMetrics_enc metrics = Some mj" using StampMetrics_codec.enc_total [OF b(2)] by blast
  have ev: "MeasurementEvent_ok \<lparr>me_Type = ProbeTypeStamp, me_SerialID = ''s1'', me_Target = sd_Target demo_stamp_data, me_Port = int32 (sd_Port demo_stamp_data),
      me_Src = [], me_Timestamp = sd_Timestamp demo_stamp_data, me_Metrics = Some mj\<rparr>"
    by (simp add: MeasurementEvent_ok_def demo_stamp_data_def json_time_ok_def second_def)
  obtain ej where ej: "MeasurementEvent_enc \<lparr>me_Type = ProbeTypeStamp, me_SerialID = ''s1'', me_Target = sd_Target demo_stamp_data,
      me_Port = int32 (sd_Port demo_stamp_data), me_Src = [], me_Timestamp = sd_Timestamp demo_stamp_data, me_Metrics = Some mj\<rparr> = Some ej"
    using MeasurementEvent_codec.enc_total [OF ev] by blast
  show thesis
    by (rule that [of doc]) (simp add: stamp_handle_def d_message_def doc j_raw_def sj b(1) stamp_publishMeasurement_def mj ej publish_def)
qed

theorem stamp_process_settles_every_report_witness:
  "\<exists>hist s s'. stamp_process demo_stamp_env (\<lambda>_. True) \<lparr>ps_measurements = [], ps_probes = [], ps_stmts = 0\<rparr> hist s
     \<and> pi_settled s = [] \<and> (pipe_step (stamp_flush demo_stamp_env (\<lambda>_. True)))\<^sup>*\<^sup>* s s' \<and> set (map settled_msg (pi_settled s')) = {0}"
proof -
  let ?d = "\<lparr>ps_measurements = [], ps_probes = [], ps_stmts = 0\<rparr> :: stamp_store" and ?pr = "\<lparr>po_ok = True, po_copies = 1\<rparr>"
  obtain doc out p where h: "stamp_handle demo_stamp_env ?pr False 0 (Some doc) = Ret (out, Enqueued p)" by (rule demo_stamp_enqueued)
  let ?s = "pipe_fetch (\<lambda>pr. stamp_handle demo_stamp_env pr False) ?pr 0 (Some doc) (pipe_start ?d)"
  have s: "stamp_process demo_stamp_env (\<lambda>_. True) ?d [(?pr, Some doc)] ?s"
    using pipe_reach.fetch [OF pipe_reach.started, of "pipe_start ?d"] unfolding stamp_process_def by (simp add: pipe_start_def)
  have f: "pi_settled ?s = []" "\<not> pi_crashed ?s" using h by (simp_all add: pipe_fetch_def pipe_start_def)
  have "set (map settled_msg (pi_settled s')) = {..<length [(?pr, Some doc)]} \<longleftrightarrow> set (map settled_msg (pi_settled s')) = {0}" for s' :: "(InsertStampMeasurementParams, InsertStampProbesParams) pipe"
    by (simp add: lessThan_Suc)
  then show ?thesis using stamp_process_settles_every_report [OF s f(2)] s f(1) by blast
qed

end
