(* ===== verification/Go_Order.thy ===== *)
theory Go_Order
  imports Go_Base "HOL-Library.Multiset"
begin

text \<open>
  Orders that Go leaves open. Ranging over a map visits the keys in an unspecified order, and
  \<^verbatim>\<open>sort.Slice\<close> may return elements that compare equal in any order. Both are modelled by a \<open>choice\<close>,
  a sequence of exchanges: \<open>some_order\<close> applies it to a list, and every rearrangement of the
  list is the result of some choice, so a statement for all choices covers every run.
\<close>

type_synonym choice = "(nat \<times> nat) list"

fun exchange :: "nat \<times> nat \<Rightarrow> 'a list \<Rightarrow> 'a list" where
  "exchange (i, j) xs = (if i < length xs \<and> j < length xs then xs[i := xs ! j, j := xs ! i] else xs)"

definition some_order :: "choice \<Rightarrow> 'a list \<Rightarrow> 'a list" where
  "some_order c xs = fold exchange c xs"

lemma mset_exchange [simp]: "mset (exchange ij xs) = mset xs"
  by (cases ij) (auto simp: mset_swap)

lemma length_exchange [simp]: "length (exchange ij xs) = length xs"
  by (cases ij) auto

lemma mset_some_order [simp]: "mset (some_order c xs) = mset xs"
  unfolding some_order_def by (induction c arbitrary: xs) auto

lemma set_some_order [simp]: "set (some_order c xs) = set xs"
  by (metis mset_some_order set_mset_mset)

lemma distinct_some_order [simp]: "distinct (some_order c xs) \<longleftrightarrow> distinct xs"
  by (metis mset_eq_imp_distinct_iff mset_some_order)

lemma distinct_map_some_order [simp]: "distinct (map f (some_order c xs)) \<longleftrightarrow> distinct (map f xs)"
  by (rule mset_eq_imp_distinct_iff) simp

lemma exchange_Cons: "exchange (Suc i, Suc j) (x # xs) = x # exchange (i, j) xs"
  by simp

lemma some_order_Cons: "some_order (map (map_prod Suc Suc) c) (x # xs) = x # some_order c xs"
  unfolding some_order_def
proof (induction c arbitrary: xs)
  case (Cons ij c)
  then show ?case by (cases ij) (simp add: exchange_Cons del: exchange.simps)
qed simp

text \<open>Every rearrangement is the result of a choice.\<close>

lemma some_order_complete: "mset ys = mset xs \<Longrightarrow> \<exists>c. some_order c xs = ys"
proof (induction ys arbitrary: xs)
  case Nil
  then show ?case by (intro exI [of _ "[]"]) (simp add: some_order_def)
next
  case (Cons y ys)
  then have "y \<in> set xs" by (metis list.set_intros(1) set_mset_mset)
  then obtain i where i: "i < length xs" "xs ! i = y" by (meson in_set_conv_nth)
  let ?xs = "exchange (0, i) xs"
  have "xs \<noteq> []" using i(1) by auto
  then have "?xs \<noteq> []" "hd ?xs = y" using i by (auto simp: hd_conv_nth nth_list_update)
  then have xs: "?xs = y # tl ?xs" by (metis list.collapse)
  have "mset (y # ys) = mset (y # tl ?xs)" using Cons.prems xs by (metis mset_exchange)
  then obtain c where "some_order c (tl ?xs) = ys" using Cons.IH by auto
  then have "some_order ((0, i) # map (map_prod Suc Suc) c) xs = y # ys"
    using some_order_Cons [of c y "tl ?xs"] xs by (simp add: some_order_def del: exchange.simps)
  then show ?case ..
qed

section \<open>Sorting a slice by a key\<close>

definition sort_slice :: "choice \<Rightarrow> ('a \<Rightarrow> 'k::linorder) \<Rightarrow> 'a list \<Rightarrow> 'a list" where
  "sort_slice c key xs = sort_key key (some_order c xs)"

lemma mset_sort_slice [simp]: "mset (sort_slice c key xs) = mset xs"
  by (simp add: sort_slice_def)

lemma set_sort_slice [simp]: "set (sort_slice c key xs) = set xs"
  by (simp add: sort_slice_def)

lemma sorted_sort_slice [simp]: "sorted (map key (sort_slice c key xs))"
  by (simp add: sort_slice_def)

lemma sort_slice_complete:
  assumes "mset ys = mset xs" "sorted (map key ys)"
  shows "\<exists>c. sort_slice c key xs = ys"
  using some_order_complete [OF assms(1)] sort_key_id_if_sorted [of key ys] assms(2) unfolding sort_slice_def by metis

text \<open>Distinct keys leave nothing open.\<close>

lemma sort_slice_unique:
  assumes "distinct (map key xs)" "mset xs = mset ys"
  shows "sort_slice c key xs = sort_slice c' key ys"
proof -
  have key: "distinct (map key (sort_slice c key xs))" "inj_on key (set xs)"
    using assms(1) by (metis mset_eq_imp_distinct_iff mset_map mset_sort_slice, simp add: distinct_map)
  have "map key (sort_slice c key xs) = map key (sort_slice c' key ys)"
    using properties_for_sort [of "map key (sort_slice c key xs)" "map key ys"]
      properties_for_sort [of "map key (sort_slice c' key ys)" "map key ys"] by (simp add: assms(2))
  moreover have "set (sort_slice c key xs) = set xs" "set (sort_slice c' key ys) = set xs"
    using assms(2) by (metis set_sort_slice, metis set_mset_mset set_sort_slice)
  ultimately show ?thesis
    using key(2) by (metis map_inj_on Un_absorb)
qed

end
