(* ===== verification/Trace_Links.thy ===== *)
theory Trace_Links
  imports Trace_Messages Go_Order "HOL-Library.AList" "HOL-Library.List_Lexorder" "HOL-Library.Char_ord"
begin

text \<open>
  From a traceroute record to links and fingerprints (\<^verbatim>\<open>services/trace-processor/extract_links.go\<close> and
  the fingerprints of \<^verbatim>\<open>processor.go\<close>). Hops are grouped by flow, the probe identifier; every flow is
  sorted by TTL and thinned to one hop per TTL, and neighbouring hops give a link. What Go leaves
  open, the order of a map and of hops with the same TTL, is an argument of type \<open>choice\<close>.
\<close>

record ParsedHop =
  ph_Addr :: string
  ph_ProbeID :: int
  ph_ProbeTTL :: int
  ph_ReplyTTL :: int
  ph_IsTimeout :: bool
  ph_IcmpCode :: int
  ph_RTT :: float64

record TraceLink =
  lk_ProbeID :: int
  lk_SrcIP :: "string option"
  lk_DstIP :: "string option"
  lk_TTLGap :: int
  lk_IsSrcRespond :: bool
  lk_IsDstRespond :: bool
  lk_DiffRTT :: "float64 option"

section \<open>Grouping\<close>

definition parsed_hop :: "TraceHopData \<Rightarrow> ParsedHop" where
  "parsed_hop h = \<lparr>ph_Addr = th_Addr h, ph_ProbeID = th_ProbeID h, ph_ProbeTTL = th_ProbeTTL h,
     ph_ReplyTTL = th_ReplyTTL h, ph_IsTimeout = False, ph_IcmpCode = th_IcmpCode h, ph_RTT = th_Rtt h\<rparr>"

definition parsed_nohop :: "TraceNoHopData \<Rightarrow> ParsedHop" where
  "parsed_nohop h = \<lparr>ph_Addr = [], ph_ProbeID = tn_ProbeID h, ph_ProbeTTL = tn_ProbeTTL h,
     ph_ReplyTTL = 0, ph_IsTimeout = True, ph_IcmpCode = 0, ph_RTT = Fin 0\<rparr>"

type_synonym hop_groups = "(int \<times> ParsedHop list) list"

definition group_add :: "ParsedHop \<Rightarrow> hop_groups \<Rightarrow> hop_groups" where
  "group_add h gs = AList.update (ph_ProbeID h)
     ((case map_of gs (ph_ProbeID h) of None \<Rightarrow> [] | Some hs \<Rightarrow> hs) @ [h]) gs"

definition all_hops :: "TraceDataTracePayload \<Rightarrow> ParsedHop list" where
  "all_hops p = map parsed_hop (tt_Hops p) @ map parsed_nohop (tt_NoHops p)"

definition group_hops :: "TraceDataTracePayload \<Rightarrow> hop_groups" where
  "group_hops p = fold group_add (all_hops p) []"

section \<open>One hop per TTL\<close>

fun dedup_after :: "int \<Rightarrow> ParsedHop list \<Rightarrow> ParsedHop list" where
  "dedup_after prev [] = []"
| "dedup_after prev (h # hs) =
     (if ph_ProbeTTL h \<noteq> prev then h # dedup_after (ph_ProbeTTL h) hs else dedup_after (ph_ProbeTTL h) hs)"

fun dedup_ttl :: "ParsedHop list \<Rightarrow> ParsedHop list" where
  "dedup_ttl [] = []"
| "dedup_ttl (h # hs) = h # dedup_after (ph_ProbeTTL h) hs"

section \<open>Links\<close>

definition make_link :: "int \<Rightarrow> ParsedHop \<Rightarrow> ParsedHop \<Rightarrow> TraceLink" where
  "make_link probeID src dst = \<lparr>lk_ProbeID = probeID,
     lk_SrcIP = (if \<not> ph_IsTimeout src then Some (ph_Addr src) else None),
     lk_DstIP = (if \<not> ph_IsTimeout dst then Some (ph_Addr dst) else None),
     lk_TTLGap = int64 (ph_ProbeTTL dst - ph_ProbeTTL src),
     lk_IsSrcRespond = (\<not> ph_IsTimeout src), lk_IsDstRespond = (\<not> ph_IsTimeout dst),
     lk_DiffRTT = (if \<not> ph_IsTimeout src \<and> \<not> ph_IsTimeout dst then Some (f_sub (ph_RTT dst) (ph_RTT src)) else None)\<rparr>"

definition link_key :: "int \<Rightarrow> ParsedHop \<Rightarrow> ParsedHop \<Rightarrow> string" where
  "link_key probeID src dst = itoa probeID @ '':'' @ ph_Addr src @ ''->'' @ ph_Addr dst"

fun link_loop :: "int \<Rightarrow> ParsedHop list \<Rightarrow> string set \<times> TraceLink list \<Rightarrow> string set \<times> TraceLink list" where
  "link_loop k (src # dst # rest) (seen, links) =
     link_loop k (dst # rest)
       (if link_key k src dst \<in> seen then (seen, links)
        else (insert (link_key k src dst) seen, links @ [make_link k src dst]))"
| "link_loop k _ s = s"

text \<open>\<open>ties\<close> orders hops of equal TTL, \<open>ord\<close> the flows.\<close>

definition extractLinks :: "(int \<Rightarrow> choice) \<Rightarrow> choice \<Rightarrow> TraceDataTracePayload \<Rightarrow> TraceLink list" where
  "extractLinks ties ord p =
     (let groups = group_hops p;
          ordered = map (\<lambda>(k, hops). (k, sort_slice (ties k) ph_ProbeTTL hops)) groups;
          deduped = map (\<lambda>(k, hops). (k, dedup_ttl hops)) ordered
      in snd (fold (\<lambda>(k, hops). link_loop k hops) (some_order ord deduped) ({}, [])))"

section \<open>Fingerprints\<close>

fun strings_Join :: "string list \<Rightarrow> string \<Rightarrow> string" where
  "strings_Join [] sep = []"
| "strings_Join [x] sep = x"
| "strings_Join (x # y # ys) sep = x @ sep @ strings_Join (y # ys) sep"

definition ip_pairs :: "TraceLink list \<Rightarrow> string list" where
  "ip_pairs links = List.map_filter (\<lambda>l. case (lk_SrcIP l, lk_DstIP l) of
     (Some s, Some d) \<Rightarrow> Some (s @ ''->'' @ d) | _ \<Rightarrow> None) links"

definition hex_digit :: "nat \<Rightarrow> char" where
  "hex_digit n = (if n < 10 then char_of (48 + n) else char_of (87 + n))"

definition hex_encode :: "8 word list \<Rightarrow> string" where
  "hex_encode bs = concat (map (\<lambda>b. [hex_digit (unat b div 16), hex_digit (unat b mod 16)]) bs)"

text \<open>The digest of package \<^verbatim>\<open>crypto/sha256\<close> is the argument \<open>sha\<close>; a fingerprint keeps its first eight octets.\<close>

definition link_fingerprint :: "(string \<Rightarrow> 8 word list) \<Rightarrow> TraceLink list \<Rightarrow> string" where
  "link_fingerprint sha links = hex_encode (take 8 (sha (strings_Join (sort (ip_pairs links)) '','')))"

section \<open>Flows\<close>

definition flow :: "TraceDataTracePayload \<Rightarrow> int \<Rightarrow> ParsedHop list" where
  "flow p k = filter (\<lambda>h. ph_ProbeID h = k) (all_hops p)"

lemma fold_group_add:
  "distinct (map fst gs) \<Longrightarrow> distinct (map fst (fold group_add hs gs))
   \<and> (\<forall>k. map_of (fold group_add hs gs) k =
        (case map_of gs k of
           None \<Rightarrow> if filter (\<lambda>h. ph_ProbeID h = k) hs = [] then None else Some (filter (\<lambda>h. ph_ProbeID h = k) hs)
         | Some xs \<Rightarrow> Some (xs @ filter (\<lambda>h. ph_ProbeID h = k) hs)))"
proof (induction hs arbitrary: gs)
  case (Cons h hs)
  have "distinct (map fst (group_add h gs))"
    using Cons.prems by (simp add: group_add_def distinct_update)
  from Cons.IH [OF this] show ?case
    by (auto simp: group_add_def update_conv split: option.splits)
qed (auto split: option.splits)

lemma group_hops_distinct: "distinct (map fst (group_hops p))"
  unfolding group_hops_def by (rule fold_group_add [THEN conjunct1]) simp

lemma group_hops_flow: "(k, hs) \<in> set (group_hops p) \<longleftrightarrow> hs = flow p k \<and> hs \<noteq> []"
proof -
  have "map_of (group_hops p) k = (if flow p k = [] then None else Some (flow p k))"
    using fold_group_add [of "[]" "all_hops p"] by (simp add: group_hops_def flow_def)
  then show ?thesis
    using group_hops_distinct [of p] by (metis map_of_eq_Some_iff option.distinct(1) option.inject)
qed

section \<open>One hop per TTL, in order\<close>

lemma set_dedup_after: "set (dedup_after prev hs) \<subseteq> set hs"
  by (induction hs arbitrary: prev) auto

lemma dedup_after_sorted:
  "sorted (prev # map ph_ProbeTTL hs) \<Longrightarrow>
   sorted_wrt (<) (prev # map ph_ProbeTTL (dedup_after prev hs))
   \<and> insert prev (ph_ProbeTTL ` set (dedup_after prev hs)) = insert prev (ph_ProbeTTL ` set hs)"
proof (induction hs arbitrary: prev)
  case (Cons h hs)
  have "sorted (ph_ProbeTTL h # map ph_ProbeTTL hs)" "prev \<le> ph_ProbeTTL h" using Cons.prems by auto
  with Cons.IH [of "ph_ProbeTTL h"] show ?case by (cases "ph_ProbeTTL h = prev") auto
qed simp

lemma dedup_ttl_sorted:
  assumes "sorted (map ph_ProbeTTL hs)"
  shows "sorted_wrt (<) (map ph_ProbeTTL (dedup_ttl hs))" "set (dedup_ttl hs) \<subseteq> set hs"
    "ph_ProbeTTL ` set (dedup_ttl hs) = ph_ProbeTTL ` set hs"
  using assms dedup_after_sorted set_dedup_after by (cases hs; fastforce)+

lemma dedup_after_id: "distinct (prev # map ph_ProbeTTL hs) \<Longrightarrow> dedup_after prev hs = hs"
  by (induction hs arbitrary: prev) auto

lemma dedup_ttl_id: "distinct (map ph_ProbeTTL hs) \<Longrightarrow> dedup_ttl hs = hs"
  by (cases hs) (auto intro: dedup_after_id)

definition flow_path :: "choice \<Rightarrow> TraceDataTracePayload \<Rightarrow> int \<Rightarrow> ParsedHop list" where
  "flow_path c p k = dedup_ttl (sort_slice c ph_ProbeTTL (flow p k))"

lemma flow_path_sorted:
  "sorted_wrt (<) (map ph_ProbeTTL (flow_path c p k))" "set (flow_path c p k) \<subseteq> set (flow p k)"
  "ph_ProbeTTL ` set (flow_path c p k) = ph_ProbeTTL ` set (flow p k)"
  using dedup_ttl_sorted [of "sort_slice c ph_ProbeTTL (flow p k)"] by (simp_all add: flow_path_def)

section \<open>Neighbours\<close>

abbreviation steps :: "'a list \<Rightarrow> ('a \<times> 'a) list" where
  "steps xs \<equiv> zip xs (tl xs)"

lemma steps_neighbours:
  fixes key :: "'a \<Rightarrow> 'k::linorder"
  assumes "sorted_wrt (<) (map key xs)"
  shows "(a, b) \<in> set (steps xs) \<longleftrightarrow>
    a \<in> set xs \<and> b \<in> set xs \<and> key a < key b \<and> (\<forall>h \<in> set xs. \<not> (key a < key h \<and> key h < key b))"
  using assms
proof (induction xs)
  case (Cons x xs)
  show ?case
  proof (cases xs)
    case (Cons y ys)
    have s: "sorted_wrt (<) (map key xs)" "\<forall>z \<in> set xs. key x < key z" "\<forall>z \<in> set ys. key y < key z"
      using Cons.prems Cons by auto
    note IH = Cons.IH [OF s(1)]
    have "(a, b) \<in> set (steps (x # xs)) \<longleftrightarrow> a = x \<and> b = y \<or> (a, b) \<in> set (steps xs)"
      using Cons by auto
    also have "\<dots> \<longleftrightarrow> a \<in> set (x # xs) \<and> b \<in> set (x # xs) \<and> key a < key b
        \<and> (\<forall>h \<in> set (x # xs). \<not> (key a < key h \<and> key h < key b))" (is "?l \<longleftrightarrow> ?r")
    proof
      assume ?l
      then show ?r using IH s Cons by (auto dest: order.asym)
    next
      assume r: ?r
      show ?l
      proof (cases "a = x")
        case True
        then have "b \<in> set xs" using r by auto
        then have "b = y" using r True s Cons by auto
        then show ?thesis using True by simp
      next
        case False
        then have "a \<in> set xs" using r by auto
        moreover have "b \<noteq> x" using r s calculation by (metis order.asym)
        ultimately show ?thesis using IH r by auto
      qed
    qed
    finally show ?thesis .
  qed auto
qed simp

section \<open>The seen set\<close>

text \<open>The elements of a list whose key is not in \<open>seen\<close> and did not occur before.\<close>

fun firsts :: "('a \<Rightarrow> 'k) \<Rightarrow> 'k set \<Rightarrow> 'a list \<Rightarrow> 'a list" where
  "firsts f seen [] = []"
| "firsts f seen (x # xs) = (if f x \<in> seen then firsts f seen xs else x # firsts f (insert (f x) seen) xs)"

lemma firsts_disjoint: "f ` set xs \<inter> B = {} \<Longrightarrow> firsts f (A \<union> B) xs = firsts f A xs"
proof (induction xs arbitrary: A)
  case (Cons x xs)
  then have "f x \<notin> B" "f ` set xs \<inter> B = {}" by auto
  then show ?case using Cons.IH [of A] Cons.IH [of "insert (f x) A"] by simp
qed simp

lemma firsts_keys: "f ` set (firsts f seen xs) = f ` set xs - seen" "set (firsts f seen xs) \<subseteq> set xs"
  "distinct (map f (firsts f seen xs))"
proof (induction xs arbitrary: seen)
  case (Cons x xs)
  { case 1 show ?case using Cons.IH(1) by auto }
  { case 2 show ?case using Cons.IH(2) by auto }
  { case 3 show ?case using Cons.IH(1,3) [of "insert (f x) seen"] Cons.IH(3) [of seen] by auto }
qed simp_all

lemma link_loop_firsts:
  "link_loop k hs (seen, links) =
     (seen \<union> case_prod (link_key k) ` set (steps hs),
      links @ map (case_prod (make_link k)) (firsts (case_prod (link_key k)) seen (steps hs)))"
proof (induction k hs "(seen, links)" arbitrary: seen links rule: link_loop.induct)
  case (1 k src dst rest seen links)
  show ?case
  proof (cases "link_key k src dst \<in> seen")
    case True
    then show ?thesis using 1 [of seen links] by (simp add: insert_absorb)
  next
    case False
    then show ?thesis using 1 [of "insert (link_key k src dst) seen" "links @ [make_link k src dst]"] by simp
  qed
qed simp_all

text \<open>Keys of different flows differ.\<close>

lemma link_key_flow: "link_key k a b = link_key k' a' b' \<Longrightarrow> k = k'"
proof -
  have "takeWhile (\<lambda>c. c \<noteq> CHR '':'') (link_key k a b) = itoa k" for k a b
  proof -
    have "takeWhile (\<lambda>c. c \<noteq> CHR '':'') (itoa k @ CHR '':'' # s) = itoa k" for s
      using itoa_no_colon [of k] by (subst takeWhile_append2) auto
    then show ?thesis by (simp add: link_key_def)
  qed
  then show "link_key k a b = link_key k' a' b' \<Longrightarrow> k = k'" by (metis itoa_inj)
qed

section \<open>Links of a flow\<close>

definition flow_links :: "int \<times> ParsedHop list \<Rightarrow> TraceLink list" where
  "flow_links = (\<lambda>(k, hs). map (case_prod (make_link k)) (firsts (case_prod (link_key k)) {} (steps hs)))"

lemma fold_link_loop:
  "distinct (map fst gs) \<Longrightarrow> (\<forall>s \<in> seen. \<forall>(k, hs) \<in> set gs. \<forall>a b. s \<noteq> link_key k a b) \<Longrightarrow>
   snd (fold (\<lambda>(k, hops). link_loop k hops) gs (seen, links)) = links @ concat (map flow_links gs)"
proof (induction gs arbitrary: seen links)
  case (Cons g gs)
  obtain k hs where g: "g = (k, hs)" by (cases g)
  let ?seen = "seen \<union> case_prod (link_key k) ` set (steps hs)"
  have "case_prod (link_key k) ` set (steps hs) \<inter> seen = {}" using Cons.prems(2) g by fastforce
  then have f: "firsts (case_prod (link_key k)) seen (steps hs) = firsts (case_prod (link_key k)) {} (steps hs)"
    using firsts_disjoint [of "case_prod (link_key k)" "steps hs" seen "{}"] by simp
  have "\<forall>s \<in> ?seen. \<forall>(k, hs) \<in> set gs. \<forall>a b. s \<noteq> link_key k a b"
  proof (intro ballI, clarify)
    fix s k' hs' a b assume s: "link_key k' a b \<in> ?seen" and k': "(k', hs') \<in> set gs"
    have "k' \<noteq> k" using Cons.prems(1) k' g by (force simp: image_iff)
    then have "link_key k' a b \<notin> case_prod (link_key k) ` set (steps hs)" using link_key_flow by fastforce
    then show False using s k' Cons.prems(2) by fastforce
  qed
  with Cons.IH [of ?seen "links @ flow_links g"] Cons.prems(1) show ?case
    by (simp add: g link_loop_firsts f flow_links_def)
qed simp

lemma extractLinks_flows:
  "extractLinks ties ord p = concat (map flow_links (some_order ord (map (\<lambda>(k, hs). (k, flow_path (ties k) p k)) (group_hops p))))"
proof -
  have eq: "map (\<lambda>(k, hops). (k, dedup_ttl hops)) (map (\<lambda>(k, hops). (k, sort_slice (ties k) ph_ProbeTTL hops)) (group_hops p))
      = map (\<lambda>(k, hs). (k, flow_path (ties k) p k)) (group_hops p)"
    unfolding map_map by (rule map_cong [OF HOL.refl]) (auto simp: group_hops_flow flow_path_def)
  let ?gs = "map (\<lambda>(k, hs). (k, flow_path (ties k) p k)) (group_hops p)"
  have "map fst ?gs = map fst (group_hops p)" by auto
  then have "distinct (map fst (some_order ord ?gs))"
    using group_hops_distinct [of p] by (simp only: distinct_map_some_order)
  then show ?thesis
    unfolding extractLinks_def Let_def eq using fold_link_loop [of "some_order ord ?gs" "{}" "[]"] by simp
qed

section \<open>Links are the adjacencies of the flows\<close>

text \<open>Two hops of a flow are adjacent when no hop of the flow lies between them.\<close>

definition adjacent :: "TraceDataTracePayload \<Rightarrow> int \<Rightarrow> ParsedHop \<Rightarrow> ParsedHop \<Rightarrow> bool" where
  "adjacent p k a b \<longleftrightarrow> a \<in> set (flow p k) \<and> b \<in> set (flow p k) \<and> ph_ProbeTTL a < ph_ProbeTTL b
     \<and> (\<forall>h \<in> set (flow p k). \<not> (ph_ProbeTTL a < ph_ProbeTTL h \<and> ph_ProbeTTL h < ph_ProbeTTL b))"

text \<open>The addresses of a link, empty for an end that did not respond.\<close>

definition link_ends :: "TraceLink \<Rightarrow> string \<times> string" where
  "link_ends l = (case_option [] id (lk_SrcIP l), case_option [] id (lk_DstIP l))"

definition hops_sane :: "TraceDataTracePayload \<Rightarrow> bool" where
  "hops_sane p \<longleftrightarrow> list_all (\<lambda>h. CHR ''>'' \<notin> set (ph_Addr h) \<and> 0 \<le> ph_ProbeTTL h \<and> in_s 64 (ph_ProbeTTL h)) (all_hops p)"

lemma flow_hops: "h \<in> set (flow p k) \<longleftrightarrow> h \<in> set (all_hops p) \<and> ph_ProbeID h = k"
  by (auto simp: flow_def)

lemma timeout_addr: "h \<in> set (all_hops p) \<Longrightarrow> ph_IsTimeout h \<Longrightarrow> ph_Addr h = []"
  by (auto simp: all_hops_def parsed_hop_def parsed_nohop_def)

lemma link_ends_make: "adjacent p k a b \<Longrightarrow> link_ends (make_link k a b) = (ph_Addr a, ph_Addr b)"
  using timeout_addr [of a p] timeout_addr [of b p] by (auto simp: link_ends_def make_link_def adjacent_def flow_hops)

lemma steps_adjacent: "(a, b) \<in> set (steps (flow_path c p k)) \<Longrightarrow> adjacent p k a b"
proof -
  assume "(a, b) \<in> set (steps (flow_path c p k))"
  then have s: "a \<in> set (flow_path c p k)" "b \<in> set (flow_path c p k)" "ph_ProbeTTL a < ph_ProbeTTL b"
    "\<forall>h \<in> set (flow_path c p k). \<not> (ph_ProbeTTL a < ph_ProbeTTL h \<and> ph_ProbeTTL h < ph_ProbeTTL b)"
    using steps_neighbours [OF flow_path_sorted(1)] by blast+
  have "\<not> (ph_ProbeTTL a < ph_ProbeTTL h \<and> ph_ProbeTTL h < ph_ProbeTTL b)" if "h \<in> set (flow p k)" for h
  proof -
    have "ph_ProbeTTL h \<in> ph_ProbeTTL ` set (flow_path c p k)" using that flow_path_sorted(3) by blast
    then show ?thesis using s(4) by auto
  qed
  then show ?thesis using s(1-3) flow_path_sorted(2) [of c p k] by (auto simp: adjacent_def)
qed

lemma adjacent_steps:
  assumes "adjacent p k a b"
  obtains a' b' where "(a', b') \<in> set (steps (flow_path c p k))" "ph_ProbeTTL a' = ph_ProbeTTL a" "ph_ProbeTTL b' = ph_ProbeTTL b"
proof -
  have "ph_ProbeTTL a \<in> ph_ProbeTTL ` set (flow_path c p k)" "ph_ProbeTTL b \<in> ph_ProbeTTL ` set (flow_path c p k)"
    using assms flow_path_sorted(3) [of c p k] by (auto simp: adjacent_def)
  then obtain a' b' where *: "a' \<in> set (flow_path c p k)" "ph_ProbeTTL a' = ph_ProbeTTL a"
      "b' \<in> set (flow_path c p k)" "ph_ProbeTTL b' = ph_ProbeTTL b" by (metis imageE)
  then have "(a', b') \<in> set (steps (flow_path c p k))"
    using assms flow_path_sorted(2) [of c p k]
    by (subst steps_neighbours [OF flow_path_sorted(1)]) (auto simp: adjacent_def)
  then show ?thesis using * that by blast
qed

lemma arrow_inj:
  assumes "CHR ''>'' \<notin> set a" "CHR ''>'' \<notin> set a'" "a @ ''->'' @ b = a' @ ''->'' @ b'"
  shows "a = a' \<and> b = b'"
proof -
  have "takeWhile (\<lambda>c. c \<noteq> CHR ''>'') (x @ ''->'' @ y) = x @ ''-''" if "CHR ''>'' \<notin> set x" for x y
    using that by (subst takeWhile_append2) auto
  then have "a @ ''-'' = a' @ ''-''" using assms by metis
  then show ?thesis using assms(3) by simp
qed

lemma link_key_inj:
  assumes "hops_sane p" "adjacent p k a b" "adjacent p k a' b'" "link_key k a b = link_key k a' b'"
  shows "(ph_Addr a, ph_Addr b) = (ph_Addr a', ph_Addr b')"
  using assms arrow_inj [of "ph_Addr a" "ph_Addr a'" "ph_Addr b" "ph_Addr b'"]
  by (auto simp: link_key_def hops_sane_def list_all_iff adjacent_def flow_hops)

lemma set_extractLinks:
  "l \<in> set (extractLinks ties ord p) \<longleftrightarrow>
   (\<exists>k a b. flow p k \<noteq> [] \<and> (a, b) \<in> set (firsts (case_prod (link_key k)) {} (steps (flow_path (ties k) p k))) \<and> l = make_link k a b)"
proof -
  have "l \<in> set (extractLinks ties ord p) \<longleftrightarrow> (\<exists>k hs. (k, hs) \<in> set (group_hops p) \<and> l \<in> set (flow_links (k, flow_path (ties k) p k)))"
    by (simp add: extractLinks_flows Bex_def split_paired_Ex)
  then show ?thesis by (auto simp: group_hops_flow flow_links_def)
qed

lemma make_link_flow [simp]: "lk_ProbeID (make_link k a b) = k"
  by (simp add: make_link_def)

lemma flow_links_distinct:
  "distinct (map link_ends (flow_links (k, flow_path c p k)))"
proof -
  let ?f = "firsts (case_prod (link_key k)) {} (steps (flow_path c p k))"
  have adj: "adjacent p k a b" if "(a, b) \<in> set ?f" for a b
    using that firsts_keys(2) [of "case_prod (link_key k)" "{}"] steps_adjacent by blast
  have "inj_on (\<lambda>(a, b). link_ends (make_link k a b)) (set ?f)"
  proof (rule inj_onI, clarify)
    fix a b a' b' assume ab: "(a, b) \<in> set ?f" "(a', b') \<in> set ?f" "link_ends (make_link k a b) = link_ends (make_link k a' b')"
    then have "link_key k a b = link_key k a' b'"
      using link_ends_make [OF adj [OF ab(1)]] link_ends_make [OF adj [OF ab(2)]] by (simp add: link_key_def)
    then show "a = a' \<and> b = b'"
      using firsts_keys(3) [of "case_prod (link_key k)" "{}" "steps (flow_path c p k)"] ab(1,2)
      by (auto simp: distinct_map inj_on_def)
  qed
  moreover have "distinct ?f"
    using firsts_keys(3) [of "case_prod (link_key k)" "{}" "steps (flow_path c p k)"] by (simp add: distinct_map)
  ultimately show ?thesis
    by (simp add: flow_links_def distinct_map comp_def case_prod_unfold inj_on_def)
qed

lemma distinct_concat_flows:
  assumes "distinct (map fst gs)" "\<And>k hs. (k, hs) \<in> set gs \<Longrightarrow> hs = flow_path (ties k) p k"
  shows "distinct (map (\<lambda>l. (lk_ProbeID l, link_ends l)) (concat (map flow_links gs)))"
  using assms
proof (induction gs)
  case (Cons g gs)
  obtain k hs where g: "g = (k, hs)" by (cases g)
  have ids: "lk_ProbeID l = k" if "l \<in> set (flow_links (k, hs))" for k hs l using that by (auto simp: flow_links_def)
  have "hs = flow_path (ties k) p k" using Cons.prems(2) g by simp
  then have "distinct (map link_ends (flow_links g))" using flow_links_distinct g by simp
  then have "distinct (map (\<lambda>l. (lk_ProbeID l, link_ends l)) (flow_links g))"
    by (auto simp: distinct_map inj_on_def)
  moreover have "distinct (map (\<lambda>l. (lk_ProbeID l, link_ends l)) (concat (map flow_links gs)))"
    using Cons by simp
  moreover have "lk_ProbeID l \<noteq> k" if "l \<in> set (concat (map flow_links gs))" for l
    using that ids Cons.prems(1) g by (auto simp: image_iff)
  ultimately show ?case using ids [of _ k hs] g by auto
qed simp

text \<open>
  Property C27. The links of a traceroute are exactly the adjacencies of its flows. Whatever order Go gives to
  the flows and to hops of equal TTL: every link joins two hops of one flow with no hop of that flow between them, with
  a positive TTL gap, the addresses of the ends that responded, and a delay difference exactly when both did; between any two adjacent
  TTL levels of a flow there is a link of hops of these levels; and no flow has two links with the same ends.
\<close>

theorem links_are_adjacencies:
  assumes "hops_sane p"
  shows "let links = extractLinks ties ord p in
    (\<forall>l \<in> set links. \<exists>a b. adjacent p (lk_ProbeID l) a b \<and> l = make_link (lk_ProbeID l) a b
       \<and> lk_TTLGap l = ph_ProbeTTL b - ph_ProbeTTL a \<and> 0 < lk_TTLGap l
       \<and> (lk_DiffRTT l \<noteq> None \<longleftrightarrow> lk_IsSrcRespond l \<and> lk_IsDstRespond l))
    \<and> (\<forall>k a b. adjacent p k a b \<longrightarrow> (\<exists>a' b'. adjacent p k a' b' \<and> ph_ProbeTTL a' = ph_ProbeTTL a \<and> ph_ProbeTTL b' = ph_ProbeTTL b
         \<and> (\<exists>l \<in> set links. lk_ProbeID l = k \<and> link_ends l = (ph_Addr a', ph_Addr b'))))
    \<and> distinct (map (\<lambda>l. (lk_ProbeID l, link_ends l)) links)"
  unfolding Let_def
proof (intro conjI ballI allI impI)
  fix l assume "l \<in> set (extractLinks ties ord p)"
  then obtain k a b where l: "(a, b) \<in> set (firsts (case_prod (link_key k)) {} (steps (flow_path (ties k) p k)))" "l = make_link k a b"
    by (auto simp: set_extractLinks)
  then have adj: "adjacent p k a b" using firsts_keys(2) steps_adjacent by fastforce
  then have "0 \<le> ph_ProbeTTL a" "in_s 64 (ph_ProbeTTL b)" "0 < ph_ProbeTTL b - ph_ProbeTTL a"
    using assms by (auto simp: hops_sane_def list_all_iff adjacent_def flow_hops)
  then have "in_s 64 (ph_ProbeTTL b - ph_ProbeTTL a)" "0 < ph_ProbeTTL b - ph_ProbeTTL a"
    by (simp_all add: in_s_def)
  then show "\<exists>a b. adjacent p (lk_ProbeID l) a b \<and> l = make_link (lk_ProbeID l) a b
       \<and> lk_TTLGap l = ph_ProbeTTL b - ph_ProbeTTL a \<and> 0 < lk_TTLGap l
       \<and> (lk_DiffRTT l \<noteq> None \<longleftrightarrow> lk_IsSrcRespond l \<and> lk_IsDstRespond l)"
    using adj l(2) by (intro exI [of _ a] exI [of _ b]) (simp add: make_link_def wrap_s_id)
next
  fix k a b assume adj: "adjacent p k a b"
  then obtain a' b' where s: "(a', b') \<in> set (steps (flow_path (ties k) p k))" "ph_ProbeTTL a' = ph_ProbeTTL a" "ph_ProbeTTL b' = ph_ProbeTTL b"
    by (rule adjacent_steps)
  let ?f = "firsts (case_prod (link_key k)) {} (steps (flow_path (ties k) p k))"
  have "link_key k a' b' \<in> case_prod (link_key k) ` set ?f" using s(1) by (force simp: firsts_keys(1))
  then obtain c d where cd: "(c, d) \<in> set ?f" "link_key k a' b' = link_key k c d" by auto
  have adj': "adjacent p k a' b'" "adjacent p k c d"
    using s(1) cd(1) steps_adjacent firsts_keys(2) by (blast, fastforce)
  have "flow p k \<noteq> []" using adj by (auto simp: adjacent_def)
  then have "make_link k c d \<in> set (extractLinks ties ord p)" unfolding set_extractLinks using cd(1) by blast
  moreover have "link_ends (make_link k c d) = (ph_Addr a', ph_Addr b')"
    using link_ends_make [OF adj'(2)] link_key_inj [OF assms adj' cd(2)] by simp
  ultimately show "\<exists>a' b'. adjacent p k a' b' \<and> ph_ProbeTTL a' = ph_ProbeTTL a \<and> ph_ProbeTTL b' = ph_ProbeTTL b
      \<and> (\<exists>l \<in> set (extractLinks ties ord p). lk_ProbeID l = k \<and> link_ends l = (ph_Addr a', ph_Addr b'))"
    using adj'(1) s(2,3) by (metis make_link_flow)
next
  let ?gs = "map (\<lambda>(k, hs). (k, flow_path (ties k) p k)) (group_hops p)"
  have "map fst ?gs = map fst (group_hops p)" by auto
  then have "distinct (map fst (some_order ord ?gs))" using group_hops_distinct [of p] by (simp only: distinct_map_some_order)
  then show "distinct (map (\<lambda>l. (lk_ProbeID l, link_ends l)) (extractLinks ties ord p))"
    unfolding extractLinks_flows by (rule distinct_concat_flows) auto
qed

section \<open>The fingerprint does not depend on the order\<close>

lemma mset_map_filter: "mset (List.map_filter f xs) = image_mset (the \<circ> f) (filter_mset (\<lambda>x. f x \<noteq> None) (mset xs))"
  by (induction xs) (auto simp: List.map_filter_simps split: option.splits)

lemma fingerprint_mset: "mset links = mset links' \<Longrightarrow> link_fingerprint sha links = link_fingerprint sha links'"
proof -
  assume "mset links = mset links'"
  then have "sort (ip_pairs links) = sort (ip_pairs links')"
    by (intro properties_for_sort) (simp_all add: ip_pairs_def mset_map_filter)
  then show ?thesis by (simp add: link_fingerprint_def)
qed

text \<open>Groups of the same hops, whatever their order.\<close>

lemma mset_concat_map: "mset xs = mset ys \<Longrightarrow> mset (concat (map f xs)) = mset (concat (map f ys))"
proof -
  have "mset (concat (map f xs)) = sum_mset (image_mset (mset \<circ> f) (mset xs))" for xs
    by (induction xs) auto
  then show "mset xs = mset ys \<Longrightarrow> mset (concat (map f xs)) = mset (concat (map f ys))" by simp
qed

lemma flow_mset: "mset (all_hops p) = mset (all_hops q) \<Longrightarrow> mset (flow p k) = mset (flow q k)"
  by (simp add: flow_def)

definition one_hop_per_ttl :: "TraceDataTracePayload \<Rightarrow> bool" where
  "one_hop_per_ttl p \<longleftrightarrow> distinct (map (\<lambda>h. (ph_ProbeID h, ph_ProbeTTL h)) (all_hops p))"

lemma one_hop_flow: "one_hop_per_ttl p \<Longrightarrow> distinct (map ph_ProbeTTL (flow p k))"
  by (auto simp: one_hop_per_ttl_def flow_def distinct_map inj_on_def)

lemma flow_path_unique:
  assumes "one_hop_per_ttl p" "mset (all_hops p) = mset (all_hops q)"
  shows "flow_path c p k = flow_path c' q k"
proof -
  have "sort_slice c ph_ProbeTTL (flow p k) = sort_slice c' ph_ProbeTTL (flow q k)"
    by (rule sort_slice_unique [OF one_hop_flow [OF assms(1)] flow_mset [OF assms(2)]])
  then show ?thesis by (simp add: flow_path_def)
qed

lemma group_keys_mset:
  assumes "mset (all_hops p) = mset (all_hops q)"
  shows "mset (map fst (group_hops p)) = mset (map fst (group_hops q))"
proof -
  have keys: "set (map fst (group_hops p)) = {k. flow p k \<noteq> []}" for p
    using group_hops_flow [of _ _ p] by (force simp: image_iff)
  have "flow p k \<noteq> [] \<longleftrightarrow> flow q k \<noteq> []" for k using flow_mset [OF assms, of k] by (metis mset_zero_iff)
  then have "set (map fst (group_hops p)) = set (map fst (group_hops q))" by (simp only: keys)
  then show ?thesis using group_hops_distinct [of p] group_hops_distinct [of q] by (metis set_eq_iff_mset_eq_distinct)
qed

lemma extractLinks_mset:
  assumes "one_hop_per_ttl p" "mset (all_hops p) = mset (all_hops q)"
  shows "mset (extractLinks ties ord p) = mset (extractLinks ties' ord' q)"
proof -
  have eq: "map (\<lambda>(k, hs). (k, flow_path (ties k) p k)) gs = map (\<lambda>k. (k, flow_path [] p k)) (map fst gs)"
    if "one_hop_per_ttl p" for gs :: hop_groups and ties p
    using flow_path_unique [OF that HOL.refl] by (auto simp: case_prod_unfold)
  have q: "one_hop_per_ttl q"
    using assms mset_eq_imp_distinct_iff [of "map (\<lambda>h. (ph_ProbeID h, ph_ProbeTTL h)) (all_hops p)"
        "map (\<lambda>h. (ph_ProbeID h, ph_ProbeTTL h)) (all_hops q)"] by (simp add: one_hop_per_ttl_def)
  have links: "mset (extractLinks ties ord p) = mset (concat (map flow_links (map (\<lambda>k. (k, flow_path [] p k)) (map fst (group_hops p)))))"
    if "one_hop_per_ttl p" for ties ord p
    unfolding extractLinks_flows eq [OF that] by (rule mset_concat_map) simp
  have path: "flow_path [] p k = flow_path [] q k" for k by (rule flow_path_unique [OF assms])
  have "mset (map (\<lambda>k. (k, flow_path [] p k)) (map fst (group_hops p)))
      = mset (map (\<lambda>k. (k, flow_path [] q k)) (map fst (group_hops q)))"
    using group_keys_mset [OF assms(2)] by (simp only: mset_map path)
  then show ?thesis
    unfolding links [OF assms(1)] links [OF q] by (rule mset_concat_map)
qed

text \<open>
  The link fingerprint of a path depends on the path only. For a record with at most one hop per flow and TTL, the
  fingerprint is the same whatever the order in which scamper lists the hops, in which Go visits the flows, and in
  which the sort leaves its input.
\<close>

lemma link_fingerprint_order_independent:
  assumes "one_hop_per_ttl p" "mset (tt_Hops q) = mset (tt_Hops p)" "mset (tt_NoHops q) = mset (tt_NoHops p)"
  shows "link_fingerprint sha (extractLinks ties ord p) = link_fingerprint sha (extractLinks ties' ord' q)"
  by (rule fingerprint_mset, rule extractLinks_mset) (simp_all add: assms all_hops_def)

section \<open>An example\<close>

definition demo_hop :: "string \<Rightarrow> int \<Rightarrow> TraceHopData" where
  "demo_hop a n = trace_hop_zero\<lparr>th_Addr := a, th_ProbeTTL := n, th_ProbeID := 1\<rparr>"

definition demo_trace :: "TraceHopData list \<Rightarrow> TraceDataTracePayload" where
  "demo_trace hops = \<lparr>tt_Type = ''trace'', tt_Version = ''0.1'', tt_Userid = 0, tt_Method = ''icmp-paris'', tt_Src = ''10.0.0.9'',
     tt_Dst = ''10.0.0.3'', tt_IcmpSum = 0, tt_StopReason = ''COMPLETED'', tt_StopData = 0,
     tt_Start = \<lparr>ts_Sec = 0, ts_Usec = 0, ts_Ftime = []\<rparr>, tt_HopCount = 3, tt_Attempts = 1, tt_Hoplimit = 0, tt_Firsthop = 1,
     tt_Wait = 5, tt_WaitProbe = 0, tt_Tos = 0, tt_ProbeSize = 44, tt_ProbeCount = 3, tt_Flags = [], tt_Hops = hops,
     tt_NoHops = [trace_nohop_zero\<lparr>tn_ProbeTTL := 2, tn_ProbeID := 1\<rparr>]\<rparr>"

lemmas demo_trace_defs = demo_trace_def demo_hop_def all_hops_def parsed_hop_def parsed_nohop_def trace_hop_zero_def trace_nohop_zero_def

theorem links_are_adjacencies_witness:
  "let p = demo_trace [demo_hop ''10.0.0.1'' 1, demo_hop ''10.0.0.3'' 3] in
     hops_sane p \<and> (\<exists>l \<in> set (extractLinks (\<lambda>_. []) [] p). lk_ProbeID l = 1 \<and> link_ends l = (''10.0.0.1'', []))"
proof -
  let ?p = "demo_trace [demo_hop ''10.0.0.1'' 1, demo_hop ''10.0.0.3'' 3]"
  have sane: "hops_sane ?p" by (simp add: hops_sane_def demo_trace_defs in_s_def)
  have adj: "adjacent ?p 1 (parsed_hop (demo_hop ''10.0.0.1'' 1)) (parsed_nohop (trace_nohop_zero\<lparr>tn_ProbeTTL := 2, tn_ProbeID := 1\<rparr>))"
    by (simp add: adjacent_def flow_def demo_trace_defs)
  obtain a b where ab: "adjacent ?p 1 a b" "ph_ProbeTTL a = ph_ProbeTTL (parsed_hop (demo_hop ''10.0.0.1'' 1))"
    "ph_ProbeTTL b = ph_ProbeTTL (parsed_nohop (trace_nohop_zero\<lparr>tn_ProbeTTL := 2, tn_ProbeID := 1\<rparr>))"
    "\<exists>l \<in> set (extractLinks (\<lambda>_. []) [] ?p). lk_ProbeID l = 1 \<and> link_ends l = (ph_Addr a, ph_Addr b)"
    using links_are_adjacencies [OF sane, of "\<lambda>_. []" "[]", unfolded Let_def, THEN conjunct2, THEN conjunct1, rule_format, OF adj]
    by blast
  have "ph_Addr a = ''10.0.0.1''" "ph_Addr b = []"
    using ab(1-3) by (auto simp: adjacent_def flow_def demo_trace_defs)
  then show ?thesis using sane ab(4) by (simp add: Let_def)
qed

end
