(* ===== verification/Trace_Processor.thy ===== *)
theory Trace_Processor
  imports Trace_Links Probe_Stats Probe_Flush Nats_Base
begin

text \<open>
  The trace processor (\<^verbatim>\<open>services/trace-processor/processor.go\<close> and its \<^verbatim>\<open>db\<close> package): the
  handling of one fetched report and the transaction that stores a traceroute with its hops, links, origin
  networks and fingerprints. The tables carry the keys and references of the schema
  (\<^verbatim>\<open>db/init/03-trace.sql\<close>, \<^verbatim>\<open>05-as_details.sql\<close>). Parameters are PostgreSQL (\<open>db_env\<close>), the
  printing, parsing and storing of addresses (\<open>ip_lib\<close>), the lookup of origin networks
  (package \<^verbatim>\<open>go-cymru-asn\<close>), the digest, and the outcome of publications.
\<close>

section \<open>Addresses\<close>

text \<open>A \<^verbatim>\<open>netip.Addr\<close>: the zero value, an IPv4 address, or an IPv6 address with its zone. \<open>il_inet\<close> is the value
  an address has in an \<^verbatim>\<open>INET\<close> column, if any.\<close>

datatype Addr = NoAddr | Addr4 "32 word" | Addr6 "128 word" string

record ip_lib =
  il_ParseAddr :: "string \<Rightarrow> Addr option"
  il_String :: "Addr \<Rightarrow> string"
  il_inet :: "Addr \<Rightarrow> Addr option"

record asn_result =
  ar_IP :: string
  ar_ASN :: int
  ar_BGPPrefix :: string
  ar_ASName :: string
  ar_CountryCode :: string

section \<open>Rows and tables\<close>

record InsertTraceMeasurementParams =
  itm_SerialID :: string
  itm_AgentConfigID :: "uuid pgval"
  itm_Timestamp :: "time pgval"
  itm_Type :: string
  itm_Src :: Addr
  itm_Dst :: Addr
  itm_Method :: string
  itm_StopReason :: string
  itm_HopCount :: int
  itm_AsnPathHash :: string
  itm_LinkPathHash :: string
  itm_Raw :: "string option"

record InsertTraceHopParams =
  ith_Timestamp :: "time pgval"
  ith_MeasurementID :: "uuid pgval"
  ith_Ip :: "Addr option"
  ith_Ttl :: int
  ith_Rtt :: "int pgval"
  ith_IcmpType :: "int pgval"
  ith_IcmpCode :: "int pgval"
  ith_ReplyTtl :: "int pgval"
  ith_Asn :: "int pgval"
  ith_IsNoHop :: bool

record InsertTraceLinkParams =
  itl_Timestamp :: "time pgval"
  itl_MeasurementID :: "uuid pgval"
  itl_ProbeID :: int
  itl_SrcIp :: "Addr option"
  itl_DstIp :: "Addr option"
  itl_TtlGap :: int
  itl_DiffRtt :: "float64 pgval"
  itl_IsSrcRespond :: bool
  itl_IsDstRespond :: bool

record UpsertAsDetailsParams =
  uad_Ip :: Addr
  uad_Asn :: "int pgval"
  uad_BgpPrefix :: "string pgval"
  uad_Name :: "string pgval"
  uad_Cc :: "string pgval"

record trace_db =
  tdb_measurements :: "(uuid \<times> InsertTraceMeasurementParams) list"
  tdb_hops :: "InsertTraceHopParams list"
  tdb_links :: "InsertTraceLinkParams list"
  tdb_as_details :: "UpsertAsDetailsParams list"
  tdb_stmts :: nat

section \<open>Queries\<close>

definition texec :: "db_env \<Rightarrow> (nat \<Rightarrow> trace_db \<Rightarrow> (db_error + 'a) \<times> trace_db) \<Rightarrow> trace_db \<Rightarrow> (db_error + 'a) \<times> trace_db" where
  "texec env q d =
     (let n = tdb_stmts d; d' = d\<lparr>tdb_stmts := Suc n\<rparr> in
      case de_fault env n of
        FNone \<Rightarrow> q n d'
      | FFail \<Rightarrow> (Inl DbFail, d')
      | FLost \<Rightarrow> (Inl DbFail, snd (q n d')))"

definition GetASNForIPs :: "ip_lib \<Rightarrow> db_env \<Rightarrow> Addr list \<Rightarrow> trace_db \<Rightarrow> (db_error + (Addr \<times> int pgval) list) \<times> trace_db" where
  "GetASNForIPs L env ips = texec env (\<lambda>n d.
     (Inr (map (\<lambda>r. (uad_Ip r, uad_Asn r)) (filter (\<lambda>r. Some (uad_Ip r) \<in> set (map (il_inet L) ips)) (tdb_as_details d))), d))"

definition GetExistingIPs :: "ip_lib \<Rightarrow> db_env \<Rightarrow> Addr list \<Rightarrow> trace_db \<Rightarrow> (db_error + Addr list) \<times> trace_db" where
  "GetExistingIPs L env ips = texec env (\<lambda>n d.
     (Inr (map uad_Ip (filter (\<lambda>r. Some (uad_Ip r) \<in> set (map (il_inet L) ips)) (tdb_as_details d))), d))"

text \<open>A measurement refers to its device and, when it has one, to its agent configuration.\<close>

definition InsertTraceMeasurement ::
  "db_env \<Rightarrow> (string \<Rightarrow> bool) \<Rightarrow> (uuid \<Rightarrow> bool) \<Rightarrow> InsertTraceMeasurementParams \<Rightarrow> trace_db \<Rightarrow> (db_error + uuid) \<times> trace_db" where
  "InsertTraceMeasurement env devices agents arg = texec env (\<lambda>n d.
     let i = de_uuid env n in
     if \<not> devices (itm_SerialID arg) then (Inl ForeignKeyViolation, d)
     else if pg_Valid (itm_AgentConfigID arg) \<and> \<not> agents (pg_val (itm_AgentConfigID arg)) then (Inl ForeignKeyViolation, d)
     else if i \<in> fst ` set (tdb_measurements d) then (Inl UniqueViolation, d)
     else (Inr i, d\<lparr>tdb_measurements := tdb_measurements d @ [(i, arg)]\<rparr>))"

definition UpsertFingerprintHash :: "db_env \<Rightarrow> string \<Rightarrow> string \<Rightarrow> uuid pgval \<Rightarrow> trace_db \<Rightarrow> (db_error + unit) \<times> trace_db" where
  "UpsertFingerprintHash env asn link i = texec env (\<lambda>n d.
     if \<not> (pg_Valid i \<and> pg_val i \<in> fst ` set (tdb_measurements d)) then (Inl NoRows, d)
     else (Inr (), d\<lparr>tdb_measurements := map (\<lambda>(k, m). if k = pg_val i
        then (k, m\<lparr>itm_AsnPathHash := asn, itm_LinkPathHash := link\<rparr>) else (k, m)) (tdb_measurements d)\<rparr>))"

definition refers :: "trace_db \<Rightarrow> uuid pgval \<Rightarrow> bool" where
  "refers d i \<longleftrightarrow> pg_Valid i \<and> pg_val i \<in> fst ` set (tdb_measurements d)"

definition copied :: "'p list \<Rightarrow> 'p list" where
  "copied rows = copy_rows \<lparr>ci_rows = rows, ci_skippedFirstNextCall = False\<rparr>"

definition InsertTraceHop :: "db_env \<Rightarrow> InsertTraceHopParams list \<Rightarrow> trace_db \<Rightarrow> (db_error + nat) \<times> trace_db" where
  "InsertTraceHop env arg = texec env (\<lambda>n d. let rows = copied arg in
     if list_all (\<lambda>r. refers d (ith_MeasurementID r)) rows
     then (Inr (length rows), d\<lparr>tdb_hops := tdb_hops d @ rows\<rparr>) else (Inl ForeignKeyViolation, d))"

definition InsertTraceLink :: "db_env \<Rightarrow> InsertTraceLinkParams list \<Rightarrow> trace_db \<Rightarrow> (db_error + nat) \<times> trace_db" where
  "InsertTraceLink env arg = texec env (\<lambda>n d. let rows = copied arg in
     if list_all (\<lambda>r. refers d (itl_MeasurementID r)) rows
     then (Inr (length rows), d\<lparr>tdb_links := tdb_links d @ rows\<rparr>) else (Inl ForeignKeyViolation, d))"

text \<open>A plain copy in spite of its name: an address that is already there, or twice among the rows, is an error.\<close>

definition UpsertAsDetails :: "ip_lib \<Rightarrow> db_env \<Rightarrow> UpsertAsDetailsParams list \<Rightarrow> trace_db \<Rightarrow> (db_error + nat) \<times> trace_db" where
  "UpsertAsDetails L env arg = texec env (\<lambda>n d. case those (map (il_inet L \<circ> uad_Ip) (copied arg)) of
       None \<Rightarrow> (Inl DbFail, d)
     | Some ips \<Rightarrow>
         if distinct (map uad_Ip (tdb_as_details d) @ ips)
         then (Inr (length ips), d\<lparr>tdb_as_details := tdb_as_details d @ map2 (\<lambda>ip r. r\<lparr>uad_Ip := ip\<rparr>) ips (copied arg)\<rparr>)
         else (Inl UniqueViolation, d))"

section \<open>Transactions\<close>

text \<open>A step of the transaction: a value or an error, what it published, and the tables after it.\<close>

type_synonym 'a tx = "trace_db \<Rightarrow> 'a option \<times> published \<times> trace_db"

definition tx_bind :: "'a tx \<Rightarrow> ('a \<Rightarrow> 'b tx) \<Rightarrow> 'b tx" where
  "tx_bind m f d = (case m d of
       (None, out, d') \<Rightarrow> (None, out, d')
     | (Some a, out, d') \<Rightarrow> (case f a d' of (r, out', d'') \<Rightarrow> (r, out @ out', d'')))"

definition stmt :: "(trace_db \<Rightarrow> (db_error + 'a) \<times> trace_db) \<Rightarrow> 'a tx" where
  "stmt q d = (case q d of (Inl e, d') \<Rightarrow> (None, [], d') | (Inr a, d') \<Rightarrow> (Some a, [], d'))"

definition need :: "'a option \<Rightarrow> 'a tx" where
  "need x d = (x, [], d)"

section \<open>Origin networks\<close>

fun as_rows :: "ip_lib \<Rightarrow> asn_result list \<Rightarrow> UpsertAsDetailsParams list option" where
  "as_rows L [] = Some []"
| "as_rows L (r # rs) = (case il_ParseAddr L (ar_IP r) of
     None \<Rightarrow> None
   | Some ip \<Rightarrow>
       if ar_ASN r = 0 then as_rows L rs
       else map_option ((#) \<lparr>uad_Ip = ip, uad_Asn = Int4 (ar_ASN r),
         uad_BgpPrefix = \<lparr>pg_val = ar_BGPPrefix r, pg_Valid = (ar_BGPPrefix r \<noteq> ''NA'')\<rparr>,
         uad_Name = \<lparr>pg_val = ar_ASName r, pg_Valid = (ar_ASName r \<noteq> ''NA'')\<rparr>,
         uad_Cc = \<lparr>pg_val = ar_CountryCode r, pg_Valid = (ar_CountryCode r \<noteq> [])\<rparr>\<rparr>) (as_rows L rs))"

definition enrichMissingHops ::
  "ip_lib \<Rightarrow> db_env \<Rightarrow> (string list \<Rightarrow> asn_result list option) \<Rightarrow> Addr list \<Rightarrow> Addr list \<Rightarrow> nat tx" where
  "enrichMissingHops L env lookup allIPs existingIPs =
     (let missingIPs = map (il_String L) (filter (\<lambda>ip. ip \<notin> set existingIPs) allIPs) in
      tx_bind (need (lookup missingIPs)) (\<lambda>results.
      tx_bind (need (as_rows L results)) (\<lambda>asDetails.
      stmt (UpsertAsDetails L env asDetails))))"

definition getIPToASNMap :: "ip_lib \<Rightarrow> db_env \<Rightarrow> Addr list \<Rightarrow> (Addr \<Rightarrow> int pgval option) tx" where
  "getIPToASNMap L env ips = tx_bind (stmt (GetASNForIPs L env ips)) (\<lambda>rows.
     need (Some (fold (\<lambda>(ip, asn) m. m(ip \<mapsto> asn)) rows Map.empty)))"

section \<open>Hops, links and fingerprints\<close>

text \<open>The rows of the responding hops, without networks; \<open>None\<close> when an address does not parse.\<close>

definition hop_row :: "ip_lib \<Rightarrow> time \<Rightarrow> uuid \<Rightarrow> TraceHopData \<Rightarrow> InsertTraceHopParams option" where
  "hop_row L ts mid h =
     map_option (\<lambda>ip. \<lparr>ith_Timestamp = \<lparr>pg_val = ts, pg_Valid = True\<rparr>,
       ith_MeasurementID = \<lparr>pg_val = mid, pg_Valid = True\<rparr>, ith_Ip = Some ip, ith_Ttl = int32 (th_ProbeTTL h),
       ith_Rtt = Int8 (f_to_i64 (f_mul (th_Rtt h) (f_of_int millisecond))), ith_IcmpType = Int4 (th_IcmpType h),
       ith_IcmpCode = Int4 (th_IcmpCode h), ith_ReplyTtl = Int4 (th_ReplyTTL h), ith_Asn = Int4 0, ith_IsNoHop = False\<rparr>)
     (if th_Addr h = [] then Some NoAddr else il_ParseAddr L (th_Addr h))"

definition pg_null :: "'a \<Rightarrow> 'a pgval" where
  "pg_null z = \<lparr>pg_val = z, pg_Valid = False\<rparr>"

definition nohop_row :: "time \<Rightarrow> uuid \<Rightarrow> TraceNoHopData \<Rightarrow> InsertTraceHopParams" where
  "nohop_row ts mid h = \<lparr>ith_Timestamp = \<lparr>pg_val = ts, pg_Valid = True\<rparr>,
     ith_MeasurementID = \<lparr>pg_val = mid, pg_Valid = True\<rparr>, ith_Ip = None, ith_Ttl = int32 (tn_ProbeTTL h),
     ith_Rtt = pg_null 0, ith_IcmpType = pg_null 0, ith_IcmpCode = pg_null 0, ith_ReplyTtl = pg_null 0, ith_Asn = pg_null 0,
     ith_IsNoHop = True\<rparr>"

text \<open>The networks of the hops and the sequence of networks without repetitions; every hop here has an address.\<close>

fun asn_loop :: "(Addr \<Rightarrow> int pgval option) \<Rightarrow> InsertTraceHopParams list \<Rightarrow> int list \<Rightarrow> InsertTraceHopParams list \<times> int list" where
  "asn_loop m [] unique = ([], unique)"
| "asn_loop m (h # hs) unique = (case m (the (ith_Ip h)) of
     None \<Rightarrow> (case asn_loop m hs unique of (hs', u) \<Rightarrow> (h\<lparr>ith_Asn := pg_null 0\<rparr> # hs', u))
   | Some asn \<Rightarrow>
       let unique' = (if unique = [] \<or> pg_val asn \<noteq> last unique
                      then (if pg_val asn \<noteq> 0 then unique @ [pg_val asn] else unique) else unique)
       in (case asn_loop m hs unique' of (hs', u) \<Rightarrow> (h\<lparr>ith_Asn := asn\<rparr> # hs', u)))"

definition asn_fingerprint :: "(string \<Rightarrow> 8 word list) \<Rightarrow> int list \<Rightarrow> string" where
  "asn_fingerprint sha unique = hex_encode (take 8 (sha (concat (map (\<lambda>asn. '':AS'' @ itoa asn) unique))))"

definition end_ip :: "ip_lib \<Rightarrow> string option \<Rightarrow> Addr option option" where
  "end_ip L a = (case a of None \<Rightarrow> Some None | Some s \<Rightarrow> map_option Some (il_ParseAddr L s))"

definition link_row :: "ip_lib \<Rightarrow> time \<Rightarrow> uuid \<Rightarrow> TraceLink \<Rightarrow> InsertTraceLinkParams option" where
  "link_row L ts mid l = (case (end_ip L (lk_SrcIP l), end_ip L (lk_DstIP l)) of
       (Some src, Some dst) \<Rightarrow> Some \<lparr>itl_Timestamp = \<lparr>pg_val = ts, pg_Valid = True\<rparr>,
         itl_MeasurementID = \<lparr>pg_val = mid, pg_Valid = True\<rparr>, itl_ProbeID = int32 (lk_ProbeID l),
         itl_SrcIp = src, itl_DstIp = dst, itl_TtlGap = int32 (lk_TTLGap l),
         itl_DiffRtt = \<lparr>pg_val = case_option (Fin 0) id (lk_DiffRTT l), pg_Valid = (lk_DiffRTT l \<noteq> None)\<rparr>,
         itl_IsSrcRespond = lk_IsSrcRespond l, itl_IsDstRespond = lk_IsDstRespond l\<rparr>
     | _ \<Rightarrow> None)"

section \<open>Publishing\<close>

definition trace_publishMeasurement ::
  "pub_result \<Rightarrow> string \<Rightarrow> string \<Rightarrow> string \<Rightarrow> time \<Rightarrow> TraceMetrics \<Rightarrow> bool \<times> published" where
  "trace_publishMeasurement pr serialId target src timestamp metrics =
     (case TraceMetrics_enc metrics of
        None \<Rightarrow> (False, [])
      | Some metricsData \<Rightarrow>
          (case MeasurementEvent_enc \<lparr>me_Type = ProbeTypeTrace, me_SerialID = serialId, me_Target = target, me_Port = 0,
              me_Src = src, me_Timestamp = timestamp, me_Metrics = Some metricsData\<rparr> of
             None \<Rightarrow> (False, [])
           | Some eventData \<Rightarrow> publish pr (''cepheus.measurement.trace.'' @ serialId) eventData))"

definition published_step :: "bool \<times> published \<Rightarrow> unit tx" where
  "published_step r d = (if fst r then Some () else None, snd r, d)"

section \<open>One traceroute\<close>

record trace_env =
  te_ip :: ip_lib
  te_db :: db_env
  te_devices :: "string \<Rightarrow> bool"
  te_agents :: "uuid \<Rightarrow> bool"
  te_lookup :: "string list \<Rightarrow> asn_result list option"
  te_sha :: "string \<Rightarrow> 8 word list"
  te_pub :: pub_result
  te_ties :: "int \<Rightarrow> choice"
  te_ord :: choice

text \<open>The second half of the transaction: networks, fingerprints, the published measurement, hops and links.\<close>

definition trace_finish ::
  "trace_env \<Rightarrow> TraceDataTracePayload \<Rightarrow> time \<Rightarrow> string \<Rightarrow> Addr \<Rightarrow> Addr \<Rightarrow> uuid \<Rightarrow> InsertTraceHopParams list \<Rightarrow>
   (Addr \<Rightarrow> int pgval option) \<Rightarrow> nat tx" where
  "trace_finish E tr ts serialId srcIp dstIp mid rows asnMap =
    (let (traceHops, uniqueASNs) = asn_loop asnMap rows [];
         links = extractLinks (te_ties E) (te_ord E) tr;
         asnPathHash = asn_fingerprint (te_sha E) uniqueASNs;
         linkPathHash = link_fingerprint (te_sha E) links
     in
     tx_bind (published_step (trace_publishMeasurement (te_pub E) serialId (il_String (te_ip E) dstIp)
         (il_String (te_ip E) srcIp) ts \<lparr>tm_AsnPathHash = asnPathHash, tm_LinkPathHash = linkPathHash\<rparr>)) (\<lambda>_.
     tx_bind (stmt (UpsertFingerprintHash (te_db E) asnPathHash linkPathHash \<lparr>pg_val = mid, pg_Valid = True\<rparr>)) (\<lambda>_.
     tx_bind (stmt (InsertTraceHop (te_db E) (traceHops @ map (nohop_row ts mid) (tt_NoHops tr)))) (\<lambda>_.
     tx_bind (need (those (map (link_row (te_ip E) ts mid) links))) (\<lambda>dbLinks.
     stmt (InsertTraceLink (te_db E) dbLinks))))))"

definition measurement_row ::
  "TraceData \<Rightarrow> TraceDataTracePayload \<Rightarrow> time \<Rightarrow> string \<Rightarrow> uuid pgval \<Rightarrow> Addr \<Rightarrow> Addr \<Rightarrow> InsertTraceMeasurementParams" where
  "measurement_row traceData tr ts serialId cfg srcIp dstIp =
         \<lparr>itm_SerialID = serialId, itm_AgentConfigID = cfg, itm_Timestamp = \<lparr>pg_val = ts, pg_Valid = True\<rparr>,
          itm_Type = td_Type traceData, itm_Src = srcIp, itm_Dst = dstIp, itm_Method = td_Method traceData,
          itm_StopReason = tt_StopReason tr, itm_HopCount = int32 (tt_HopCount tr), itm_AsnPathHash = [],
          itm_LinkPathHash = [], itm_Raw = td_Data traceData\<rparr>"

text \<open>The body of the transaction, for a decoded record \<open>tr\<close> and its parsed ends.\<close>

definition trace_tx ::
  "trace_env \<Rightarrow> TraceData \<Rightarrow> TraceDataTracePayload \<Rightarrow> time \<Rightarrow> string \<Rightarrow> string \<Rightarrow> Addr \<Rightarrow> Addr \<Rightarrow> nat tx" where
  "trace_tx E traceData tr ts serialId agentConfigId srcIp dstIp =
     tx_bind (need (UUID (te_db E) agentConfigId)) (\<lambda>cfg.
     tx_bind (stmt (InsertTraceMeasurement (te_db E) (te_devices E) (te_agents E)
         (measurement_row traceData tr ts serialId cfg srcIp dstIp))) (\<lambda>mid.
     tx_bind (need (those (map (hop_row (te_ip E) ts mid) (tt_Hops tr)))) (\<lambda>rows.
     let hopIPs = map (\<lambda>r. the (ith_Ip r)) rows in
     tx_bind (stmt (GetExistingIPs (te_ip E) (te_db E) hopIPs)) (\<lambda>existingIPs.
     tx_bind (enrichMissingHops (te_ip E) (te_db E) (te_lookup E) hopIPs existingIPs) (\<lambda>_.
     tx_bind (getIPToASNMap (te_ip E) (te_db E) hopIPs) (\<lambda>asnMap.
     trace_finish E tr ts serialId srcIp dstIp mid rows asnMap))))))"

text \<open>The whole processing of a traceroute: whether it succeeded, what was published, and the tables.\<close>

definition processNormalTrace ::
  "text_lib \<Rightarrow> trace_env \<Rightarrow> TraceData \<Rightarrow> time \<Rightarrow> string \<Rightarrow> string \<Rightarrow> trace_db \<Rightarrow> bool \<times> published \<times> trace_db" where
  "processNormalTrace T E traceData ts serialId agentConfigId d =
     (case d_message TraceDataTracePayload_dec (Option.bind (td_Data traceData) (tl_parse T)) of
        None \<Rightarrow> (False, [], d)
      | Some tr \<Rightarrow>
          (case (il_ParseAddr (te_ip E) (tt_Src tr), il_ParseAddr (te_ip E) (tt_Dst tr)) of
             (Some srcIp, Some dstIp) \<Rightarrow>
               let d0 = d\<lparr>tdb_stmts := Suc (tdb_stmts d)\<rparr> in
               (case de_begin (te_db E) (tdb_stmts d) of
                  TxErr _ \<Rightarrow> (False, [], d0)
                | TxOk \<Rightarrow> (case trace_tx E traceData tr ts serialId agentConfigId srcIp dstIp d0 of
                    (None, out, d1) \<Rightarrow> (False, out, d0\<lparr>tdb_stmts := Suc (tdb_stmts d1)\<rparr>)
                  | (Some _, out, d1) \<Rightarrow> (case de_fault (te_db E) (tdb_stmts d1) of
                      FNone \<Rightarrow> (True, out, d1\<lparr>tdb_stmts := Suc (tdb_stmts d1)\<rparr>)
                    | FFail \<Rightarrow> (False, out, d0\<lparr>tdb_stmts := Suc (tdb_stmts d1)\<rparr>)
                    | FLost \<Rightarrow> (False, out, d1\<lparr>tdb_stmts := Suc (tdb_stmts d1)\<rparr>))))
           | _ \<Rightarrow> (False, [], d)))"

section \<open>One fetched message\<close>

definition trace_handle :: "text_lib \<Rightarrow> trace_env \<Rightarrow> nat \<Rightarrow> json option \<Rightarrow> trace_db \<Rightarrow> settle \<times> published \<times> trace_db" where
  "trace_handle T E msg data d =
     (case d_message ReportPayload_dec data of
        None \<Rightarrow> (Nakked msg, [], d)
      | Some payload \<Rightarrow>
          if pr_ProbeType (re_Payload payload) \<noteq> ProbeTypeTrace then (Nakked msg, [], d)
          else (case d_message (TraceData_dec T) (pr_Data (re_Payload payload)) of
            None \<Rightarrow> (Nakked msg, [], d)
          | Some traceData \<Rightarrow>
              if td_Format traceData \<noteq> ''json'' then (Nakked msg, [], d)
              else if td_Type traceData = TraceProbeTypeTrace then
                (case processNormalTrace T E traceData (pr_Timestamp (re_Payload payload)) (re_SerialID payload)
                    (re_AgentConfigId payload) d of
                   (ok, out, d') \<Rightarrow> (if ok then Acked msg else Nakked msg, out, d'))
              else if td_Type traceData = TraceProbeTypeTraceLb then (Acked msg, [], d)
              else (Nakked msg, [], d)))"

definition trace_GetConfig :: "(string \<Rightarrow> string) \<Rightarrow> (string, ProcessorConfig) outcome" where
  "trace_GetConfig = processor_config"

definition trace_Start :: "nats_env \<Rightarrow> ProcessorConfig \<Rightarrow> StreamConfig list \<times> (string, ConsumerConfig) outcome" where
  "trace_Start env cfg = start_processor env cfg
     \<lparr>st_Name = ''PROBE_TRACE'', st_Description = ''Stream for TRACE probe data'',
      st_Subjects = [''cepheus.probe.trace.>''], st_MaxAge = 0\<rparr> ''probe-trace-processor''"

section \<open>Steps that succeed\<close>

named_theorems tx_ok "what a successful step of a transaction implies"

lemma tx_bind_Some [tx_ok]:
  "tx_bind m f d = (Some b, out, d2) \<longleftrightarrow>
   (\<exists>a out1 d1 out2. m d = (Some a, out1, d1) \<and> f a d1 = (Some b, out2, d2) \<and> out = out1 @ out2)"
  by (auto simp: tx_bind_def split: prod.splits option.splits)

lemma stmt_Some [tx_ok]: "stmt q d = (Some a, out, d') \<longleftrightarrow> q d = (Inr a, d') \<and> out = []"
  by (auto simp: stmt_def split: prod.splits sum.splits)

lemma need_Some [tx_ok]: "need x d = (Some a, out, d') \<longleftrightarrow> x = Some a \<and> out = [] \<and> d' = d"
  by (auto simp: need_def)

lemma published_step_Some [tx_ok]: "published_step r d = (Some a, out, d') \<longleftrightarrow> r = (True, out) \<and> d' = d"
  by (cases r) (auto simp: published_step_def)

lemma texec_Inr: "texec env q d = (Inr a, d') \<Longrightarrow> q (tdb_stmts d) (d\<lparr>tdb_stmts := Suc (tdb_stmts d)\<rparr>) = (Inr a, d')"
  by (auto simp: texec_def Let_def split: fault.splits)

lemma copied_id [simp]: "copied rows = rows"
  by (simp add: copied_def copy_rows_all)

text \<open>The tables, without the count of statements.\<close>

definition same_trace_tables :: "trace_db \<Rightarrow> trace_db \<Rightarrow> bool" where
  "same_trace_tables d d' \<longleftrightarrow> tdb_measurements d' = tdb_measurements d \<and> tdb_hops d' = tdb_hops d
     \<and> tdb_links d' = tdb_links d \<and> tdb_as_details d' = tdb_as_details d"

lemma same_trace_tables_refl [simp]: "same_trace_tables d d" "same_trace_tables d (d\<lparr>tdb_stmts := n\<rparr>)"
  by (simp_all add: same_trace_tables_def)

lemma GetASNForIPs_ok: "GetASNForIPs L env ips d = (Inr a, d') \<Longrightarrow> same_trace_tables d d'"
  unfolding GetASNForIPs_def by (drule texec_Inr) auto

lemma GetExistingIPs_ok: "GetExistingIPs L env ips d = (Inr a, d') \<Longrightarrow> same_trace_tables d d'"
  unfolding GetExistingIPs_def by (drule texec_Inr) auto

lemma InsertTraceMeasurement_ok:
  "InsertTraceMeasurement env devices agents arg d = (Inr i, d') \<Longrightarrow>
   i \<notin> fst ` set (tdb_measurements d) \<and> tdb_measurements d' = tdb_measurements d @ [(i, arg)]
   \<and> tdb_hops d' = tdb_hops d \<and> tdb_links d' = tdb_links d \<and> tdb_as_details d' = tdb_as_details d
   \<and> devices (itm_SerialID arg)"
  unfolding InsertTraceMeasurement_def by (drule texec_Inr) (auto simp: Let_def split: if_splits)

lemma UpsertFingerprintHash_ok:
  "UpsertFingerprintHash env asn link i d = (Inr u, d') \<Longrightarrow>
   tdb_measurements d' = map (\<lambda>(k, m). if k = pg_val i
     then (k, m\<lparr>itm_AsnPathHash := asn, itm_LinkPathHash := link\<rparr>) else (k, m)) (tdb_measurements d)
   \<and> tdb_hops d' = tdb_hops d \<and> tdb_links d' = tdb_links d \<and> tdb_as_details d' = tdb_as_details d"
  unfolding UpsertFingerprintHash_def by (drule texec_Inr) (auto split: if_splits)

lemma InsertTraceHop_ok:
  "InsertTraceHop env rows d = (Inr n, d') \<Longrightarrow>
   tdb_hops d' = tdb_hops d @ rows \<and> list_all (\<lambda>r. refers d (ith_MeasurementID r)) rows
   \<and> tdb_measurements d' = tdb_measurements d \<and> tdb_links d' = tdb_links d \<and> tdb_as_details d' = tdb_as_details d"
  unfolding InsertTraceHop_def by (drule texec_Inr) (auto simp: Let_def refers_def split: if_splits)

lemma InsertTraceLink_ok:
  "InsertTraceLink env rows d = (Inr n, d') \<Longrightarrow>
   tdb_links d' = tdb_links d @ rows \<and> list_all (\<lambda>r. refers d (itl_MeasurementID r)) rows
   \<and> tdb_measurements d' = tdb_measurements d \<and> tdb_hops d' = tdb_hops d \<and> tdb_as_details d' = tdb_as_details d"
  unfolding InsertTraceLink_def by (drule texec_Inr) (auto simp: Let_def refers_def split: if_splits)

lemma UpsertAsDetails_ok:
  "UpsertAsDetails L env rows d = (Inr n, d') \<Longrightarrow>
   (\<exists>rows'. tdb_as_details d' = tdb_as_details d @ rows' \<and> distinct (map uad_Ip (tdb_as_details d')))
   \<and> tdb_measurements d' = tdb_measurements d \<and> tdb_hops d' = tdb_hops d \<and> tdb_links d' = tdb_links d"
proof -
  assume u: "UpsertAsDetails L env rows d = (Inr n, d')"
  then obtain ips where ips: "those (map (il_inet L \<circ> uad_Ip) rows) = Some ips"
    unfolding UpsertAsDetails_def by (drule_tac texec_Inr) (auto split: option.splits if_splits)
  have "map uad_Ip (map2 (\<lambda>ip r. r\<lparr>uad_Ip := ip\<rparr>) ips rows) = ips"
    using those_length [OF ips] by (auto simp: list_eq_iff_nth_eq)
  then show ?thesis using u ips unfolding UpsertAsDetails_def
    by (drule_tac texec_Inr) (auto split: if_splits)
qed

section \<open>A transaction that succeeds\<close>

lemma enrich_ok:
  "enrichMissingHops L env lookup ips existing d = (Some n, out, d') \<Longrightarrow> out = []
   \<and> (\<exists>rows. tdb_as_details d' = tdb_as_details d @ rows \<and> distinct (map uad_Ip (tdb_as_details d')))
   \<and> tdb_measurements d' = tdb_measurements d \<and> tdb_hops d' = tdb_hops d \<and> tdb_links d' = tdb_links d"
  by (auto simp: enrichMissingHops_def Let_def tx_ok dest!: UpsertAsDetails_ok)

lemma asn_map_ok: "getIPToASNMap L env ips d = (Some m, out, d') \<Longrightarrow> out = [] \<and> same_trace_tables d d'"
  by (auto simp: getIPToASNMap_def tx_ok dest!: GetASNForIPs_ok)

lemma asn_loop_rows: "asn_loop m hs u = (hs', u') \<Longrightarrow> length hs' = length hs \<and> map ith_MeasurementID hs' = map ith_MeasurementID hs"
  by (induction hs arbitrary: u hs' u') (auto simp: Let_def split: option.splits prod.splits if_splits)

lemma those_map_all: "those (map f xs) = Some ys \<Longrightarrow> (\<And>x y. f x = Some y \<Longrightarrow> P y) \<Longrightarrow> list_all P ys"
  by (induction xs arbitrary: ys) (auto split: option.splits)

definition refers_to :: "uuid \<Rightarrow> uuid pgval \<Rightarrow> bool" where
  "refers_to mid i \<longleftrightarrow> i = \<lparr>pg_val = mid, pg_Valid = True\<rparr>"

lemma hop_rows_refer: "those (map (hop_row L ts mid) hs) = Some rows \<Longrightarrow> list_all (\<lambda>r. refers_to mid (ith_MeasurementID r)) rows"
  by (rule those_map_all) (auto simp: hop_row_def refers_to_def)

lemma link_rows_refer: "those (map (link_row L ts mid) ls) = Some rows \<Longrightarrow> list_all (\<lambda>r. refers_to mid (itl_MeasurementID r)) rows"
  by (rule those_map_all) (auto simp: link_row_def refers_to_def split: option.splits)

text \<open>What is stored for a traceroute: one measurement, its hops and its links.\<close>

definition stores_trace :: "trace_db \<Rightarrow> trace_db \<Rightarrow> uuid \<Rightarrow> InsertTraceMeasurementParams \<Rightarrow>
    InsertTraceHopParams list \<Rightarrow> InsertTraceLinkParams list \<Rightarrow> bool" where
  "stores_trace d d' mid m hops links \<longleftrightarrow> mid \<notin> fst ` set (tdb_measurements d)
     \<and> tdb_measurements d' = tdb_measurements d @ [(mid, m)] \<and> tdb_hops d' = tdb_hops d @ hops
     \<and> tdb_links d' = tdb_links d @ links
     \<and> (\<exists>rows. tdb_as_details d' = tdb_as_details d @ rows) \<and> distinct (map uad_Ip (tdb_as_details d'))
     \<and> list_all (\<lambda>r. refers_to mid (ith_MeasurementID r)) hops \<and> list_all (\<lambda>r. refers_to mid (itl_MeasurementID r)) links"

lemma map_update_last:
  assumes "i \<notin> fst ` set xs"
  shows "map (\<lambda>(k, m). if k = i then (k, f m) else (k, m)) (xs @ [(i, a)]) = xs @ [(i, f a)]"
  using assms by (induction xs) auto

lemma trace_finish_ok:
  assumes "trace_finish E tr ts sid src dst mid rows asnMap d = (Some u, out, d')"
  obtains hops links asn where
    "trace_publishMeasurement (te_pub E) sid (il_String (te_ip E) dst) (il_String (te_ip E) src) ts \<lparr>tm_AsnPathHash = asn,
       tm_LinkPathHash = link_fingerprint (te_sha E) (extractLinks (te_ties E) (te_ord E) tr)\<rparr> = (True, out)"
    "tdb_measurements d' = map (\<lambda>(k, m). if k = mid then (k, m\<lparr>itm_AsnPathHash := asn,
       itm_LinkPathHash := link_fingerprint (te_sha E) (extractLinks (te_ties E) (te_ord E) tr)\<rparr>) else (k, m)) (tdb_measurements d)"
    "tdb_hops d' = tdb_hops d @ hops" "tdb_links d' = tdb_links d @ links" "tdb_as_details d' = tdb_as_details d"
    "length hops = length rows + length (tt_NoHops tr)" "length links = length (extractLinks (te_ties E) (te_ord E) tr)"
    "list_all (\<lambda>r. refers_to mid (ith_MeasurementID r)) rows \<Longrightarrow> list_all (\<lambda>r. refers_to mid (ith_MeasurementID r)) hops"
    "list_all (\<lambda>r. refers_to mid (itl_MeasurementID r)) links"
proof -
  let ?ls = "extractLinks (te_ties E) (te_ord E) tr"
  let ?lh = "link_fingerprint (te_sha E) ?ls"
  obtain hops us where loop: "asn_loop asnMap rows [] = (hops, us)" by (cases "asn_loop asnMap rows []")
  let ?ah = "asn_fingerprint (te_sha E) us"
  let ?hops = "hops @ map (nohop_row ts mid) (tt_NoHops tr)"
  obtain u1 d1 k2 d2 links where
    pub: "trace_publishMeasurement (te_pub E) sid (il_String (te_ip E) dst) (il_String (te_ip E) src) ts
      \<lparr>tm_AsnPathHash = ?ah, tm_LinkPathHash = ?lh\<rparr> = (True, out)"
    and d1: "UpsertFingerprintHash (te_db E) ?ah ?lh \<lparr>pg_val = mid, pg_Valid = True\<rparr> d = (Inr u1, d1)"
    and d2: "InsertTraceHop (te_db E) ?hops d1 = (Inr k2, d2)"
    and ls: "those (map (link_row (te_ip E) ts mid) ?ls) = Some links"
    and d3: "InsertTraceLink (te_db E) links d2 = (Inr u, d')"
    using assms by (auto simp: trace_finish_def Let_def loop tx_ok)
  have l: "length links = length ?ls" using those_length [OF ls] by simp
  have h: "length ?hops = length rows + length (tt_NoHops tr)" using asn_loop_rows [OF loop] by simp
  have refs: "list_all (\<lambda>r. refers_to mid (ith_MeasurementID r)) ?hops" if "list_all (\<lambda>r. refers_to mid (ith_MeasurementID r)) rows"
  proof -
    have "set (map ith_MeasurementID hops) = set (map ith_MeasurementID rows)" using asn_loop_rows [OF loop] by simp
    then have "ith_MeasurementID ` set hops \<subseteq> Collect (refers_to mid)" using that by (auto simp: list_all_iff)
    then show ?thesis by (auto simp: nohop_row_def refers_to_def list_all_iff)
  qed
  show ?thesis
    using that [OF pub, of ?hops links] UpsertFingerprintHash_ok [OF d1] InsertTraceHop_ok [OF d2] InsertTraceLink_ok [OF d3]
      l h refs link_rows_refer [OF ls] by simp
qed

lemma trace_tx_ok:
  assumes "trace_tx E td tr ts sid cid src dst d = (Some u, out, d')"
  obtains mid m hops links where "stores_trace d d' mid m hops links"
    "length hops = length (tt_Hops tr) + length (tt_NoHops tr)"
    "length links = length (extractLinks (te_ties E) (te_ord E) tr)"
    "itm_SerialID m = sid" "itm_Timestamp m = \<lparr>pg_val = ts, pg_Valid = True\<rparr>" "itm_Src m = src" "itm_Dst m = dst" "itm_Raw m = td_Data td"
    "itm_LinkPathHash m = link_fingerprint (te_sha E) (extractLinks (te_ties E) (te_ord E) tr)"
    "trace_publishMeasurement (te_pub E) sid (il_String (te_ip E) dst) (il_String (te_ip E) src) ts
       \<lparr>tm_AsnPathHash = itm_AsnPathHash m, tm_LinkPathHash = itm_LinkPathHash m\<rparr> = (True, out)"
proof -
  let ?ips = "map (\<lambda>r. the (ith_Ip r))"
  obtain cfg mid d1 rows ex d2 n o3 d3 asnMap o4 d4 o5 where
    d1: "InsertTraceMeasurement (te_db E) (te_devices E) (te_agents E) (measurement_row td tr ts sid cfg src dst) d = (Inr mid, d1)"
    and rows: "those (map (hop_row (te_ip E) ts mid) (tt_Hops tr)) = Some rows"
    and d2: "GetExistingIPs (te_ip E) (te_db E) (?ips rows) d1 = (Inr ex, d2)"
    and d3: "enrichMissingHops (te_ip E) (te_db E) (te_lookup E) (?ips rows) ex d2 = (Some n, o3, d3)"
    and d4: "getIPToASNMap (te_ip E) (te_db E) (?ips rows) d3 = (Some asnMap, o4, d4)"
    and d5: "trace_finish E tr ts sid src dst mid rows asnMap d4 = (Some u, o5, d')"
    and out: "out = o3 @ o4 @ o5"
    using assms unfolding trace_tx_def Let_def tx_bind_Some stmt_Some need_Some by auto
  have "o3 = []" "o4 = []" using enrich_ok [OF d3] asn_map_ok [OF d4] by auto
  then have o5: "o5 = out" using out by simp
  note facts = InsertTraceMeasurement_ok [OF d1] GetExistingIPs_ok [OF d2] enrich_ok [OF d3] asn_map_ok [OF d4]
  have n: "length rows = length (tt_Hops tr)" using those_length [OF rows] by simp
  from d5 show ?thesis
  proof (rule trace_finish_ok)
    fix hops links asn
    let ?m = "(measurement_row td tr ts sid cfg src dst)\<lparr>itm_AsnPathHash := asn,
       itm_LinkPathHash := link_fingerprint (te_sha E) (extractLinks (te_ties E) (te_ord E) tr)\<rparr>"
    assume f: "trace_publishMeasurement (te_pub E) sid (il_String (te_ip E) dst) (il_String (te_ip E) src) ts \<lparr>tm_AsnPathHash = asn,
       tm_LinkPathHash = link_fingerprint (te_sha E) (extractLinks (te_ties E) (te_ord E) tr)\<rparr> = (True, o5)"
      "tdb_measurements d' = map (\<lambda>(k, m). if k = mid then (k, m\<lparr>itm_AsnPathHash := asn,
         itm_LinkPathHash := link_fingerprint (te_sha E) (extractLinks (te_ties E) (te_ord E) tr)\<rparr>) else (k, m)) (tdb_measurements d4)"
      "tdb_hops d' = tdb_hops d4 @ hops" "tdb_links d' = tdb_links d4 @ links" "tdb_as_details d' = tdb_as_details d4"
      "length hops = length rows + length (tt_NoHops tr)" "length links = length (extractLinks (te_ties E) (te_ord E) tr)"
      "list_all (\<lambda>r. refers_to mid (ith_MeasurementID r)) rows \<Longrightarrow> list_all (\<lambda>r. refers_to mid (ith_MeasurementID r)) hops"
      "list_all (\<lambda>r. refers_to mid (itl_MeasurementID r)) links"
    have "tdb_measurements d4 = tdb_measurements d @ [(mid, measurement_row td tr ts sid cfg src dst)]"
      "mid \<notin> fst ` set (tdb_measurements d)" using facts by (auto simp: same_trace_tables_def)
    then have "tdb_measurements d' = tdb_measurements d @ [(mid, ?m)]"
      using f(2) map_update_last [of mid "tdb_measurements d"] by simp
    then have "stores_trace d d' mid ?m hops links"
      using facts f(3-5,8,9) hop_rows_refer [OF rows] by (auto simp: stores_trace_def same_trace_tables_def)
    then show ?thesis
      by (rule that) (use f(1,6,7) n o5 in \<open>simp_all add: measurement_row_def\<close>)
  qed
qed

section \<open>All or nothing\<close>

text \<open>The report and the wrapped data of a message.\<close>

definition decoded_trace :: "text_lib \<Rightarrow> json option \<Rightarrow> (ReportPayload \<times> TraceData) option" where
  "decoded_trace T data = Option.bind (d_message ReportPayload_dec data) (\<lambda>payload.
     map_option (Pair payload) (d_message (TraceData_dec T) (pr_Data (re_Payload payload))))"

lemma trace_event_decodes:
  assumes "trace_publishMeasurement pr sid target src ts metrics = (True, out)" "pub_sound pr"
  shows "\<exists>event. (''cepheus.measurement.trace.'' @ sid, event) \<in> set out
    \<and> (\<exists>e. MeasurementEvent_dec event = Some e \<and> me_Type e = ProbeTypeTrace \<and> me_SerialID e = sid \<and> me_Target e = target
      \<and> me_Src e = src \<and> me_Port e = 0 \<and> me_Timestamp e = ts \<and> d_message TraceMetrics_dec (me_Metrics e) = Some metrics)"
proof -
  obtain data where data: "TraceMetrics_enc metrics = Some data" using TraceMetrics_codec.enc_total [of metrics] by auto
  let ?e = "\<lparr>me_Type = ProbeTypeTrace, me_SerialID = sid, me_Target = target, me_Port = 0, me_Src = src,
      me_Timestamp = ts, me_Metrics = Some data\<rparr>"
  obtain event where event: "MeasurementEvent_enc ?e = Some event" and p: "po_ok pr"
      "out = replicate (po_copies pr) (''cepheus.measurement.trace.'' @ sid, event)"
    using assms(1) by (auto simp: trace_publishMeasurement_def data publish_def split: option.splits)
  have "MeasurementEvent_ok ?e"
    using event by (auto simp: MeasurementEvent_ok_def MeasurementEvent_enc_def j_object_def j_time_def in_s_def split: if_splits)
  then have "MeasurementEvent_dec event = Some ?e" using event by (rule MeasurementEvent_codec.dec_enc)
  moreover have "TraceMetrics_dec data = Some metrics" using data TraceMetrics_codec.dec_enc by simp
  moreover have "(''cepheus.measurement.trace.'' @ sid, event) \<in> set out" using p assms(2) by (simp add: pub_sound_def)
  ultimately show ?thesis by (intro exI [of _ event]) (simp add: d_message_def)
qed

lemma processNormalTrace_cases:
  assumes "processNormalTrace T E td ts sid cid d = (ok, out, d')"
  obtains (unchanged) "\<not> ok" "same_trace_tables d d'"
  | (stored) tr src dst u d1 where
      "d_message TraceDataTracePayload_dec (Option.bind (td_Data td) (tl_parse T)) = Some tr"
      "il_ParseAddr (te_ip E) (tt_Src tr) = Some src" "il_ParseAddr (te_ip E) (tt_Dst tr) = Some dst"
      "trace_tx E td tr ts sid cid src dst (d\<lparr>tdb_stmts := Suc (tdb_stmts d)\<rparr>) = (Some u, out, d1)"
      "same_trace_tables d1 d'" "ok \<or> de_fault (te_db E) (tdb_stmts d1) = FLost"
  using assms unfolding processNormalTrace_def
  by (auto simp: Let_def same_trace_tables_def split: option.splits tx_begin.splits prod.splits fault.splits)

lemma trace_handle_cases:
  assumes "trace_handle T E msg data d = (s, out, d')"
  obtains (refused) "same_trace_tables d d'" "s = Nakked msg"
  | (skipped) payload td where "same_trace_tables d d'" "s = Acked msg" "decoded_trace T data = Some (payload, td)"
      "td_Type td = TraceProbeTypeTraceLb"
  | (processed) payload td ok where "decoded_trace T data = Some (payload, td)" "s = (if ok then Acked msg else Nakked msg)"
      "processNormalTrace T E td (pr_Timestamp (re_Payload payload)) (re_SerialID payload) (re_AgentConfigId payload) d = (ok, out, d')"
proof (cases "decoded_trace T data")
  case None
  then show ?thesis using assms refused
    by (auto simp: trace_handle_def decoded_trace_def split: option.splits if_splits)
next
  case (Some r)
  then obtain payload td where r: "decoded_trace T data = Some (payload, td)" by (cases r) auto
  then have dec: "d_message ReportPayload_dec data = Some payload" "d_message (TraceData_dec T) (pr_Data (re_Payload payload)) = Some td"
    by (auto simp: decoded_trace_def split: bind_splits)
  let ?p = "processNormalTrace T E td (pr_Timestamp (re_Payload payload)) (re_SerialID payload) (re_AgentConfigId payload) d"
  consider "pr_ProbeType (re_Payload payload) \<noteq> ProbeTypeTrace \<or> td_Format td \<noteq> ''json''
      \<or> td_Type td \<noteq> TraceProbeTypeTrace \<and> td_Type td \<noteq> TraceProbeTypeTraceLb"
    | "pr_ProbeType (re_Payload payload) = ProbeTypeTrace" "td_Format td = ''json''" "td_Type td = TraceProbeTypeTraceLb"
    | "pr_ProbeType (re_Payload payload) = ProbeTypeTrace" "td_Format td = ''json''" "td_Type td = TraceProbeTypeTrace"
    by blast
  then show ?thesis
  proof cases
    case 1
    then have "trace_handle T E msg data d = (Nakked msg, [], d)" by (auto simp: trace_handle_def dec)
    then show ?thesis using assms refused by simp
  next
    case 2
    then have "trace_handle T E msg data d = (Acked msg, [], d)"
      by (simp add: trace_handle_def dec TraceProbeTypeTrace_def TraceProbeTypeTraceLb_def)
    then show ?thesis using assms skipped [OF _ _ r 2(3)] by simp
  next
    case 3
    obtain ok o' d2 where p: "?p = (ok, o', d2)" by (cases ?p)
    then have "trace_handle T E msg data d = (if ok then Acked msg else Nakked msg, o', d2)"
      using 3 by (simp add: trace_handle_def dec)
    then show ?thesis using assms processed [OF r, of ok] p by simp
  qed
qed

text \<open>A traceroute that is stored, with what is published for it.\<close>

lemma processed_stored:
  assumes "processNormalTrace T E td ts sid cid d = (ok, out, d')" "pub_sound (te_pub E)" "ok \<or> \<not> same_trace_tables d d'"
  obtains tr mid m hops links event e where
    "d_message TraceDataTracePayload_dec (Option.bind (td_Data td) (tl_parse T)) = Some tr"
    "stores_trace d d' mid m hops links" "length hops = length (tt_Hops tr) + length (tt_NoHops tr)"
    "length links = length (extractLinks (te_ties E) (te_ord E) tr)" "itm_SerialID m = sid" "itm_Raw m = td_Data td"
    "itm_LinkPathHash m = link_fingerprint (te_sha E) (extractLinks (te_ties E) (te_ord E) tr)"
    "(''cepheus.measurement.trace.'' @ sid, event) \<in> set out" "MeasurementEvent_dec event = Some e"
    "me_Type e = ProbeTypeTrace" "me_SerialID e = sid" "me_Target e = il_String (te_ip E) (itm_Dst m)"
    "me_Src e = il_String (te_ip E) (itm_Src m)" "me_Timestamp e = ts"
    "d_message TraceMetrics_dec (me_Metrics e) = Some \<lparr>tm_AsnPathHash = itm_AsnPathHash m, tm_LinkPathHash = itm_LinkPathHash m\<rparr>"
    "ok \<or> (\<exists>n. de_fault (te_db E) n = FLost)"
  using assms(1)
proof (cases rule: processNormalTrace_cases)
  case (stored tr src dst u d1)
  obtain mid m hops links where m: "stores_trace (d\<lparr>tdb_stmts := Suc (tdb_stmts d)\<rparr>) d1 mid m hops links"
    "length hops = length (tt_Hops tr) + length (tt_NoHops tr)"
    "length links = length (extractLinks (te_ties E) (te_ord E) tr)"
    "itm_SerialID m = sid" "itm_Src m = src" "itm_Dst m = dst" "itm_Raw m = td_Data td"
    "itm_LinkPathHash m = link_fingerprint (te_sha E) (extractLinks (te_ties E) (te_ord E) tr)"
    and pub: "trace_publishMeasurement (te_pub E) sid (il_String (te_ip E) dst) (il_String (te_ip E) src) ts
      \<lparr>tm_AsnPathHash = itm_AsnPathHash m, tm_LinkPathHash = itm_LinkPathHash m\<rparr> = (True, out)"
    by (rule trace_tx_ok [OF stored(4)])
  obtain event e where ev: "(''cepheus.measurement.trace.'' @ sid, event) \<in> set out" "MeasurementEvent_dec event = Some e"
    "me_Type e = ProbeTypeTrace" "me_SerialID e = sid" "me_Target e = il_String (te_ip E) dst"
    "me_Src e = il_String (te_ip E) src" "me_Timestamp e = ts"
    "d_message TraceMetrics_dec (me_Metrics e) = Some \<lparr>tm_AsnPathHash = itm_AsnPathHash m, tm_LinkPathHash = itm_LinkPathHash m\<rparr>"
    using trace_event_decodes [OF pub assms(2)] by blast
  have st: "stores_trace d d' mid m hops links" using m(1) stored(5) by (simp add: stores_trace_def same_trace_tables_def)
  show ?thesis
    by (rule that [OF stored(1) st m(2,3,4,7,8) ev(1-4)]) (use ev(5-8) m(5,6) stored(6) in auto)
qed (use assms(3) in simp)

text \<open>
  Property C26. A traceroute is stored completely or not at all, and what is stored is what is announced. After a
  message either the tables are as before; or exactly one measurement was added, with a hop row for every
  responding and every silent hop and a row for every link, all of them referring to it, and the event
  published for it carries the fingerprints that are stored, the link fingerprint being that of its links. The
  message is acknowledged when its data is stored, or when it is of the kind that is skipped, and is
  returned otherwise; the one exception is a commit whose answer is lost.
\<close>

theorem trace_all_or_nothing:
  assumes "pub_sound (te_pub E)"
  shows "case trace_handle T E msg data d of (s, out, d') \<Rightarrow>
    same_trace_tables d d' \<and> (s = Nakked msg
      \<or> s = Acked msg \<and> (\<exists>payload td. decoded_trace T data = Some (payload, td) \<and> td_Type td = TraceProbeTypeTraceLb))
    \<or> (\<exists>payload td tr mid m hops links event e.
        decoded_trace T data = Some (payload, td)
        \<and> d_message TraceDataTracePayload_dec (Option.bind (td_Data td) (tl_parse T)) = Some tr
        \<and> stores_trace d d' mid m hops links
        \<and> length hops = length (tt_Hops tr) + length (tt_NoHops tr)
        \<and> length links = length (extractLinks (te_ties E) (te_ord E) tr)
        \<and> itm_SerialID m = re_SerialID payload \<and> itm_Raw m = td_Data td
        \<and> itm_LinkPathHash m = link_fingerprint (te_sha E) (extractLinks (te_ties E) (te_ord E) tr)
        \<and> (''cepheus.measurement.trace.'' @ re_SerialID payload, event) \<in> set out
        \<and> MeasurementEvent_dec event = Some e \<and> me_Target e = il_String (te_ip E) (itm_Dst m)
        \<and> me_Src e = il_String (te_ip E) (itm_Src m)
        \<and> d_message TraceMetrics_dec (me_Metrics e)
            = Some \<lparr>tm_AsnPathHash = itm_AsnPathHash m, tm_LinkPathHash = itm_LinkPathHash m\<rparr>
        \<and> (s = Acked msg \<or> s = Nakked msg \<and> (\<exists>n. de_fault (te_db E) n = FLost)))"
proof -
  obtain s out d' where h: "trace_handle T E msg data d = (s, out, d')" by (cases "trace_handle T E msg data d")
  from h show ?thesis
  proof (rule trace_handle_cases)
    assume "same_trace_tables d d'" "s = Nakked msg"
    then show ?thesis by (simp add: h)
  next
    fix payload td assume "same_trace_tables d d'" "s = Acked msg" "decoded_trace T data = Some (payload, td)"
      "td_Type td = TraceProbeTypeTraceLb"
    then show ?thesis by (simp add: h)
  next
    fix payload td ok
    assume dec: "decoded_trace T data = Some (payload, td)" and s: "s = (if ok then Acked msg else Nakked msg)"
      and p: "processNormalTrace T E td (pr_Timestamp (re_Payload payload)) (re_SerialID payload) (re_AgentConfigId payload) d = (ok, out, d')"
    show ?thesis
    proof (cases "ok \<or> \<not> same_trace_tables d d'")
      case True
      show ?thesis
      proof (rule processed_stored [OF p assms True])
        fix tr mid m hops links event e
        assume st: "d_message TraceDataTracePayload_dec (Option.bind (td_Data td) (tl_parse T)) = Some tr"
          "stores_trace d d' mid m hops links" "length hops = length (tt_Hops tr) + length (tt_NoHops tr)"
          "length links = length (extractLinks (te_ties E) (te_ord E) tr)" "itm_SerialID m = re_SerialID payload"
          "itm_Raw m = td_Data td"
          "itm_LinkPathHash m = link_fingerprint (te_sha E) (extractLinks (te_ties E) (te_ord E) tr)"
          "(''cepheus.measurement.trace.'' @ re_SerialID payload, event) \<in> set out" "MeasurementEvent_dec event = Some e"
          and ev: "me_Target e = il_String (te_ip E) (itm_Dst m)" "me_Src e = il_String (te_ip E) (itm_Src m)"
          "d_message TraceMetrics_dec (me_Metrics e) = Some \<lparr>tm_AsnPathHash = itm_AsnPathHash m, tm_LinkPathHash = itm_LinkPathHash m\<rparr>"
          "ok \<or> (\<exists>n. de_fault (te_db E) n = FLost)"
        have "s = Acked msg \<or> s = Nakked msg \<and> (\<exists>n. de_fault (te_db E) n = FLost)" using s ev(4) by auto
        then show ?thesis unfolding h prod.case using dec st ev(1-3) by blast
      qed
    next
      case False
      then show ?thesis using s by (simp add: h)
    qed
  qed
qed

section \<open>The fetch loop\<close>

text \<open>The messages of the batches fetched, in order; everything the processor relies on may differ from one to the next.\<close>

fun trace_consume :: "text_lib \<Rightarrow> (trace_env \<times> nat \<times> json option) list \<Rightarrow> trace_db \<Rightarrow> settle list \<times> published \<times> trace_db" where
  "trace_consume T [] d = ([], [], d)"
| "trace_consume T ((E, msg, data) # ms) d = (case trace_handle T E msg data d of
     (s, out, d') \<Rightarrow> (case trace_consume T ms d' of (ss, out', d'') \<Rightarrow> (s # ss, out @ out', d'')))"

text \<open>Keys are unique and every hop and link refers to a stored measurement.\<close>

definition trace_inv :: "trace_db \<Rightarrow> bool" where
  "trace_inv d \<longleftrightarrow> distinct (map fst (tdb_measurements d)) \<and> distinct (map uad_Ip (tdb_as_details d))
     \<and> list_all (\<lambda>r. refers d (ith_MeasurementID r)) (tdb_hops d) \<and> list_all (\<lambda>r. refers d (itl_MeasurementID r)) (tdb_links d)"

lemma same_tables_inv: "same_trace_tables d d' \<Longrightarrow> trace_inv d' = trace_inv d"
  by (simp add: trace_inv_def same_trace_tables_def refers_def)

lemma stores_trace_inv: "stores_trace d d' mid m hops links \<Longrightarrow> trace_inv d \<Longrightarrow> trace_inv d'"
  by (auto simp: trace_inv_def stores_trace_def refers_def refers_to_def list_all_iff)

lemma trace_handle_inv: "trace_handle T E msg data d = (s, out, d') \<Longrightarrow> trace_inv d \<Longrightarrow> trace_inv d' \<and> settled_msg s = msg"
proof (erule trace_handle_cases)
  fix payload td ok assume inv: "trace_inv d" and s: "s = (if ok then Acked msg else Nakked msg)"
    and p: "processNormalTrace T E td (pr_Timestamp (re_Payload payload)) (re_SerialID payload) (re_AgentConfigId payload) d = (ok, out, d')"
  from p have "trace_inv d'"
  proof (cases rule: processNormalTrace_cases)
    case unchanged
    then show ?thesis using inv same_tables_inv by blast
  next
    case (stored tr src dst u d1)
    then show ?thesis using inv same_tables_inv stores_trace_inv
      by (metis same_trace_tables_refl(2) trace_tx_ok)
  qed
  then show "trace_inv d' \<and> settled_msg s = msg" using s by simp
qed (auto simp: same_tables_inv)

lemma trace_consume_inv:
  "trace_inv d \<Longrightarrow> trace_consume T ms d = (ss, out, d') \<Longrightarrow> trace_inv d' \<and> map settled_msg ss = map (fst \<circ> snd) ms"
proof (induction ms arbitrary: d ss out d')
  case (Cons m ms)
  obtain E msg data where m: "m = (E, msg, data)" by (cases m)
  obtain s o1 d1 where h: "trace_handle T E msg data d = (s, o1, d1)" by (cases "trace_handle T E msg data d")
  obtain ss' o2 where c: "trace_consume T ms d1 = (ss', o2, d')" "ss = s # ss'"
    using Cons.prems(2) by (auto simp: m h split: prod.splits)
  show ?case using trace_handle_inv [OF h Cons.prems(1)] Cons.IH [of d1, OF _ c(1)] c(2) by (simp add: m)
qed simp

section \<open>Reports that are never accepted\<close>

text \<open>A network lookup that names an address twice, as for a router that answers twice, makes the copy fail.\<close>

lemma repeated_address_refused:
  assumes "as_rows L results = Some rows" "\<not> distinct (map uad_Ip rows)" "\<And>a. il_inet L a = Some a" "lookup missing = Some results"
    and "missing = map (il_String L) (filter (\<lambda>ip. ip \<notin> set existing) ips)"
  shows "fst (enrichMissingHops L env lookup ips existing d) = None"
proof -
  have "those (map (il_inet L \<circ> uad_Ip) rows) = Some (map uad_Ip rows)" using assms(3) by (induction rows) auto
  then have "\<nexists>n d'. UpsertAsDetails L env rows d = (Inr n, d')"
    using assms(2) by (auto simp: UpsertAsDetails_def texec_def Let_def split: fault.splits)
  then show ?thesis
    using assms(1,4,5) by (auto simp: enrichMissingHops_def tx_bind_def need_def stmt_def split: prod.splits sum.splits)
qed

text \<open>A responding hop without an address is stored as a hop but its links are refused.\<close>

lemma empty_address_refused:
  assumes "l \<in> set links" "lk_SrcIP l = Some []" "il_ParseAddr L [] = None"
  shows "those (map (link_row L ts mid) links) = None"
proof -
  have "link_row L ts mid l = None" using assms(2,3) by (simp add: link_row_def end_ip_def)
  then show ?thesis using assms(1) by (induction links) (auto split: option.splits)
qed

section \<open>An example\<close>

definition demo_text :: text_lib where
  "demo_text = \<lparr>tl_parse = (\<lambda>s. if s = ''doc'' then Some (JObj [(''src'', JStr ''10.0.0.9''), (''dst'', JStr ''10.0.0.3''),
      (''hops'', JArr [JObj [(''addr'', JStr ''10.0.0.3''), (''probe_ttl'', JNum 1)]])]) else None), tl_b64 = id, tl_unb64 = Some\<rparr>"

definition demo_ip :: ip_lib where
  "demo_ip = \<lparr>il_ParseAddr = (\<lambda>s. if s = ''10.0.0.9'' then Some (Addr4 9) else if s = ''10.0.0.3'' then Some (Addr4 3) else None),
     il_String = (\<lambda>a. if a = Addr4 9 then ''10.0.0.9'' else ''10.0.0.3''), il_inet = Some\<rparr>"

definition demo_trace_env :: trace_env where
  "demo_trace_env = \<lparr>te_ip = demo_ip, te_db = \<lparr>de_fault = (\<lambda>_. FNone), de_begin = (\<lambda>_. TxOk), de_uuid = of_nat, de_ts = id,
       de_string = (\<lambda>_. ''id''), de_parse = (\<lambda>s. if s = ''id'' then Some 7 else None)\<rparr>,
     te_devices = (\<lambda>s. s = ''s1''), te_agents = (\<lambda>i. i = 7),
     te_lookup = (\<lambda>ips. Some (map (\<lambda>ip. \<lparr>ar_IP = ip, ar_ASN = 64500, ar_BGPPrefix = ''NA'', ar_ASName = ''NA'', ar_CountryCode = []\<rparr>) ips)),
     te_sha = (\<lambda>_. []), te_pub = \<lparr>po_ok = True, po_copies = 1\<rparr>, te_ties = (\<lambda>_. []), te_ord = []\<rparr>"

definition demo_trace_data :: TraceData where
  "demo_trace_data = \<lparr>td_Type = ''trace'', td_Method = ''icmp-paris'', td_Format = ''json'', td_Data = Some ''doc''\<rparr>"

definition demo_trace_db :: trace_db where
  "demo_trace_db = \<lparr>tdb_measurements = [], tdb_hops = [], tdb_links = [], tdb_as_details = [], tdb_stmts = 0\<rparr>"

lemma demo_payload:
  "d_message TraceDataTracePayload_dec (tl_parse demo_text ''doc'') = Some ((demo_trace [trace_hop_zero\<lparr>th_Addr := ''10.0.0.3'', th_ProbeTTL := 1\<rparr>])
     \<lparr>tt_Type := [], tt_Version := [], tt_Method := [], tt_StopReason := [], tt_HopCount := 0, tt_Attempts := 0, tt_Firsthop := 0,
      tt_Wait := 0, tt_ProbeSize := 0, tt_ProbeCount := 0, tt_NoHops := []\<rparr>)"
  by (simp add: demo_text_def d_message_def TraceDataTracePayload_dec_def TraceHopData_dec_def TraceStart_fields_def sec_usec_fields_def
      decode_defs codec_eval demo_trace_def trace_hop_zero_def in_s_def)

definition demo_payload_record :: TraceDataTracePayload where
  "demo_payload_record = (demo_trace [trace_hop_zero\<lparr>th_Addr := ''10.0.0.3'', th_ProbeTTL := 1\<rparr>])
     \<lparr>tt_Type := [], tt_Version := [], tt_Method := [], tt_StopReason := [], tt_HopCount := 0, tt_Attempts := 0, tt_Firsthop := 0,
      tt_Wait := 0, tt_ProbeSize := 0, tt_ProbeCount := 0, tt_NoHops := []\<rparr>"

lemma demo_no_links: "extractLinks (\<lambda>_. []) [] demo_payload_record = []"
  by (simp add: extractLinks_def group_hops_def group_add_def demo_payload_record_def demo_trace_defs sort_slice_def some_order_def)

lemma demo_publish:
  "\<exists>out. trace_publishMeasurement \<lparr>po_ok = True, po_copies = 1\<rparr> ''s1'' target src 5 metrics = (True, out)"
  by (simp add: trace_publishMeasurement_def TraceMetrics_enc_def MeasurementEvent_enc_def j_object_def j_time_def json_time_ok_def second_def publish_def)

lemma demo_tx: "\<exists>u out d'. trace_tx demo_trace_env demo_trace_data demo_payload_record 5 ''s1'' ''id'' (Addr4 9) (Addr4 3)
    (demo_trace_db\<lparr>tdb_stmts := 1\<rparr>) = (Some u, out, d')"
proof -
  obtain out where pub: "trace_publishMeasurement \<lparr>po_ok = True, po_copies = 1\<rparr> ''s1'' ''10.0.0.3'' ''10.0.0.9'' 5
      \<lparr>tm_AsnPathHash = [], tm_LinkPathHash = []\<rparr> = (True, out)"
    using demo_publish by blast
  have hops: "those (map (hop_row demo_ip 5 i) (tt_Hops demo_payload_record)) = Some [\<lparr>ith_Timestamp = \<lparr>pg_val = 5, pg_Valid = True\<rparr>,
      ith_MeasurementID = \<lparr>pg_val = i, pg_Valid = True\<rparr>, ith_Ip = Some (Addr4 3), ith_Ttl = int32 1,
      ith_Rtt = Int8 (f_to_i64 (f_mul (Fin 0) (f_of_int millisecond))), ith_IcmpType = Int4 0, ith_IcmpCode = Int4 0,
      ith_ReplyTtl = Int4 0, ith_Asn = Int4 0, ith_IsNoHop = False\<rparr>]" for i
    by (simp add: hop_row_def demo_ip_def demo_payload_record_def demo_trace_defs)
  have none: "tt_NoHops demo_payload_record = []" by (simp add: demo_payload_record_def)
  have env: "te_ip demo_trace_env = demo_ip" "te_sha demo_trace_env = (\<lambda>_. [])" "te_pub demo_trace_env = \<lparr>po_ok = True, po_copies = 1\<rparr>"
    "te_ties demo_trace_env = (\<lambda>_. [])" "te_ord demo_trace_env = []" "te_devices demo_trace_env ''s1''" "te_agents demo_trace_env 7"
    "\<And>n. de_fault (te_db demo_trace_env) n = FNone" "de_parse (te_db demo_trace_env) ''id'' = Some 7" "de_uuid (te_db demo_trace_env) = of_nat"
    "\<And>ips. te_lookup demo_trace_env ips = Some (map (\<lambda>ip. \<lparr>ar_IP = ip, ar_ASN = 64500, ar_BGPPrefix = ''NA'', ar_ASName = ''NA'', ar_CountryCode = []\<rparr>) ips)"
    by (simp_all add: demo_trace_env_def)
  have ip: "il_ParseAddr demo_ip ''10.0.0.3'' = Some (Addr4 3)" "il_String demo_ip (Addr4 3) = ''10.0.0.3''" "il_String demo_ip (Addr4 9) = ''10.0.0.9''"
    "il_inet demo_ip a = Some a" for a by (simp_all add: demo_ip_def)
  show ?thesis
    unfolding trace_tx_def trace_finish_def Let_def
    by (simp add: tx_bind_def stmt_def need_def published_step_def env ip UUID_def InsertTraceMeasurement_def
      measurement_row_def texec_def demo_trace_db_def hops none GetExistingIPs_def enrichMissingHops_def UpsertAsDetails_def
      getIPToASNMap_def GetASNForIPs_def demo_no_links asn_fingerprint_def link_fingerprint_def hex_encode_def pub pub [simplified]
      UpsertFingerprintHash_def InsertTraceHop_def InsertTraceLink_def refers_def Int4_def)
qed

lemma demo_processed:
  "\<exists>out d'. processNormalTrace demo_text demo_trace_env demo_trace_data 5 ''s1'' ''id'' demo_trace_db = (True, out, d')"
proof -
  obtain u out d1 where "trace_tx demo_trace_env demo_trace_data demo_payload_record 5 ''s1'' ''id'' (Addr4 9) (Addr4 3) (demo_trace_db\<lparr>tdb_stmts := 1\<rparr>) = (Some u, out, d1)"
    using demo_tx by blast
  moreover have "d_message TraceDataTracePayload_dec (Option.bind (td_Data demo_trace_data) (tl_parse demo_text)) = Some demo_payload_record"
    using demo_payload by (simp add: demo_trace_data_def demo_payload_record_def)
  ultimately show ?thesis
    by (simp add: processNormalTrace_def demo_trace_env_def demo_ip_def demo_payload_record_def demo_trace_def Let_def demo_trace_db_def)
qed

theorem trace_all_or_nothing_witness:
  "\<exists>doc out d' mid m hops. pub_sound (te_pub demo_trace_env)
     \<and> trace_handle demo_text demo_trace_env 4 (Some doc) demo_trace_db = (Acked 4, out, d')
     \<and> tdb_measurements d' = [(mid, m)] \<and> itm_SerialID m = ''s1'' \<and> tdb_hops d' = hops \<and> length hops = 1"
proof -
  let ?E = demo_trace_env and ?td = demo_trace_data
  obtain dj where dj: "TraceData_enc demo_text ?td = Some dj" using TraceData_total by blast
  then have td: "TraceData_dec demo_text dj = Some ?td"
    by (rule TraceData_round_trip [rotated]) (simp add: text_law_def demo_text_def)
  let ?p = "\<lparr>re_Payload = \<lparr>pr_TaskID = ''t'', pr_ProbeType = ProbeTypeTrace, pr_Kind = ''trace'', pr_Timestamp = 5, pr_Data = Some dj\<rparr>,
    re_SerialID = ''s1'', re_SentTimestamp = 6, re_AgentConfigId = ''id''\<rparr>"
  have ok: "ReportPayload_ok ?p" by (simp add: ReportPayload_ok_def json_time_ok_def second_def)
  obtain doc where doc: "ReportPayload_dec doc = Some ?p"
    using ReportPayload_codec.enc_total [OF ok] ReportPayload_codec.dec_enc [OF ok] by blast
  have dec: "decoded_trace demo_text (Some doc) = Some (?p, ?td)" by (simp add: decoded_trace_def d_message_def doc td)
  have pub: "pub_sound (te_pub ?E)" by (simp add: pub_sound_def demo_trace_env_def)
  have rec: "d_message TraceDataTracePayload_dec (Option.bind (td_Data ?td) (tl_parse demo_text)) = Some demo_payload_record"
    using demo_payload by (simp add: demo_trace_data_def demo_payload_record_def)
  obtain out d' where "processNormalTrace demo_text ?E ?td 5 ''s1'' ''id'' demo_trace_db = (True, out, d')"
    using demo_processed by blast
  then have h: "trace_handle demo_text ?E 4 (Some doc) demo_trace_db = (Acked 4, out, d')"
    by (simp add: trace_handle_def d_message_def doc td demo_trace_data_def TraceProbeTypeTrace_def)
  have "td_Type ?td \<noteq> TraceProbeTypeTraceLb" by (simp add: demo_trace_data_def TraceProbeTypeTraceLb_def)
  then obtain mid m hops links where "stores_trace demo_trace_db d' mid m hops links" "length hops = 1" "itm_SerialID m = ''s1''"
    using trace_all_or_nothing [OF pub, where T = demo_text and msg = 4 and data = "Some doc" and d = demo_trace_db] dec rec
    unfolding h prod.case by (auto simp: demo_payload_record_def demo_trace_def)
  then have "tdb_measurements d' = [(mid, m)]" "tdb_hops d' = hops" "length hops = 1" "itm_SerialID m = ''s1''"
    by (simp_all add: stores_trace_def demo_trace_db_def)
  then show ?thesis using pub h by blast
qed

end
