(* ===== verification/Spec2Isabelle.thy ===== *)
theory Spec2Isabelle
  imports Dashboard Stamp_Session Ping_Processor Stamp_Processor Trace_Processor
begin

text \<open>
  A verification development for Cepheus, a system that measures networks from distributed agents and raises alarms on anomalies.

  \<^bold>\<open>The program and how its parts interact.\<close> A user edits the probe tasks of a device on a web page (\<^verbatim>\<open>frontend\<close>), which stores them in
  PostgreSQL. The control plane (\<^verbatim>\<open>services/server\<close>) answers each agent with its tasks. An agent (\<^verbatim>\<open>services/agent\<close>) pulls this
  configuration, runs one goroutine per task, measures with STAMP (\<^verbatim>\<open>libs/stamp\<close>), ping, or traceroutes of the scamper daemon
  (\<^verbatim>\<open>libs/scamper-client\<close>), and publishes reports on NATS. Three processors (\<^verbatim>\<open>services/ping-processor\<close>, \<^verbatim>\<open>stamp-processor\<close>,
  \<^verbatim>\<open>trace-processor\<close>) store the reports as rows and publish measurements. Argus (\<^verbatim>\<open>services/argus\<close>) routes the measurements to
  detectors and turns their findings into events, which the frontend shows. The theories follow this path.

  \<^bold>\<open>Prelude.\<close>
  \<^item> \<open>Go_Base\<close>: results, errors and panics as \<open>outcome\<close>; signed integers with wrap-around; instants and durations; decimal digits.
  \<^item> \<open>Go_Float\<close>: \<^verbatim>\<open>float64\<close> as IEEE binary64 on exact reals with rounding; monotonicity, exactness and error bounds.
  \<^item> \<open>Go_Json\<close>: parsed JSON and the decoding rules of \<^verbatim>\<open>encoding/json\<close>; the locale \<open>json_codec\<close>, interpreted for every message and stored state.
  \<^item> \<open>Go_Order\<close>: the orders Go leaves open (map iteration, equal elements of a sort) as universally quantified choices.
  \<^item> \<open>Pg_Base\<close>, \<open>Nats_Base\<close>: PostgreSQL and JetStream as parameters: which statement fails or loses its answer, and how a publication ends.

  \<^bold>\<open>Messages.\<close> \<open>Common_Types\<close>, \<open>Common_Messages\<close> and \<open>Trace_Messages\<close> hold the structs of \<^verbatim>\<open>libs/common/types.go\<close> with their encoders and
  decoders, which are shown to be inverse; \<open>Agent_Wire\<close> holds the messages of \<^verbatim>\<open>proto/cepheus/agent/v1/agent.proto\<close>.

  \<^bold>\<open>Tasks, from the page to the agent.\<close>
  \<^item> \<open>Task_Editor\<close> (\<^verbatim>\<open>device_live.ex\<close>, \<^verbatim>\<open>dashboard.ex\<close>): the form, its validation, the search for an unused identifier (with its
    termination), and the transaction. A save is all or nothing, and what the user typed is what the agent runs after its next tick.
  \<^item> \<open>Server_Config\<close> (\<^verbatim>\<open>handler/agent_config.go\<close>) and \<open>Agent_Config\<close> (\<^verbatim>\<open>domain.go\<close>, \<^verbatim>\<open>config_from_proto.go\<close>): an agent decodes
    exactly the tasks that are stored, parameters included.
  \<^item> \<open>Agent_Supervisor\<close> (\<^verbatim>\<open>supervisor*.go\<close>, \<^verbatim>\<open>utils.go\<close>, \<^verbatim>\<open>data_stream.go\<close>): after every update the desired tasks run, one goroutine each,
    unchanged ones are not restarted, and a scheduled task runs once per tick.
  \<^item> \<open>Agent_Run\<close> (\<^verbatim>\<open>agent.go\<close>): start-up with all its failures, and the loop of configuration ticks.

  \<^bold>\<open>Measuring.\<close>
  \<^item> \<open>Stamp_Codec\<close> (\<^verbatim>\<open>packet.go\<close>, \<^verbatim>\<open>timestamp.go\<close>, \<^verbatim>\<open>error_estimate.go\<close>): packets and timestamps on words, with their round trips.
  \<^item> \<open>Stamp_Session\<close> (\<^verbatim>\<open>sender.go\<close>, \<^verbatim>\<open>reflector.go\<close>): both ends with all error paths; the reflector refines an abstract one that answers each
    valid packet once, and over a session every reply echoes its packet.
  \<^item> \<open>Scamper_Client\<close> and \<open>Scamper_Wire\<close> (\<^verbatim>\<open>client.go\<close>): commands, the reader and the text protocol; every reply reaches the command it
    answers, under all interleavings of senders and reader, and the reader ends.
  \<^item> \<open>Agent_Probes\<close> (\<^verbatim>\<open>executor*.go\<close>, \<^verbatim>\<open>dispatcher.go\<close>): the four executors and the dispatcher; measured delays are those of the clocks up to rounding.

  \<^bold>\<open>Processing.\<close>
  \<^item> \<open>Probe_Stats\<close> and \<open>Probe_Flush\<close>: percentiles and the batch writer, which the ping and STAMP processors repeat; the locale \<open>probe_store\<close> is what
    the writer needs of a table, and both processors interpret it.
  \<^item> \<open>Probe_Pipeline\<close>: fetch loop, bounded channel and flusher in every interleaving, in the locale \<open>probe_pipeline\<close>; \<open>Ping_Processor\<close> and
    \<open>Stamp_Processor\<close> instantiate it: no report is settled twice, an acknowledged one is stored, and every one can be finished.
  \<^item> \<open>Trace_Links\<close> and \<open>Trace_Processor\<close>: links are the adjacencies of a traceroute, whatever the open orders; a traceroute is stored completely or not at all.

  \<^bold>\<open>Argus.\<close>
  \<^item> \<open>Argus_Bucket\<close> (\<^verbatim>\<open>leaky_bucket.go\<close>), \<open>Argus_Detectors\<close> and \<open>Argus_Betab\<close> (\<^verbatim>\<open>ewma.go\<close>, \<^verbatim>\<open>betab.go\<close>): in IEEE arithmetic, with contracts
    for buckets and detectors as locales.
  \<^item> \<open>Argus_DB\<close> (\<^verbatim>\<open>db/queries.sql.go\<close>) and \<open>Argus_Policy\<close> (\<^verbatim>\<open>policy_engine.go\<close>): the tables, and the engine that opens and closes events.
    \<open>Argus_Policy_Inv\<close> has its invariant, under any failing statement; \<open>Argus_Policy_Props\<close> relates it to the automaton clean, watching, firing,
    recovering, and has atomicity, completeness and closing of events.
  \<^item> \<open>Argus_Worker\<close> and \<open>Argus_System\<close> (\<^verbatim>\<open>worker.go\<close>, \<^verbatim>\<open>router.go\<close>, \<^verbatim>\<open>registry.go\<close>, \<^verbatim>\<open>runner.go\<close>, \<^verbatim>\<open>config.go\<close>): router, goroutines and sweeps
    as an inductive step relation: samples are folded in order of arrival, tables stay consistent, and messages are acknowledged.
  \<^item> \<open>Dashboard\<close> (\<^verbatim>\<open>dashboard.ex\<close>, \<^verbatim>\<open>alerts_live.ex\<close>): what the pages show of these tables; no open event is hidden.

  This theory adds the paths that cross components: a STAMP measurement and a traceroute, from the task of an agent to the inbox of the series in Argus.

  \<^bold>\<open>Conventions.\<close> A struct is a record, its fields prefixed by letters of its name; a goroutine's loop is a recursion over its inputs or a step relation;
  anything the code does not control (clock, network, context, database faults, map orders, library functions) is an argument. Hypotheses on
  such arguments are named (\<open>duration_law\<close>, \<open>ecto_law\<close>, \<open>pub_sound\<close> and so on) and hold for the instances of the examples.
  Every definition that models code terminates; loops that run until they are cancelled recurse over the list of their ticks or rounds, so no bound or fuel is used.
  Bounds in statements are those of the code (32-bit columns, 200 rows of the inbox, 64 samples of a channel) or of the float model (delays of at most 13 days).

  \<^bold>\<open>Not modelled.\<close> Process entry points, logging, telemetry and HTTP plumbing; generated protobuf and database-handle code; rendering, charts and
  read-only roll-ups of the frontend; the script that loads address feeds; text of JSON and SQL (documents are parsed trees, queries are functions on tables).
\<close>

section \<open>From a probe to the detector\<close>

lemma publish_ok: "pub_sound r \<Longrightarrow> po_ok r \<Longrightarrow> publish r subj data = (True, out) \<Longrightarrow> (subj, data) \<in> set out"
  by (auto simp: publish_def pub_sound_def)

text \<open>The report of a result, as any consumer decodes it.\<close>

lemma dispatch_probe_decodes:
  assumes "pub_sound pr" "po_ok pr" "pr_ProbeType r \<noteq> []" "pr_Data r \<noteq> None"
    and "json_time_ok (pr_Timestamp r)" "json_time_ok sent_at"
  obtains doc where "(probe_subject (pr_ProbeType r) serial, doc) \<in> set (dispatch_probe pr serial cid sent_at r)"
    "ReportPayload_dec doc = Some \<lparr>re_Payload = r, re_SerialID = serial, re_SentTimestamp = sent_at, re_AgentConfigId = cid\<rparr>"
proof -
  let ?p = "\<lparr>re_Payload = r, re_SerialID = serial, re_SentTimestamp = sent_at, re_AgentConfigId = cid\<rparr>"
  have ok: "ReportPayload_ok ?p" using assms(4-6) by (simp add: ReportPayload_ok_def)
  then obtain doc where doc: "ReportPayload_enc ?p = Some doc" "ReportPayload_dec doc = Some ?p"
    using ReportPayload_codec.enc_total [OF ok] ReportPayload_codec.dec_enc [OF ok] by blast
  have "(probe_subject (pr_ProbeType r) serial, doc) \<in> set (dispatch_probe pr serial cid sent_at r)"
    using assms(1-3) doc(1) by (simp add: dispatch_probe_def publish_def pub_sound_def)
  then show thesis using doc(2) by (rule that)
qed

text \<open>A published STAMP measurement, as the router decodes it.\<close>

lemma published_stamp_event:
  assumes "pub_sound pr" "po_ok pr" "StampMetrics_ok metrics" "in_s 32 port" "json_time_ok ts"
  obtains out event where "stamp_publishMeasurement pr serial target port ts metrics = (True, out)"
    "(''cepheus.measurement.stamp.'' @ serial, event) \<in> set out"
    "\<forall>h routes. let series = \<lparr>ds_Type = SeriesTypeStamp, ds_SerialId = serial, ds_Target = target, ds_Port = port, ds_Src = []\<rparr>;
        inbox = (case routes series of None \<Rightarrow> [] | Some q \<Rightarrow> q)
      in length inbox < 64 \<longrightarrow> dispatch (Some event) h routes
        = (Delivered, routes(series \<mapsto> inbox @ [\<lparr>it_sample = \<lparr>rs_TS = ts, rs_Row = RStamp metrics\<rparr>, it_msg = h\<rparr>]))"
proof -
  obtain mj where mj: "StampMetrics_enc metrics = Some mj" "StampMetrics_dec mj = Some metrics"
    using StampMetrics_codec.enc_total [OF assms(3)] StampMetrics_codec.dec_enc [OF assms(3)] by blast
  let ?e = "\<lparr>me_Type = ProbeTypeStamp, me_SerialID = serial, me_Target = target, me_Port = port, me_Src = [],
    me_Timestamp = ts, me_Metrics = Some mj\<rparr>"
  have ok: "MeasurementEvent_ok ?e" using assms(4,5) by (simp add: MeasurementEvent_ok_def)
  obtain ev where ev: "MeasurementEvent_enc ?e = Some ev" "MeasurementEvent_dec ev = Some ?e"
    using MeasurementEvent_codec.enc_total [OF ok] MeasurementEvent_codec.dec_enc [OF ok] by blast
  have pub: "stamp_publishMeasurement pr serial target port ts metrics = (True, replicate (po_copies pr) (''cepheus.measurement.stamp.'' @ serial, ev))"
    using assms(2) by (simp add: stamp_publishMeasurement_def mj(1) ev(1) publish_def)
  show thesis
    by (rule that [OF pub, of ev])
      (use assms(1,2) in \<open>auto simp: pub_sound_def dispatch_def d_message_def ev(2) seriesFromEvent_def decodeMetrics_def
        probe_type_defs mj(2) Let_def\<close>)
qed


definition demo_sender_params :: StampSenderParams where
  "demo_sender_params = \<lparr>ssp_Target = ''10.0.0.2'', ssp_TargetPort = 862, ssp_SourceIP = '':0'', ssp_Dscp = 0,
     ssp_RequireClockSync = False, ssp_PacketCount = 2, ssp_PacketInterval = 0\<rparr>"

text \<open>Two packets, both lost on the way out.\<close>

definition demo_packets :: "nat \<Rightarrow> packet_env" where
  "demo_packets i = \<lparr>pk_done = False, pk_start = 6, pk_send = demo_send\<lparr>se_write_ok := False\<rparr>, pk_t4 = 7, pk_done_wait = False\<rparr>"

lemma Send_unwritten: "\<not> se_write_ok w \<Longrightarrow> \<exists>ops e. Send w s = (s, ops, Err e)"
  using Send_packet_total [of "se_now w" s] by (cases "Send_packet (se_now w) s") (auto simp: Send_def)

lemma send_loop_unwritten:
  "send_loop clock (map demo_packets xs) s probes n = Ret (probes @ replicate (length xs) (lost_probe 6), n)"
proof (induction xs arbitrary: probes)
  case (Cons x xs)
  obtain ops e where "Send (pk_send (demo_packets x)) s = (s, ops, Err e)"
    using Send_unwritten [of "pk_send (demo_packets x)" s] by (auto simp: demo_packets_def)
  then show ?case using Cons by (simp add: demo_packets_def)
qed simp


text \<open>The result of a trace task, as the processor decodes it.\<close>

lemma trace_report_decodes:
  assumes "Trace_Execute T w (Some answer) now (Some (P_Trace p)) spec c = (Ret r, c')" "text_law T"
    and "json_time_ok now" "json_time_ok sent_at" "pub_sound pr" "po_ok pr"
  obtains doc where "(''cepheus.probe.trace.'' @ serial, doc) \<in> set (dispatch_probe pr serial cid sent_at r)"
    "decoded_trace T (Some doc) = Some (\<lparr>re_Payload = r, re_SerialID = serial, re_SentTimestamp = sent_at, re_AgentConfigId = cid\<rparr>,
      \<lparr>td_Type = TraceProbeTypeTrace, td_Method = tp_Method p, td_Format = sk_Format (cl_cfg c'), td_Data = answer\<rparr>)"
    "pr_Timestamp r = now" "pr_ProbeType r = ProbeTypeTrace"
proof -
  obtain data where r: "pr_ProbeType r = ProbeTypeTrace" "pr_Timestamp r = now" "pr_Data r = Some data"
    and enc: "TraceData_enc T \<lparr>td_Type = TraceProbeTypeTrace, td_Method = tp_Method p, td_Format = sk_Format (cl_cfg c'), td_Data = answer\<rparr> = Some data"
    using assms(1) by (auto simp: Trace_Execute_def split: prod.splits outcome.splits option.splits)
  have r': "pr_ProbeType r \<noteq> []" "pr_Data r \<noteq> None" "json_time_ok (pr_Timestamp r)" using r assms(3) by (simp_all add: probe_type_defs)
  obtain doc where "(probe_subject (pr_ProbeType r) serial, doc) \<in> set (dispatch_probe pr serial cid sent_at r)"
    and dec: "ReportPayload_dec doc = Some \<lparr>re_Payload = r, re_SerialID = serial, re_SentTimestamp = sent_at, re_AgentConfigId = cid\<rparr>"
    by (rule dispatch_probe_decodes [OF assms(5,6) r' assms(4)])
  then have "(''cepheus.probe.trace.'' @ serial, doc) \<in> set (dispatch_probe pr serial cid sent_at r)"
    using r(1) by (simp add: probe_subject_def probe_type_defs)
  then show thesis
    by (rule that) (simp_all add: decoded_trace_def d_message_def dec r TraceData_round_trip [OF assms(2) enc])
qed

text \<open>
  Property C29. A traceroute reaches Argus, and no detector. The result of a trace task is published for
  the trace processor, with the bytes scamper answered. If the processor acknowledges it, exactly one measurement with
  these bytes is stored, for this agent; an event is published, which the router of Argus puts at the end of
  the inbox of the series of that agent and the two addresses, dated by the end of the
  task and carrying the two path hashes of the stored row. The worker of that series runs no monitor at all: the registry
  assigns the hashes to the detector \<^verbatim>\<open>FREQ\<close>, which is not registered.
\<close>

theorem trace_measurement_reaches_argus:
  assumes "Trace_Execute T w (Some answer) now (Some (P_Trace p)) spec c = (Ret r, c')" "text_law T"
    and "json_time_ok now" "json_time_ok sent_at" "pub_sound pr" "po_ok pr" "pub_sound (te_pub E)"
  shows "\<exists>doc. (''cepheus.probe.trace.'' @ serial, doc) \<in> set (dispatch_probe pr serial cid sent_at r)
    \<and> (\<forall>out d'. trace_handle T E msg (Some doc) d = (Acked msg, out, d') \<longrightarrow>
        (\<exists>mid m hops links event series. stores_trace d d' mid m hops links \<and> itm_SerialID m = serial \<and> itm_Raw m = answer
          \<and> (''cepheus.measurement.trace.'' @ serial, event) \<in> set out
          \<and> series = \<lparr>ds_Type = SeriesTypeTrace, ds_SerialId = serial, ds_Target = il_String (te_ip E) (itm_Dst m),
              ds_Port = 0, ds_Src = il_String (te_ip E) (itm_Src m)\<rparr>
          \<and> (\<forall>h routes. let inbox = (case routes series of None \<Rightarrow> [] | Some q \<Rightarrow> q)
             in length inbox < 64 \<longrightarrow> dispatch (Some event) h routes = (Delivered, routes(series \<mapsto> inbox @
                [\<lparr>it_sample = \<lparr>rs_TS = now, rs_Row = RTrace \<lparr>tm_AsnPathHash = itm_AsnPathHash m, tm_LinkPathHash = itm_LinkPathHash m\<rparr>\<rparr>,
                  it_msg = h\<rparr>])))
          \<and> (\<forall>env M db. plan env (argus_worker M) series db = ([], db))))"
proof -
  let ?p = "\<lparr>re_Payload = r, re_SerialID = serial, re_SentTimestamp = sent_at, re_AgentConfigId = cid\<rparr>"
  let ?td = "\<lparr>td_Type = TraceProbeTypeTrace, td_Method = tp_Method p, td_Format = sk_Format (cl_cfg c'), td_Data = answer\<rparr>"
  obtain doc where doc: "(''cepheus.probe.trace.'' @ serial, doc) \<in> set (dispatch_probe pr serial cid sent_at r)"
    and dec: "decoded_trace T (Some doc) = Some (?p, ?td)" and ts: "pr_Timestamp r = now"
    by (rule trace_report_decodes [OF assms(1-6), of serial cid])
  have "\<exists>mid m hops links event series. stores_trace d d' mid m hops links \<and> itm_SerialID m = serial \<and> itm_Raw m = answer
          \<and> (''cepheus.measurement.trace.'' @ serial, event) \<in> set out
          \<and> series = \<lparr>ds_Type = SeriesTypeTrace, ds_SerialId = serial, ds_Target = il_String (te_ip E) (itm_Dst m),
              ds_Port = 0, ds_Src = il_String (te_ip E) (itm_Src m)\<rparr>
          \<and> (\<forall>h routes. let inbox = (case routes series of None \<Rightarrow> [] | Some q \<Rightarrow> q)
             in length inbox < 64 \<longrightarrow> dispatch (Some event) h routes = (Delivered, routes(series \<mapsto> inbox @
                [\<lparr>it_sample = \<lparr>rs_TS = now, rs_Row = RTrace \<lparr>tm_AsnPathHash = itm_AsnPathHash m, tm_LinkPathHash = itm_LinkPathHash m\<rparr>\<rparr>,
                  it_msg = h\<rparr>])))
          \<and> (\<forall>env M db. plan env (argus_worker M) series db = ([], db))"
    if h: "trace_handle T E msg (Some doc) d = (Acked msg, out, d')" for out d'
  proof -
    have p: "processNormalTrace T E ?td now serial cid d = (True, out, d')"
      using h dec ts by (auto simp: trace_handle_def decoded_trace_def d_message_def TraceProbeTypeTrace_def TraceProbeTypeTraceLb_def
        split: bind_splits if_splits prod.splits option.splits)
    obtain mid m hops links event e where st: "stores_trace d d' mid m hops links" "itm_SerialID m = serial" "itm_Raw m = td_Data ?td"
      "(''cepheus.measurement.trace.'' @ serial, event) \<in> set out"
      and ev: "MeasurementEvent_dec event = Some e" "me_Type e = ProbeTypeTrace" "me_SerialID e = serial"
        "me_Target e = il_String (te_ip E) (itm_Dst m)" "me_Src e = il_String (te_ip E) (itm_Src m)" "me_Timestamp e = now"
        "d_message TraceMetrics_dec (me_Metrics e) = Some \<lparr>tm_AsnPathHash = itm_AsnPathHash m, tm_LinkPathHash = itm_LinkPathHash m\<rparr>"
      by (rule processed_stored [OF p assms(7)]) auto
    show ?thesis
      by (intro exI [of _ mid] exI [of _ m] exI [of _ hops] exI [of _ links] exI [of _ event] exI conjI, rule st(1), rule st(2),
          use st(3) in simp, rule st(4), rule HOL.refl)
        (use ev in \<open>simp_all add: trace_series_unmonitored dispatch_def d_message_def [of MeasurementEvent_dec] seriesFromEvent_def
          decodeMetrics_def probe_type_defs Let_def\<close>)
  qed
  then show ?thesis using doc by blast
qed

theorem trace_measurement_reaches_argus_witness:
  "\<exists>c r c' doc out d' mid m event. Trace_Execute demo_text True (Some (Some ''doc'')) 5
       (Some (P_Trace \<lparr>tp_Target = ''10.0.0.3'', tp_SourceIP = [], tp_Method = ''icmp-paris'', tp_MaxTTL = 30,
         tp_FirstTTL = 1, tp_Dscp = 0, tp_WaitSeconds = 5\<rparr>)) (demo_task ''t'' 1) c = (Ret r, c')
     \<and> (''cepheus.probe.trace.'' @ ''s1'', doc) \<in> set (dispatch_probe \<lparr>po_ok = True, po_copies = 1\<rparr> ''s1'' ''id'' 6 r)
     \<and> trace_handle demo_text demo_trace_env 4 (Some doc) demo_trace_db = (Acked 4, out, d')
     \<and> tdb_measurements d' = [(mid, m)] \<and> itm_Raw m = Some ''doc''
     \<and> (''cepheus.measurement.trace.'' @ ''s1'', event) \<in> set out"
proof -
  let ?p = "\<lparr>tp_Target = ''10.0.0.3'', tp_SourceIP = [], tp_Method = ''icmp-paris'', tp_MaxTTL = 30,
         tp_FirstTTL = 1, tp_Dscp = 0, tp_WaitSeconds = 5\<rparr>"
  let ?pr = "\<lparr>po_ok = True, po_copies = 1\<rparr>" and ?s = "demo_task ''t'' 1" and ?E = demo_trace_env
  obtain c where c: "NewClient demo_client_cfg = Ret c" "sk_Format (cl_cfg c) = ''json''"
    by (simp add: NewClient_def demo_client_cfg_def Let_def ScamperFormatJSON_def)
  obtain dj where dj: "TraceData_enc demo_text demo_trace_data = Some dj" using TraceData_total by blast
  obtain r c' where ex: "Trace_Execute demo_text True (Some (Some ''doc'')) 5 (Some (P_Trace ?p)) ?s c = (Ret r, c')"
    and f: "sk_Format (cl_cfg c') = ''json''"
    using dj c(2) by (simp add: Trace_Execute_def scamper_Send_def demo_trace_data_def TraceProbeTypeTrace_def)
  have law: "text_law demo_text" by (simp add: text_law_def demo_text_def)
  have t: "json_time_ok 5" "json_time_ok 6" by (simp_all add: json_time_ok_def second_def)
  have pub: "pub_sound ?pr" "po_ok ?pr" "pub_sound (te_pub ?E)" by (simp_all add: pub_sound_def demo_trace_env_def)
  obtain out d' where pr: "processNormalTrace demo_text ?E demo_trace_data 5 ''s1'' ''id'' demo_trace_db = (True, out, d')"
    using demo_processed by blast
  obtain doc where doc: "(''cepheus.probe.trace.'' @ ''s1'', doc) \<in> set (dispatch_probe ?pr ''s1'' ''id'' 6 r)"
    and th: "\<forall>out d'. trace_handle demo_text ?E 4 (Some doc) demo_trace_db = (Acked 4, out, d') \<longrightarrow>
      (\<exists>mid m hops links event. stores_trace demo_trace_db d' mid m hops links \<and> itm_Raw m = Some ''doc''
        \<and> (''cepheus.measurement.trace.'' @ ''s1'', event) \<in> set out)"
    using trace_measurement_reaches_argus [OF ex law t pub, of "''s1''" "''id''" 4 demo_trace_db]
    by (elim exE conjE) (rule that, assumption, intro allI impI, drule spec, drule spec, drule (1) mp, elim exE conjE, intro exI conjI)
  obtain doc1 where doc1: "(''cepheus.probe.trace.'' @ ''s1'', doc1) \<in> set (dispatch_probe ?pr ''s1'' ''id'' 6 r)"
    "decoded_trace demo_text (Some doc1) = Some (\<lparr>re_Payload = r, re_SerialID = ''s1'', re_SentTimestamp = 6, re_AgentConfigId = ''id''\<rparr>, demo_trace_data)"
    "pr_Timestamp r = 5" "pr_ProbeType r = ProbeTypeTrace"
    by (rule trace_report_decodes [OF ex law t pub(1,2), of "''s1''" "''id''"])
      (use f in \<open>auto simp: demo_trace_data_def TraceProbeTypeTrace_def\<close>)
  have "doc = doc1" using doc doc1(1) by (auto simp: dispatch_probe_def publish_def split: option.splits if_splits)
  then have h: "trace_handle demo_text ?E 4 (Some doc) demo_trace_db = (Acked 4, out, d')"
    using doc1(2-4) pr by (auto simp: trace_handle_def decoded_trace_def d_message_def demo_trace_data_def TraceProbeTypeTrace_def split: bind_splits)
  then obtain mid m hops links event where "stores_trace demo_trace_db d' mid m hops links" "itm_Raw m = Some ''doc''"
    "(''cepheus.measurement.trace.'' @ ''s1'', event) \<in> set out"
    using th by blast
  then show ?thesis using ex doc h by (intro exI [of _ c] exI [of _ r] exI [of _ c'] exI [of _ doc] exI [of _ out] exI [of _ d']
    exI [of _ mid] exI [of _ m] exI [of _ event]) (simp add: stores_trace_def demo_trace_db_def)
qed

end
